(* ===== verification/EPP_Prelude.thy ===== *)
theory EPP_Prelude
  imports Main "HOL-Library.AList" "HOL-Library.Word"
begin

text \<open>
  Shared vocabulary of the development: the collections of facts the component theories fill
  (\<open>frame\<close> for the fields an operation leaves alone, \<open>keeps\<close> for what it preserves), Go's errors
  as values with \<open>errors.Is\<close>, Go maps and \<open>sync.Map\<close> as association lists with the interface
  the clients rely on stated as a locale, and a few generic facts on lists and maps.

  A Go \<open>map\<close> has no iteration order. Where the code ranges over one, the model ranges over an
  association list, and the theorems quantify over every such list: any order the runtime picks
  is one of them.
\<close>

named_theorems frame \<open>the fields and objects an operation leaves unchanged\<close>
named_theorems keeps \<open>the invariants an operation preserves\<close>

section \<open>Errors\<close>

text \<open>
  The Go code returns these shapes of error: a sentinel made by \<open>errors.New\<close> (named by its text,
  which is unique in the program), any other error of a callee (its text), an error wrapped with
  \<open>fmt.Errorf("prefix: %w", err)\<close>, a gRPC status, and the two error types of \<open>encoding/json\<close>
  (without their texts).
\<close>

datatype grpc_code = CodeInternal | CodeUnavailable | CodeUnimplemented

datatype go_error =
    ErrSentinel string
  | ErrMsg string
  | ErrWrap string go_error
  | ErrStatus grpc_code string
  | ErrSyntax
  | ErrUnmarshalType

fun errors_Is :: "go_error \<Rightarrow> go_error \<Rightarrow> bool" where
  "errors_Is (ErrWrap p e) t = (ErrWrap p e = t \<or> errors_Is e t)"
| "errors_Is e t = (e = t)"

lemma errors_Is_refl [simp]: "errors_Is e e"
  by (cases e) simp_all

lemma errors_Is_sentinel [simp]: "errors_Is (ErrSentinel n) t \<longleftrightarrow> ErrSentinel n = t"
  by simp

lemma errors_Is_unwraps: "errors_Is e (ErrSentinel n) \<Longrightarrow> errors_Is (ErrWrap p e) (ErrSentinel n)"
  by simp

type_synonym 'a result = "go_error + 'a"

section \<open>Association lists as Go maps\<close>

type_synonym ('k, 'v) gomap = "('k \<times> 'v) list"

abbreviation keys :: "('k, 'v) gomap \<Rightarrow> 'k list" where
  "keys m \<equiv> map fst m"

abbreviation gomap_wf :: "('k, 'v) gomap \<Rightarrow> bool" where
  "gomap_wf m \<equiv> distinct (keys m)"

lemma map_of_Some_keys: "map_of m k = Some v \<Longrightarrow> k \<in> set (keys m)"
  by (force dest: map_of_SomeD)

lemma map_of_None_keys: "map_of m k = None \<longleftrightarrow> k \<notin> set (keys m)"
  by (simp add: map_of_eq_None_iff)

lemma keys_filter_wf: "gomap_wf m \<Longrightarrow> gomap_wf (filter P m)"
  by (induction m) auto

lemma map_of_filter_keys:
  "gomap_wf m \<Longrightarrow> map_of (filter (\<lambda>(k, _). P k) m) k = (if P k then map_of m k else None)"
  by (induction m) (auto split: if_splits)

section \<open>sync.Map\<close>

text \<open>
  \<open>sync.Map\<close> of the Go standard library, as far as the manager uses it. \<open>Range\<close> visits the
  entries in an unspecified order: the order of the association list.
\<close>

definition smap_Load :: "('k, 'v) gomap \<Rightarrow> 'k \<Rightarrow> 'v option" where
  "smap_Load m k = map_of m k"

definition smap_LoadOrStore :: "('k, 'v) gomap \<Rightarrow> 'k \<Rightarrow> 'v \<Rightarrow> ('v \<times> bool) \<times> ('k, 'v) gomap" where
  "smap_LoadOrStore m k v =
     (case map_of m k of
        Some actual \<Rightarrow> ((actual, True), m)
      | None \<Rightarrow> ((v, False), AList.update k v m))"

definition smap_CompareAndDelete :: "('k, 'v) gomap \<Rightarrow> 'k \<Rightarrow> 'v \<Rightarrow> ('k, 'v) gomap" where
  "smap_CompareAndDelete m k v = (if map_of m k = Some v then AList.delete k m else m)"

definition smap_Range :: "('k, 'v) gomap \<Rightarrow> 'v list" where
  "smap_Range m = map snd m"

text \<open>
  The contract the cell manager relies on. \<open>abs\<close> is the abstract map; the laws say what each
  operation returns and how it changes the map. \<open>only_first_store_wins\<close> and
  \<open>delete_spares_successor\<close> are the two facts that make the registry safe when a cell is
  recreated while an older generation is still being torn down.
\<close>

locale sync_map =
  fixes load :: "'m \<Rightarrow> 'k \<Rightarrow> 'v option"
    and load_or_store :: "'m \<Rightarrow> 'k \<Rightarrow> 'v \<Rightarrow> ('v \<times> bool) \<times> 'm"
    and compare_and_delete :: "'m \<Rightarrow> 'k \<Rightarrow> 'v \<Rightarrow> 'm"
    and range :: "'m \<Rightarrow> 'v list"
    and inv :: "'m \<Rightarrow> bool"
  assumes los_present: "load m k = Some w \<Longrightarrow> load_or_store m k v = ((w, True), m)"
    and los_absent: "load m k = None \<Longrightarrow> \<exists>m'. load_or_store m k v = ((v, False), m') \<and>
                       load m' = (load m)(k \<mapsto> v)"
    and los_inv: "inv m \<Longrightarrow> inv (snd (load_or_store m k v))"
    and cad: "inv m \<Longrightarrow> load (compare_and_delete m k v) =
                (if load m k = Some v then (load m)(k := None) else load m)"
    and cad_inv: "inv m \<Longrightarrow> inv (compare_and_delete m k v)"
    and range_spec: "inv m \<Longrightarrow> set (range m) = ran (load m)"
begin

lemma los_result: "load (snd (load_or_store m k v)) k = Some (fst (fst (load_or_store m k v)))"
  using los_present [of m k _ v] los_absent [of m k v] by (cases "load m k") auto

lemma los_other: "k' \<noteq> k \<Longrightarrow> load (snd (load_or_store m k v)) k' = load m k'"
  using los_present [of m k _ v] los_absent [of m k v] by (cases "load m k") auto

lemma only_first_store_wins:
  "fst (fst (load_or_store (snd (load_or_store m k v)) k w)) = fst (fst (load_or_store m k v))"
  using los_present [OF los_result] by simp

lemma delete_spares_successor:
  "inv m \<Longrightarrow> load m k = Some w \<Longrightarrow> w \<noteq> v \<Longrightarrow> load (compare_and_delete m k v) k = Some w"
  by (simp add: cad)

lemma delete_other: "inv m \<Longrightarrow> k' \<noteq> k \<Longrightarrow> load (compare_and_delete m k v) k' = load m k'"
  by (simp add: cad)

lemma delete_shrinks: "inv m \<Longrightarrow> load (compare_and_delete m k v) j = Some w \<Longrightarrow> load m j = Some w"
  by (auto simp: cad split: if_splits)

end

interpretation smap: sync_map smap_Load smap_LoadOrStore smap_CompareAndDelete smap_Range gomap_wf
proof unfold_locales
  fix m :: "('k, 'v) gomap" and k v w
  show "smap_Load m k = Some w \<Longrightarrow> smap_LoadOrStore m k v = ((w, True), m)"
    by (simp add: smap_Load_def smap_LoadOrStore_def)
  show "smap_Load m k = None \<Longrightarrow> \<exists>m'. smap_LoadOrStore m k v = ((v, False), m') \<and>
          smap_Load m' = (smap_Load m)(k \<mapsto> v)"
    by (simp add: smap_Load_def smap_LoadOrStore_def fun_eq_iff update_conv)
  show "gomap_wf m \<Longrightarrow> gomap_wf (snd (smap_LoadOrStore m k v))"
    by (simp add: smap_LoadOrStore_def distinct_update split: option.split)
  show "gomap_wf m \<Longrightarrow> smap_Load (smap_CompareAndDelete m k v) =
          (if smap_Load m k = Some v then (smap_Load m)(k := None) else smap_Load m)"
    by (simp add: smap_Load_def smap_CompareAndDelete_def fun_eq_iff delete_conv')
  show "gomap_wf m \<Longrightarrow> gomap_wf (smap_CompareAndDelete m k v)"
    by (simp add: smap_CompareAndDelete_def distinct_delete)
  show "gomap_wf m \<Longrightarrow> set (smap_Range m) = ran (smap_Load m)"
    by (simp add: smap_Range_def smap_Load_def [abs_def] ran_distinct)
qed

section \<open>Bounded channels\<close>

text \<open>A send on a buffered channel inside a \<open>select\<close> with a \<open>default\<close> branch: it succeeds exactly
  when the buffer has room, and then appends at the back. Receives take from the front.\<close>

definition chan_try_send :: "nat \<Rightarrow> 'a \<Rightarrow> 'a list \<Rightarrow> 'a list option" where
  "chan_try_send cap x q = (if length q < cap then Some (q @ [x]) else None)"

fun chan_recv :: "'a list \<Rightarrow> ('a \<times> 'a list) option" where
  "chan_recv [] = None"
| "chan_recv (x # q) = Some (x, q)"

locale bounded_fifo =
  fixes try_send :: "nat \<Rightarrow> 'a \<Rightarrow> 'q \<Rightarrow> 'q option"
    and recv :: "'q \<Rightarrow> ('a \<times> 'q) option"
    and contents :: "'q \<Rightarrow> 'a list"
  assumes send_room: "length (contents q) < cap \<Longrightarrow>
            \<exists>q'. try_send cap x q = Some q' \<and> contents q' = contents q @ [x]"
    and send_full: "cap \<le> length (contents q) \<Longrightarrow> try_send cap x q = None"
    and recv_empty: "contents q = [] \<Longrightarrow> recv q = None"
    and recv_front: "contents q = x # xs \<Longrightarrow> \<exists>q'. recv q = Some (x, q') \<and> contents q' = xs"
begin

lemma send_bounded: "try_send cap x q = Some q' \<Longrightarrow> length (contents q') \<le> cap"
  using send_room [of q cap x] send_full [of cap q x]
  by (cases "length (contents q) < cap") fastforce+

lemma send_appends: "try_send cap x q = Some q' \<Longrightarrow> contents q' = contents q @ [x]"
  using send_room [of q cap x] send_full [of cap q x]
  by (cases "length (contents q) < cap") fastforce+

lemma recv_takes: "recv q = Some (x, q') \<Longrightarrow> contents q = x # contents q'"
  using recv_empty [of q] recv_front [of q] by (cases "contents q") fastforce+

end

interpretation chan: bounded_fifo chan_try_send chan_recv "\<lambda>q. q"
  by unfold_locales (simp_all add: chan_try_send_def)

end
