(* ===== verification/Go_Std.thy ===== *)
theory Go_Std
  imports EPP_Prelude
begin

text \<open>
  The parts of Go's standard library the program computes with: \<open>strconv.Itoa\<close>,
  \<open>net.JoinHostPort\<close>, \<open>strings.TrimRight\<close>, \<open>url.QueryEscape\<close>, \<open>filepath.Join\<close>, \<open>hex.EncodeToString\<close>,
  \<open>sha256.Sum256\<close> and \<open>time.Duration\<close>. Strings are byte strings (\<open>char list\<close>), as in Go. These
  definitions belong to the language, not to the repository, and have no entry in the map.
\<close>

unbundle bit_operations_syntax

section \<open>Durations\<close>

text \<open>\<open>time.Duration\<close> is a signed 64-bit count of nanoseconds; arithmetic wraps around.\<close>

type_synonym Duration = "64 word"

definition Second :: Duration where "Second = 1000000000"
definition Millisecond :: Duration where "Millisecond = 1000000"

section \<open>strconv.Itoa\<close>

definition digit_char :: "nat \<Rightarrow> char" where
  "digit_char n = char_of (48 + n)"

fun show_nat :: "nat \<Rightarrow> string" where
  "show_nat n = (if n < 10 then [digit_char n] else show_nat (n div 10) @ [digit_char (n mod 10)])"

declare show_nat.simps [simp del]

definition Itoa :: "int \<Rightarrow> string" where
  "Itoa i = (if i < 0 then CHR ''-'' # show_nat (nat (- i)) else show_nat (nat i))"

fun read_nat :: "string \<Rightarrow> nat" where
  "read_nat s = foldl (\<lambda>a c. 10 * a + (of_char c - 48)) 0 s"

lemma of_char_digit: "n < 10 \<Longrightarrow> (of_char (digit_char n) :: nat) = 48 + n"
  by (simp add: digit_char_def)

lemma digit_char_eq: "n < 10 \<Longrightarrow> digit_char n = c \<Longrightarrow> of_char c = (48 + n :: nat)"
  using of_char_digit by blast

lemma read_show_nat: "read_nat (show_nat n) = n"
proof (induction n rule: show_nat.induct)
  case (1 n)
  show ?case
  proof (cases "n < 10")
    case True
    then show ?thesis by (simp add: show_nat.simps [of n] of_char_digit)
  next
    case False
    with 1 show ?thesis by (simp add: show_nat.simps [of n] of_char_digit)
  qed
qed

lemma show_nat_inj: "show_nat m = show_nat n \<Longrightarrow> m = n"
  by (metis read_show_nat)

lemma show_nat_chars: "c \<in> set (show_nat n) \<Longrightarrow> (48::nat) \<le> of_char c \<and> of_char c < (58::nat)"
proof (induction n rule: show_nat.induct)
  case (1 n)
  show ?case
  proof (cases "n < 10")
    case True
    with 1 show ?thesis by (simp add: show_nat.simps [of n] of_char_digit)
  next
    case False
    with 1 show ?thesis by (auto simp: show_nat.simps [of n] of_char_digit)
  qed
qed

lemma show_nat_no: "(of_char c :: nat) < 48 \<or> (58::nat) \<le> of_char c \<Longrightarrow> c \<notin> set (show_nat n)"
  using show_nat_chars [of c n] by auto

lemma show_nat_neq_minus: "show_nat n \<noteq> CHR ''-'' # s"
  using show_nat_no [of "CHR ''-''" n] by auto

lemma Itoa_inj: "Itoa i = Itoa j \<Longrightarrow> i = j"
  by (auto simp: Itoa_def show_nat_neq_minus show_nat_neq_minus [symmetric]
      dest!: show_nat_inj split: if_splits)

lemma Itoa_no_colon [simp]: "CHR '':'' \<notin> set (Itoa i)"
  by (simp add: Itoa_def show_nat_no)

section \<open>net.JoinHostPort\<close>

definition JoinHostPort :: "string \<Rightarrow> string \<Rightarrow> string" where
  "JoinHostPort host port =
     (if CHR '':'' \<in> set host then ''['' @ host @ '']:'' @ port else host @ '':'' @ port)"

text \<open>The last colon separates host and port, so the joined string determines both.\<close>

lemma last_colon_split:
  assumes "a @ CHR '':'' # p = b @ CHR '':'' # q" "CHR '':'' \<notin> set p" "CHR '':'' \<notin> set q"
  shows "a = b \<and> p = q"
proof -
  have r: "rev p @ CHR '':'' # rev a = rev q @ CHR '':'' # rev b"
    using arg_cong [OF assms(1), of rev] by simp
  have "takeWhile (\<lambda>c. c \<noteq> CHR '':'') (rev p @ CHR '':'' # rev a) = rev p"
    "takeWhile (\<lambda>c. c \<noteq> CHR '':'') (rev q @ CHR '':'' # rev b) = rev q"
    using assms(2,3) by (auto simp: takeWhile_append2 takeWhile_tail)
  with r have "rev p = rev q" by simp
  with r show ?thesis by simp
qed

lemma JoinHostPort_inj:
  assumes "JoinHostPort h p = JoinHostPort h' p'" "CHR '':'' \<notin> set p" "CHR '':'' \<notin> set p'"
  shows "h = h' \<and> p = p'"
proof -
  define w where "w = (\<lambda>x::string. if CHR '':'' \<in> set x then ''['' @ x @ '']'' else x)"
  have j: "JoinHostPort x y = w x @ CHR '':'' # y" for x y
    by (simp add: JoinHostPort_def w_def)
  have "w h = w h' \<and> p = p'"
    using last_colon_split assms unfolding j by blast
  moreover have "w x = w y \<Longrightarrow> x = y" for x y
    by (auto simp: w_def split: if_splits)
  ultimately show ?thesis by blast
qed

section \<open>strings.TrimRight and url.QueryEscape\<close>

definition TrimRight :: "string \<Rightarrow> char \<Rightarrow> string" where
  "TrimRight s c = rev (dropWhile (\<lambda>d. d = c) (rev s))"

lemma TrimRight_no_tail: "TrimRight s c = [] \<or> last (TrimRight s c) \<noteq> c"
proof (cases "dropWhile (\<lambda>d. d = c) (rev s)")
  case Nil
  then show ?thesis by (simp add: TrimRight_def)
next
  case (Cons d ds)
  then have "d \<noteq> c" using hd_dropWhile [of "\<lambda>d. d = c" "rev s"] by simp
  with Cons show ?thesis by (simp add: TrimRight_def)
qed

lemma TrimRight_append: "\<exists>n. s = TrimRight s c @ replicate n c"
proof -
  have "rev s = takeWhile (\<lambda>d. d = c) (rev s) @ dropWhile (\<lambda>d. d = c) (rev s)" by simp
  moreover obtain n where "takeWhile (\<lambda>d. d = c) (rev s) = replicate n c"
    by (metis (full_types) replicate_length_same set_takeWhileD)
  ultimately have "s = rev (replicate n c @ dropWhile (\<lambda>d. d = c) (rev s))"
    by (metis rev_rev_ident)
  then show ?thesis by (auto simp: TrimRight_def)
qed

definition upper_hex :: "nat \<Rightarrow> char" where
  "upper_hex n = ''0123456789ABCDEF'' ! (n mod 16)"

definition unreserved :: "char \<Rightarrow> bool" where
  "unreserved c = (let n = of_char c :: nat in
     (48 \<le> n \<and> n \<le> 57) \<or> (65 \<le> n \<and> n \<le> 90) \<or> (97 \<le> n \<and> n \<le> 122) \<or>
     c = CHR ''-'' \<or> c = CHR ''_'' \<or> c = CHR ''.'' \<or> c = CHR ''~'')"

definition escape_char :: "char \<Rightarrow> string" where
  "escape_char c =
     (if unreserved c then [c]
      else if c = CHR '' '' then ''+''
      else [CHR ''%'', upper_hex (of_char c div 16), upper_hex (of_char c)])"

definition QueryEscape :: "string \<Rightarrow> string" where
  "QueryEscape s = concat (map escape_char s)"

text \<open>The decoder of the receiving side (\<open>url.QueryUnescape\<close>), the reference of the round trip.\<close>

definition unhex :: "char \<Rightarrow> nat" where
  "unhex c = (let n = of_char c :: nat in if n < 58 then n - 48 else n - 55)"

fun QueryUnescape :: "string \<Rightarrow> string" where
  "QueryUnescape (a # b # c # s) =
     (if a = CHR ''%'' then char_of (16 * unhex b + unhex c) # QueryUnescape s
      else if a = CHR ''+'' then CHR '' '' # QueryUnescape (b # c # s)
      else a # QueryUnescape (b # c # s))"
| "QueryUnescape (a # s) = (if a = CHR ''+'' then CHR '' '' else a) # QueryUnescape s"
| "QueryUnescape [] = []"

lemma upper_hex_cases: "n < 16 \<Longrightarrow> unhex (upper_hex n) = n"
proof -
  assume "n < 16"
  then have "n \<in> set [0..<16]" by simp
  moreover have "\<forall>n \<in> set [0..<16]. unhex (upper_hex n) = n" by code_simp
  ultimately show ?thesis by blast
qed

lemma unhex_upper_hex: "unhex (upper_hex n) = n mod 16"
  using upper_hex_cases [of "n mod 16"] by (simp add: upper_hex_def)

lemma QueryUnescape_literal:
  "a \<noteq> CHR ''%'' \<Longrightarrow> QueryUnescape (a # s) = (if a = CHR ''+'' then CHR '' '' else a) # QueryUnescape s"
  by (cases s rule: QueryUnescape.cases) auto

lemma QueryUnescape_char: "QueryUnescape (escape_char c @ s) = c # QueryUnescape s"
proof -
  have "of_char c < (256::nat)" by simp
  then have "of_char c div 16 < (16::nat)" by linarith
  then have "char_of (16 * (of_char c div 16 mod 16) + of_char c mod 16 :: nat) = c"
    by simp
  moreover have "unreserved c \<Longrightarrow> c \<noteq> CHR ''%'' \<and> c \<noteq> CHR ''+''"
    by (auto simp: unreserved_def)
  ultimately show ?thesis
    by (auto simp: escape_char_def unhex_upper_hex QueryUnescape_literal)
qed

lemma QueryUnescape_Escape: "QueryUnescape (QueryEscape s) = s"
  by (induction s) (simp_all add: QueryEscape_def QueryUnescape_char)

section \<open>filepath.Join\<close>

fun split_slash :: "string \<Rightarrow> string list" where
  "split_slash [] = [[]]"
| "split_slash (c # s) =
     (if c = CHR ''/'' then [] # split_slash s
      else (case split_slash s of [] \<Rightarrow> [[c]] | w # ws \<Rightarrow> (c # w) # ws))"

fun join_slash :: "string list \<Rightarrow> string" where
  "join_slash [] = []"
| "join_slash [w] = w"
| "join_slash (w # ws) = w @ CHR ''/'' # join_slash ws"

text \<open>\<open>filepath.Clean\<close>, with the components kept so far, last first.\<close>

definition clean_step :: "bool \<Rightarrow> string \<Rightarrow> string list \<Rightarrow> string list" where
  "clean_step rooted w out =
     (if w = [] \<or> w = ''.'' then out
      else if w = ''..'' then
        (case out of [] \<Rightarrow> if rooted then [] else [w] | v # vs \<Rightarrow> if v = ''..'' then w # out else vs)
      else w # out)"

definition Clean :: "string \<Rightarrow> string" where
  "Clean p =
     (let rooted = (take 1 p = ''/''); body = join_slash (rev (fold (clean_step rooted) (split_slash p) []))
      in if rooted then CHR ''/'' # body else if body = [] then ''.'' else body)"

definition filepath_Join :: "string \<Rightarrow> string \<Rightarrow> string" where
  "filepath_Join a b =
     (if a = [] \<and> b = [] then [] else if a = [] then Clean b else if b = [] then Clean a
      else Clean (a @ CHR ''/'' # b))"

section \<open>hex.EncodeToString and sha256.Sum256\<close>

definition lower_hex :: "nat \<Rightarrow> char" where
  "lower_hex n = ''0123456789abcdef'' ! (n mod 16)"

definition hex_EncodeToString :: "8 word list \<Rightarrow> string" where
  "hex_EncodeToString bs = concat (map (\<lambda>b. [lower_hex (unat b div 16), lower_hex (unat b)]) bs)"

type_synonym w32 = "32 word"
type_synonym sha_state = "w32 \<times> w32 \<times> w32 \<times> w32 \<times> w32 \<times> w32 \<times> w32 \<times> w32"

definition rotr :: "nat \<Rightarrow> w32 \<Rightarrow> w32" where
  "rotr n x = drop_bit n x OR push_bit (32 - n) x"

text \<open>The constants of the algorithm are the first 32 bits of the fractional parts of the cube roots of
  the first 64 primes and of the square roots of the first 8. \<open>root_bits k b n r\<close> adds to \<open>r\<close> the
  binary digits below \<open>b\<close> of the integer \<open>k\<close>-th root of \<open>n\<close>; taking the root of \<open>p * 2 ^ (32 * k)\<close> shifts
  the fraction into the low 32 bits, and the conversion to a word drops the integer part.\<close>

definition small_primes :: "int list" where
  "small_primes = filter (\<lambda>n. list_all (\<lambda>d. n mod d \<noteq> 0) [2..n - 1]) [2..311]"

fun root_bits :: "nat \<Rightarrow> nat \<Rightarrow> int \<Rightarrow> int \<Rightarrow> int" where
  "root_bits k 0 n r = r"
| "root_bits k (Suc b) n r = root_bits k b n (if (r + 2 ^ b) ^ k \<le> n then r + 2 ^ b else r)"

definition root_fraction :: "nat \<Rightarrow> int \<Rightarrow> w32" where
  "root_fraction k p = of_int (root_bits k 36 (p * 2 ^ (32 * k)) 0)"

definition sha_K :: "w32 list" where
  "sha_K = map (root_fraction 3) small_primes"

definition sha_init :: sha_state where
  "sha_init = (root_fraction 2 2, root_fraction 2 3, root_fraction 2 5, root_fraction 2 7,
     root_fraction 2 11, root_fraction 2 13, root_fraction 2 17, root_fraction 2 19)"

text \<open>The message schedule, newest word first; \<open>w ! 15\<close>, \<open>w ! 14\<close>, \<open>w ! 6\<close> and \<open>w ! 1\<close> are the
  words 16, 15, 7 and 2 positions back.\<close>

fun sha_schedule :: "nat \<Rightarrow> w32 list \<Rightarrow> w32 list" where
  "sha_schedule 0 w = rev w"
| "sha_schedule (Suc n) w =
     (let a = w ! 14; b = w ! 1;
          s0 = rotr 7 a XOR rotr 18 a XOR drop_bit 3 a;
          s1 = rotr 17 b XOR rotr 19 b XOR drop_bit 10 b
      in sha_schedule n ((w ! 15 + s0 + w ! 6 + s1) # w))"

fun sha_round :: "sha_state \<Rightarrow> w32 \<times> w32 \<Rightarrow> sha_state" where
  "sha_round (a, b, c, d, e, f, g, h) (k, w) =
     (let t1 = h + (rotr 6 e XOR rotr 11 e XOR rotr 25 e) + ((e AND f) XOR (NOT e AND g)) + k + w;
          t2 = (rotr 2 a XOR rotr 13 a XOR rotr 22 a) + ((a AND b) XOR (a AND c) XOR (b AND c))
      in (t1 + t2, a, b, c, d + t1, e, f, g))"

fun sha_add :: "sha_state \<Rightarrow> sha_state \<Rightarrow> sha_state" where
  "sha_add (a, b, c, d, e, f, g, h) (a', b', c', d', e', f', g', h') =
     (a + a', b + b', c + c', d + d', e + e', f + f', g + g', h + h')"

definition sha_block :: "sha_state \<Rightarrow> w32 list \<Rightarrow> sha_state" where
  "sha_block s ws = sha_add s (foldl sha_round s (zip sha_K (sha_schedule 48 (rev ws))))"

fun be_words :: "8 word list \<Rightarrow> w32 list" where
  "be_words (a # b # c # d # bs) =
     (push_bit 24 (ucast a) OR push_bit 16 (ucast b) OR push_bit 8 (ucast c) OR ucast d) # be_words bs"
| "be_words _ = []"

definition be_bytes :: "nat \<Rightarrow> nat \<Rightarrow> 8 word list" where
  "be_bytes n x = rev (map (\<lambda>i. of_nat (x div 256 ^ i)) [0..<n])"

definition sha_pad :: "8 word list \<Rightarrow> 8 word list" where
  "sha_pad bs = bs @ [0x80] @ replicate ((119 - length bs mod 64) mod 64) 0 @ be_bytes 8 (8 * length bs)"

fun sha_blocks :: "sha_state \<Rightarrow> w32 list \<Rightarrow> sha_state" where
  "sha_blocks s ws = (if length ws < 16 then s else sha_blocks (sha_block s (take 16 ws)) (drop 16 ws))"

declare sha_blocks.simps [simp del]

fun sha_out :: "sha_state \<Rightarrow> 8 word list" where
  "sha_out (a, b, c, d, e, f, g, h) = concat (map (\<lambda>w. be_bytes 4 (unat w)) [a, b, c, d, e, f, g, h])"

definition Sum256 :: "string \<Rightarrow> 8 word list" where
  "Sum256 raw = sha_out (sha_blocks sha_init (be_words (sha_pad (map of_char raw))))"

lemma length_hex [simp]: "length (hex_EncodeToString bs) = 2 * length bs"
  by (induction bs) (simp_all add: hex_EncodeToString_def)

lemma length_Sum256 [simp]: "length (Sum256 raw) = 32"
  by (cases "sha_blocks sha_init (be_words (sha_pad (map of_char raw)))" rule: sha_out.cases)
     (simp add: Sum256_def be_bytes_def)

end
