(* ===== verification/Cluster_Hub.thy ===== *)
theory Cluster_Hub
  imports Go_Std
begin

text \<open>
  \<open>pkg/eppplugin/clustertable/hub.go\<close>: the table of desired endpoints per cluster. The discovery
  poller replaces it as a whole; every discovery plugin reads its own cluster's entry and waits
  for the next version.

  The endpoint metadata is \<open>fwkdl.EndpointMetadata\<close> of the engine library, with the fields this
  program sets. The version is a \<open>uint64\<close> and wraps around. A channel is a number, unique in the
  life of the hub, and \<open>closed\<close> tells the channels that have been closed; \<open>make\<close> takes the next
  number. The mutex makes each operation one atomic step; \<open>WaitChange\<close> is a loop of such steps and
  is modelled as a step relation, with replacements by other goroutines between any two of them.
\<close>

datatype NamespacedName = NamespacedName (Namespace: string) (NName: string)

record EndpointMetadata =
  ep_ID :: NamespacedName
  ep_Name :: string
  ep_Address :: string
  ep_Port :: string
  ep_MetricsHost :: string

type_synonym desired_table = "(string, EndpointMetadata list) gomap"

record Hub =
  hub_data :: desired_table
  hub_version :: "64 word"
  hub_ch :: nat
  hub_closed :: "nat \<Rightarrow> bool"

definition NewHub :: Hub where
  "NewHub = \<lparr>hub_data = [], hub_version = 0, hub_ch = 0, hub_closed = (\<lambda>_. False)\<rparr>"

definition Hub_ReplaceAll :: "desired_table \<Rightarrow> Hub \<Rightarrow> Hub" where
  "Hub_ReplaceAll d h =
     h\<lparr>hub_data := d, hub_version := hub_version h + 1, hub_closed := (hub_closed h)(hub_ch h := True), hub_ch := Suc (hub_ch h)\<rparr>"

definition Hub_Snapshot :: "string \<Rightarrow> Hub \<Rightarrow> EndpointMetadata list \<times> 64 word" where
  "Hub_Snapshot cluster h =
     ((case map_of (hub_data h) cluster of None \<Rightarrow> [] | Some eps \<Rightarrow> eps), hub_version h)"

text \<open>The waiter: at the top of the loop, blocked on a captured channel, or returned.\<close>

datatype wait_pc = WTop | WBlocked nat | WReturned "64 word" | WCtxErr

inductive Hub_WaitChange :: "64 word \<Rightarrow> Hub \<times> wait_pc \<Rightarrow> Hub \<times> wait_pc \<Rightarrow> bool"
  for since :: "64 word" where
  differs: "hub_version h \<noteq> since \<Longrightarrow> Hub_WaitChange since (h, WTop) (h, WReturned (hub_version h))"
| blocks: "hub_version h = since \<Longrightarrow> Hub_WaitChange since (h, WTop) (h, WBlocked (hub_ch h))"
| wakes: "hub_closed h c \<Longrightarrow> Hub_WaitChange since (h, WBlocked c) (h, WTop)"
| ctx_done: "Hub_WaitChange since (h, WBlocked c) (h, WCtxErr)"
| replaced: "Hub_WaitChange since (h, pc) (Hub_ReplaceAll d h, pc)"

inductive_cases wait_topE: "Hub_WaitChange since (h, WTop) s"
inductive_simps wait_step_simps: "Hub_WaitChange since (h, pc) (h', pc')"

text \<open>The current channel is open, and no channel made later has been closed.\<close>

definition hub_inv :: "Hub \<Rightarrow> bool" where
  "hub_inv h \<longleftrightarrow> (\<forall>c. hub_closed h c \<longleftrightarrow> c < hub_ch h)"

lemma NewHub_fields [simp]: "hub_data NewHub = []" "hub_version NewHub = 0" "hub_ch NewHub = 0"
  by (simp_all add: NewHub_def)

lemma NewHub_inv [keeps]: "hub_inv NewHub"
  by (simp add: hub_inv_def NewHub_def)

lemma ReplaceAll_inv [keeps]: "hub_inv h \<Longrightarrow> hub_inv (Hub_ReplaceAll d h)"
  by (auto simp: hub_inv_def Hub_ReplaceAll_def less_Suc_eq)

lemma ReplaceAll_data [simp]: "hub_data (Hub_ReplaceAll d h) = d"
  and ReplaceAll_version [simp]: "hub_version (Hub_ReplaceAll d h) = hub_version h + 1"
  and ReplaceAll_ch [simp]: "hub_ch (Hub_ReplaceAll d h) = Suc (hub_ch h)"
  and ReplaceAll_closed [simp]: "hub_closed (Hub_ReplaceAll d h) = (hub_closed h)(hub_ch h := True)"
  by (simp_all add: Hub_ReplaceAll_def)

text \<open>\<open>ReplaceAll\<close> never closes a channel twice: Go would panic.\<close>

lemma hub_inv_open: "hub_inv h \<Longrightarrow> \<not> hub_closed h (hub_ch h)"
  by (simp add: hub_inv_def)

section \<open>The interface the plugins rely on\<close>

locale desired_hub =
  fixes snapshot :: "string \<Rightarrow> 'h \<Rightarrow> EndpointMetadata list \<times> 64 word"
    and replace_all :: "desired_table \<Rightarrow> 'h \<Rightarrow> 'h"
  assumes snapshot_after: "fst (snapshot c (replace_all d h)) =
            (case map_of d c of None \<Rightarrow> [] | Some eps \<Rightarrow> eps)"
    and version_after: "snd (snapshot c (replace_all d h)) = snd (snapshot c h) + 1"
    and version_global: "snd (snapshot c h) = snd (snapshot c' h)"
begin

lemma absent_is_cleared: "c \<notin> set (keys d) \<Longrightarrow> fst (snapshot c (replace_all d h)) = []"
  using snapshot_after [of c d h] map_of_eq_None_iff [of d c] by simp

lemma replace_moves_version: "snd (snapshot c (replace_all d h)) \<noteq> snd (snapshot c h)"
  using version_after [of c d h] by simp

lemma last_replace_wins:
  "fst (snapshot c (fold replace_all (ds @ [d]) h)) =
     (case map_of d c of None \<Rightarrow> [] | Some eps \<Rightarrow> eps)"
  by (simp add: snapshot_after)

lemma version_counts: "snd (snapshot c (fold replace_all ds h)) = snd (snapshot c h) + of_nat (length ds)"
proof (induction ds arbitrary: h)
  case Nil
  then show ?case by simp
next
  case (Cons d ds)
  then show ?case by (simp add: version_after)
qed

end

interpretation hub: desired_hub Hub_Snapshot Hub_ReplaceAll
  by unfold_locales (simp_all add: Hub_Snapshot_def)

section \<open>Waiting for a change\<close>

text \<open>
  A blocked waiter holds a channel made no later than the current one; if it is the current one,
  nothing has been replaced since the waiter read the version.
\<close>

definition wait_inv :: "64 word \<Rightarrow> Hub \<times> wait_pc \<Rightarrow> bool" where
  "wait_inv since s \<longleftrightarrow> hub_inv (fst s) \<and>
     (\<forall>c. snd s = WBlocked c \<longrightarrow>
        c \<le> hub_ch (fst s) \<and> (c = hub_ch (fst s) \<longrightarrow> hub_version (fst s) = since))"

lemma wait_inv_start: "hub_inv h \<Longrightarrow> wait_inv since (h, WTop)"
  by (simp add: wait_inv_def)

lemma wait_inv_step: "Hub_WaitChange since s t \<Longrightarrow> wait_inv since s \<Longrightarrow> wait_inv since t"
  by (induction rule: Hub_WaitChange.induct) (auto simp: wait_inv_def keeps)

lemma wait_inv_steps: "(Hub_WaitChange since)\<^sup>*\<^sup>* s t \<Longrightarrow> wait_inv since s \<Longrightarrow> wait_inv since t"
  by (induction rule: rtranclp_induct) (auto intro: wait_inv_step)

lemma blocked_wakeable:
  "wait_inv since (h, WBlocked c) \<Longrightarrow> hub_version h \<noteq> since \<Longrightarrow> hub_closed h c"
  by (auto simp: wait_inv_def hub_inv_def)

lemma returned_differs:
  "(Hub_WaitChange since)\<^sup>*\<^sup>* s t \<Longrightarrow> (\<forall>v. snd s \<noteq> WReturned v) \<Longrightarrow> snd t = WReturned v \<Longrightarrow> v \<noteq> since"
proof (induction arbitrary: v rule: rtranclp_induct)
  case base
  then show ?case by blast
next
  case (step t u)
  from step.hyps(2) show ?case
    using step.IH step.prems by cases auto
qed

text \<open>
  C22. No update is lost, and there is no false alarm: whatever the interleaving of a waiter with other
  goroutines' table replacements, a waiter that has not returned and whose version is out of date can always
  go on and return the current version; it never stays blocked on a channel nobody will close. And
  whenever it returns, with whatever the hub has become since, the version it returns differs from the one it
  waited on.
\<close>

theorem wait_no_lost_update:
  assumes "hub_inv h"
    and "(Hub_WaitChange since)\<^sup>*\<^sup>* (h, WTop) (h', pc)"
    and "hub_version h' \<noteq> since"
    and "pc = WTop \<or> pc = WBlocked c"
  shows "(Hub_WaitChange since)\<^sup>*\<^sup>* (h', pc) (h', WReturned (hub_version h')) \<and>
    (\<forall>h'' v. (Hub_WaitChange since)\<^sup>*\<^sup>* (h, WTop) (h'', WReturned v) \<longrightarrow> v \<noteq> since)"
proof -
  have inv: "wait_inv since (h', pc)"
    using assms(1,2) wait_inv_start wait_inv_steps by blast
  have top: "(Hub_WaitChange since)\<^sup>*\<^sup>* (h', WTop) (h', WReturned (hub_version h'))"
    using assms(3) by (blast intro: Hub_WaitChange.differs)
  have alarm: "v \<noteq> since" if "(Hub_WaitChange since)\<^sup>*\<^sup>* (h, WTop) (h'', WReturned v)" for h'' v
    using returned_differs [OF that] by simp
  from assms(4) have "(Hub_WaitChange since)\<^sup>*\<^sup>* (h', pc) (h', WReturned (hub_version h'))"
  proof
    assume "pc = WBlocked c"
    moreover from this have "hub_closed h' c" using inv assms(3) blocked_wakeable by simp
    ultimately show ?thesis
      using top Hub_WaitChange.wakes by (metis converse_rtranclp_into_rtranclp)
  qed (use top in simp)
  with alarm show ?thesis by blast
qed

theorem wait_no_lost_update_witness:
  "(Hub_WaitChange 0)\<^sup>*\<^sup>* (Hub_ReplaceAll [] NewHub, WBlocked 0)
     (Hub_ReplaceAll [] NewHub, WReturned 1)"
proof -
  let ?h = "Hub_ReplaceAll [] NewHub"
  have "Hub_WaitChange 0 (NewHub, WTop) (NewHub, WBlocked 0)"
    using Hub_WaitChange.blocks [of NewHub 0] by (simp add: NewHub_def)
  moreover have "Hub_WaitChange 0 (NewHub, WBlocked 0) (?h, WBlocked 0)"
    by (rule Hub_WaitChange.replaced)
  ultimately have reach: "(Hub_WaitChange 0)\<^sup>*\<^sup>* (NewHub, WTop) (?h, WBlocked 0)"
    by (meson r_into_rtranclp rtranclp_trans)
  have ver: "hub_version ?h = 1" by simp
  have "(Hub_WaitChange 0)\<^sup>*\<^sup>* (?h, WBlocked 0) (?h, WReturned (hub_version ?h))"
    using wait_no_lost_update [OF NewHub_inv reach, where c = 0] by (simp add: ver)
  then show ?thesis by (simp add: ver)
qed

end
