(* ===== verification/Cluster_Plugin.thy ===== *)
theory Cluster_Plugin
  imports Cluster_Hub
begin

text \<open>
  \<open>pkg/eppplugin/clustertable/discovery.go\<close>: one engine generation's view of a cluster. Each round
  takes a snapshot of the hub, diffs it against what this generation has applied, and tells the
  engine library's datastore through the \<open>DiscoveryNotifier\<close>, deletes before upserts.

  The notifier and the datastore are code of the engine library. The model records the calls in
  the order they are made (\<open>notification\<close>); \<open>replay\<close> is the documented meaning of those calls, an
  upsert storing the metadata under its ID and a delete removing the ID. The library's
  \<open>EndpointMetadata.Equal\<close> is the argument \<open>Equal\<close>; its documented behaviour, that equal metadata
  may be used for one another, is the hypothesis \<open>Equal a b \<Longrightarrow> a = b\<close> where it is needed.
\<close>

datatype notification = Delete NamespacedName | Upsert EndpointMetadata

type_synonym endpoint_map = "NamespacedName \<rightharpoonup> EndpointMetadata"

definition PluginType :: string where
  "PluginType = ''cluster-table-discovery''"

record discovery =
  clusterName :: string
  applied :: "(NamespacedName, EndpointMetadata) gomap"
  ready :: bool

text \<open>\<open>parameters\<close> is the decoder of the plugin's parameters: absent, failing, or delivering the
  \<open>clusterName\<close> field (\<open>""\<close> when the field is missing).\<close>

definition NewFactory :: "string result option \<Rightarrow> discovery result" where
  "NewFactory parameters =
     (case parameters of
        None \<Rightarrow> Inr \<lparr>clusterName = '''', applied = [], ready = False\<rparr>
      | Some (Inl err) \<Rightarrow> Inl err
      | Some (Inr name) \<Rightarrow> Inr \<lparr>clusterName = name, applied = [], ready = False\<rparr>)"

definition discovery_TypedName :: "discovery \<Rightarrow> string \<times> string" where
  "discovery_TypedName d =
     (PluginType, if clusterName d = '''' then ''default'' else clusterName d)"

fun containsID :: "EndpointMetadata list \<Rightarrow> NamespacedName \<Rightarrow> bool" where
  "containsID [] i = False"
| "containsID (e # eps) i = (if ep_ID e = i then True else containsID eps i)"

text \<open>The first loop of \<open>apply\<close>: a range over the applied map that deletes from it.\<close>

fun apply_deletes :: "EndpointMetadata list \<Rightarrow> (NamespacedName, EndpointMetadata) gomap \<Rightarrow>
    notification list \<times> (NamespacedName, EndpointMetadata) gomap" where
  "apply_deletes desired [] = ([], [])"
| "apply_deletes desired ((i, m) # rest) =
     (let (evs, kept) = apply_deletes desired rest
      in if \<not> containsID desired i then (Delete i # evs, kept) else (evs, (i, m) # kept))"

fun apply_upserts :: "(EndpointMetadata \<Rightarrow> EndpointMetadata \<Rightarrow> bool) \<Rightarrow> EndpointMetadata list \<Rightarrow>
    (NamespacedName, EndpointMetadata) gomap \<Rightarrow>
    notification list \<times> (NamespacedName, EndpointMetadata) gomap" where
  "apply_upserts Equal [] app = ([], app)"
| "apply_upserts Equal (meta # ms) app =
     (case map_of app (ep_ID meta) of
        Some old \<Rightarrow>
          if Equal old meta then apply_upserts Equal ms app
          else (let (evs, app') = apply_upserts Equal ms (AList.update (ep_ID meta) meta app)
                in (Upsert meta # evs, app'))
      | None \<Rightarrow>
          (let (evs, app') = apply_upserts Equal ms (AList.update (ep_ID meta) meta app)
           in (Upsert meta # evs, app')))"

definition discovery_apply :: "(EndpointMetadata \<Rightarrow> EndpointMetadata \<Rightarrow> bool) \<Rightarrow>
    EndpointMetadata list \<Rightarrow> discovery \<Rightarrow> notification list \<times> discovery" where
  "discovery_apply Equal desired d =
     (let (dels, app1) = apply_deletes desired (applied d);
          (ups, app2) = apply_upserts Equal desired app1
      in (dels @ ups, d\<lparr>applied := app2\<rparr>))"

text \<open>One iteration of \<open>Start\<close>, up to the wait for the next version; and the loop over the hub
  states it sees in successive iterations.\<close>

definition discovery_round :: "(EndpointMetadata \<Rightarrow> EndpointMetadata \<Rightarrow> bool) \<Rightarrow> Hub \<Rightarrow>
    discovery \<Rightarrow> notification list \<times> discovery" where
  "discovery_round Equal h d =
     (let (desired, v) = Hub_Snapshot (clusterName d) h;
          (evs, d') = discovery_apply Equal desired d
      in (evs, d'\<lparr>ready := True\<rparr>))"

fun discovery_Start :: "(EndpointMetadata \<Rightarrow> EndpointMetadata \<Rightarrow> bool) \<Rightarrow> Hub list \<Rightarrow>
    discovery \<Rightarrow> notification list \<times> discovery" where
  "discovery_Start Equal [] d = ([], d)"
| "discovery_Start Equal (h # hs) d =
     (let (evs, d') = discovery_round Equal h d;
          (evs', d'') = discovery_Start Equal hs d'
      in (evs @ evs', d''))"

section \<open>The abstract view: the datastore as a map\<close>

fun replay1 :: "notification \<Rightarrow> endpoint_map \<Rightarrow> endpoint_map" where
  "replay1 (Delete i) m = m(i := None)"
| "replay1 (Upsert e) m = m(ep_ID e \<mapsto> e)"

definition replay :: "notification list \<Rightarrow> endpoint_map \<Rightarrow> endpoint_map" where
  "replay evs = fold replay1 evs"

text \<open>The endpoints a desired list stands for; of two entries with one ID the later wins.\<close>

definition desired_map :: "EndpointMetadata list \<Rightarrow> endpoint_map" where
  "desired_map eps = map_of (rev (map (\<lambda>e. (ep_ID e, e)) eps))"

lemma replay_Nil [simp]: "replay [] m = m"
  and replay_Cons [simp]: "replay (e # evs) m = replay evs (replay1 e m)"
  and replay_append [simp]: "replay (evs @ evs') m = replay evs' (replay evs m)"
  by (simp_all add: replay_def)

lemma containsID_iff: "containsID eps i \<longleftrightarrow> i \<in> ep_ID ` set eps"
  by (induction eps) auto

lemma desired_map_Nil [simp]: "desired_map [] = Map.empty"
  by (simp add: desired_map_def)

lemma desired_map_Cons:
  "desired_map (e # eps) i =
     (case desired_map eps i of Some x \<Rightarrow> Some x | None \<Rightarrow> if ep_ID e = i then Some e else None)"
  by (auto simp: desired_map_def map_add_def split: option.split)

lemma desired_map_None: "desired_map eps i = None \<longleftrightarrow> i \<notin> ep_ID ` set eps"
  by (simp add: desired_map_def map_of_eq_None_iff image_image)

lemma desired_map_distinct:
  "distinct (map ep_ID eps) \<Longrightarrow> e \<in> set eps \<Longrightarrow> desired_map eps (ep_ID e) = Some e"
  unfolding desired_map_def
  by (intro map_of_is_SomeI) (auto simp: rev_map [symmetric] comp_def)

section \<open>The two loops\<close>

lemma apply_deletes_kept:
  "snd (apply_deletes ds app) = filter (\<lambda>(i, _). i \<in> ep_ID ` set ds) app"
  by (induction ds app rule: apply_deletes.induct)
     (auto simp: containsID_iff split: prod.split)

lemma apply_deletes_events:
  "fst (apply_deletes ds app) = map Delete (filter (\<lambda>i. i \<notin> ep_ID ` set ds) (keys app))"
  by (induction ds app rule: apply_deletes.induct)
     (auto simp: containsID_iff split: prod.split)

lemma apply_deletes_map:
  "gomap_wf app \<Longrightarrow> map_of (snd (apply_deletes ds app)) i =
     (if i \<in> ep_ID ` set ds then map_of app i else None)"
  by (simp only: apply_deletes_kept map_of_filter_keys)

lemma replay_deletes: "replay (map Delete is) m i = (if i \<in> set is then None else m i)"
  by (induction "is" arbitrary: m) auto

lemma apply_upserts_wf: "gomap_wf app \<Longrightarrow> gomap_wf (snd (apply_upserts Equal ms app))"
  by (induction Equal ms app rule: apply_upserts.induct)
     (auto simp: distinct_update split: option.split prod.split)

lemma apply_upserts_events: "e \<in> set (fst (apply_upserts Equal ms app)) \<Longrightarrow> \<exists>m \<in> set ms. e = Upsert m"
  by (induction Equal ms app rule: apply_upserts.induct)
     (auto split: option.splits prod.splits if_splits)

text \<open>
  What the second loop leaves behind, in the applied map and, through its notifications, in a
  datastore that agrees with that map on the endpoints of the list.
\<close>

lemma apply_upserts_map:
  assumes "\<And>a b. Equal a b \<Longrightarrow> a = b"
  shows "map_of (snd (apply_upserts Equal ms app)) i =
    (case desired_map ms i of Some m \<Rightarrow> Some m | None \<Rightarrow> map_of app i)"
  using assms
proof (induction Equal ms app rule: apply_upserts.induct)
  case (1 Equal app)
  then show ?case by simp
next
  case (2 Equal meta ms app)
  show ?case
    using 2 by (auto simp: desired_map_Cons update_conv' split: option.split prod.split)
qed

lemma apply_upserts_replay:
  assumes "\<And>a b. Equal a b \<Longrightarrow> a = b"
    and "\<And>i m. map_of app i = Some m \<Longrightarrow> st i = Some m"
  shows "replay (fst (apply_upserts Equal ms app)) st i =
    (case desired_map ms i of Some m \<Rightarrow> Some m | None \<Rightarrow> st i)"
  using assms
proof (induction Equal ms app arbitrary: st rule: apply_upserts.induct)
  case (1 Equal app)
  then show ?case by simp
next
  case (2 Equal meta ms app)
  have step: "map_of (AList.update (ep_ID meta) meta app) j = Some m \<Longrightarrow>
      (st(ep_ID meta \<mapsto> meta)) j = Some m" for j m
    using "2.prems"(2) by (auto simp: update_conv' split: if_splits)
  let ?up = "apply_upserts Equal ms (AList.update (ep_ID meta) meta app)"
  let ?goal = "replay (fst ?up) (st(ep_ID meta \<mapsto> meta)) i =
      (case desired_map ms i of Some m \<Rightarrow> Some m | None \<Rightarrow> (st(ep_ID meta \<mapsto> meta)) i)"
  show ?case
  proof (cases "map_of app (ep_ID meta)")
    case None
    then have ?goal using "2.IH"(1) "2.prems"(1) step by metis
    with None show ?thesis by (auto simp: desired_map_Cons split: option.splits prod.splits)
  next
    case (Some old)
    show ?thesis
    proof (cases "Equal old meta")
      case True
      then have "st (ep_ID meta) = Some meta" using "2.prems" Some by blast
      with "2.IH"(2) [OF Some True "2.prems"] Some True show ?thesis
        by (auto simp: desired_map_Cons split: option.split)
    next
      case False
      then have ?goal using "2.IH"(3) Some "2.prems"(1) step by metis
      with Some False show ?thesis
        by (auto simp: desired_map_Cons split: option.splits prod.splits)
    qed
  qed
qed

section \<open>The diff\<close>

lemma discovery_apply_unfold:
  "discovery_apply Equal ds d =
     (map Delete (filter (\<lambda>i. i \<notin> ep_ID ` set ds) (keys (applied d))) @
        fst (apply_upserts Equal ds (snd (apply_deletes ds (applied d)))),
      d\<lparr>applied := snd (apply_upserts Equal ds (snd (apply_deletes ds (applied d))))\<rparr>)"
  by (simp add: discovery_apply_def apply_deletes_events [symmetric] case_prod_unfold Let_def)

lemma discovery_apply_frame [simp]:
  "clusterName (snd (discovery_apply Equal ds d)) = clusterName d"
  "ready (snd (discovery_apply Equal ds d)) = ready d"
  by (simp_all add: discovery_apply_unfold)

lemma discovery_apply_wf [keeps]:
  "gomap_wf (applied d) \<Longrightarrow> gomap_wf (applied (snd (discovery_apply Equal ds d)))"
  using apply_upserts_wf [of "snd (apply_deletes ds (applied d))" Equal ds]
  by (simp add: discovery_apply_unfold apply_deletes_kept keys_filter_wf)

lemma discovery_apply_applied:
  assumes "\<And>a b. Equal a b \<Longrightarrow> a = b" "gomap_wf (applied d)"
  shows "map_of (applied (snd (discovery_apply Equal ds d))) = desired_map ds"
proof
  fix i
  have "map_of (applied (snd (discovery_apply Equal ds d))) i =
      (case desired_map ds i of Some m \<Rightarrow> Some m
       | None \<Rightarrow> map_of (snd (apply_deletes ds (applied d))) i)"
    using apply_upserts_map [of Equal, OF assms(1)] by (simp add: discovery_apply_unfold)
  then show "map_of (applied (snd (discovery_apply Equal ds d))) i = desired_map ds i"
    using desired_map_None [of ds i] by (auto simp: apply_deletes_map assms(2) split: option.splits)
qed

text \<open>The datastore agrees with a generation's applied map on the endpoints that map holds.\<close>

definition coherent :: "discovery \<Rightarrow> endpoint_map \<Rightarrow> bool" where
  "coherent d st \<longleftrightarrow> map_of (applied d) \<subseteq>\<^sub>m st"

lemma coherent_lookup: "coherent d st \<Longrightarrow> map_of (applied d) i = Some m \<Longrightarrow> st i = Some m"
  by (auto simp: coherent_def map_le_def dom_def)

lemma discovery_apply_store:
  assumes eq: "\<And>a b. Equal a b \<Longrightarrow> a = b" and wf: "gomap_wf (applied d)" and coh: "coherent d st"
  shows "replay (fst (discovery_apply Equal ds d)) st i =
    (if i \<in> ep_ID ` set ds \<or> i \<in> set (keys (applied d)) then desired_map ds i else st i)"
proof -
  define gone where "gone = filter (\<lambda>i. i \<notin> ep_ID ` set ds) (keys (applied d))"
  define app1 where "app1 = snd (apply_deletes ds (applied d))"
  have app1: "map_of app1 j = (if j \<in> ep_ID ` set ds then map_of (applied d) j else None)" for j
    by (simp only: app1_def apply_deletes_map wf)
  have "map_of app1 j = Some m \<Longrightarrow> replay (map Delete gone) st j = Some m" for j m
    using coherent_lookup [OF coh] by (auto simp: app1 replay_deletes gone_def split: if_splits)
  from apply_upserts_replay [OF eq this]
  have "replay (fst (discovery_apply Equal ds d)) st i =
      (case desired_map ds i of Some m \<Rightarrow> Some m | None \<Rightarrow> replay (map Delete gone) st i)"
    by (simp add: discovery_apply_unfold gone_def app1_def)
  then show ?thesis
    using desired_map_None [of ds i] by (auto simp: replay_deletes gone_def split: option.splits)
qed

lemma discovery_apply_coherent [keeps]:
  assumes "\<And>a b. Equal a b \<Longrightarrow> a = b" "gomap_wf (applied d)" "coherent d st"
  shows "coherent (snd (discovery_apply Equal ds d)) (replay (fst (discovery_apply Equal ds d)) st)"
  using discovery_apply_store [OF assms] desired_map_None [of ds]
  by (auto simp: coherent_def map_le_def discovery_apply_applied [OF assms(1,2)] dom_def)

section \<open>Rounds and runs\<close>

lemma discovery_round_unfold:
  "discovery_round Equal h d =
     (fst (discovery_apply Equal (fst (Hub_Snapshot (clusterName d) h)) d),
      (snd (discovery_apply Equal (fst (Hub_Snapshot (clusterName d) h)) d))\<lparr>ready := True\<rparr>)"
  by (simp add: discovery_round_def case_prod_unfold Let_def)

lemma discovery_Start_Cons:
  "discovery_Start Equal (h # hs) d =
     (fst (discovery_round Equal h d) @ fst (discovery_Start Equal hs (snd (discovery_round Equal h d))),
      snd (discovery_Start Equal hs (snd (discovery_round Equal h d))))"
  by (simp add: case_prod_unfold Let_def)

lemma discovery_round_frame [simp]:
  "clusterName (snd (discovery_round Equal h d)) = clusterName d"
  "ready (snd (discovery_round Equal h d))"
  "applied (snd (discovery_round Equal h d)) =
     applied (snd (discovery_apply Equal (fst (Hub_Snapshot (clusterName d) h)) d))"
  "fst (discovery_round Equal h d) =
     fst (discovery_apply Equal (fst (Hub_Snapshot (clusterName d) h)) d)"
  by (simp_all add: discovery_round_unfold)

lemma discovery_round_coherent:
  assumes "\<And>a b. Equal a b \<Longrightarrow> a = b" "gomap_wf (applied d)" "coherent d st"
  shows "coherent (snd (discovery_round Equal h d)) (replay (fst (discovery_round Equal h d)) st)"
  using discovery_apply_coherent [OF assms] by (simp add: coherent_def)

declare discovery_Start.simps(2) [simp del]

lemma discovery_Start_ready: "hs \<noteq> [] \<Longrightarrow> ready (snd (discovery_Start Equal hs d))"
proof (induction hs arbitrary: d)
  case Nil
  then show ?case by simp
next
  case (Cons h hs)
  then show ?case by (cases "hs = []") (simp_all add: discovery_Start_Cons)
qed

text \<open>
  The general fact behind the properties: starting from any generation and any datastore that
  agrees with it, a run over the hub states \<open>hs\<close> leaves, for every endpoint the generation ever
  touched, what the last snapshot asks for, and nothing else changed.
\<close>

lemma discovery_Start_store:
  assumes "\<And>a b. Equal a b \<Longrightarrow> a = b" "gomap_wf (applied d)" "coherent d st" "hs \<noteq> []"
  shows "replay (fst (discovery_Start Equal hs d)) st i =
    (if i \<in> set (keys (applied d)) \<or>
        (\<exists>h \<in> set hs. i \<in> ep_ID ` set (fst (Hub_Snapshot (clusterName d) h)))
     then desired_map (fst (Hub_Snapshot (clusterName d) (last hs))) i else st i)"
  using assms(2-)
proof (induction hs arbitrary: d st)
  case Nil
  then show ?case by simp
next
  case (Cons h hs)
  let ?ds = "fst (Hub_Snapshot (clusterName d) h)"
  let ?d' = "snd (discovery_round Equal h d)"
  let ?st' = "replay (fst (discovery_round Equal h d)) st"
  have st': "?st' i = (if i \<in> ep_ID ` set ?ds \<or> i \<in> set (keys (applied d))
      then desired_map ?ds i else st i)"
    using discovery_apply_store [OF assms(1) Cons.prems(1,2)] by simp
  have dom': "i \<in> set (keys (applied ?d')) \<longleftrightarrow> i \<in> ep_ID ` set ?ds"
    using discovery_apply_applied [OF assms(1) Cons.prems(1), where ds = ?ds] desired_map_None [of ?ds i]
      map_of_None_keys [of "applied ?d'" i] by simp
  show ?case
  proof (cases "hs = []")
    case True
    then show ?thesis using st' by (auto simp: discovery_Start_Cons)
  next
    case False
    have wf: "gomap_wf (applied ?d')"
      using discovery_apply_wf [OF Cons.prems(1)] by simp
    have "replay (fst (discovery_Start Equal hs ?d')) ?st' i =
      (if i \<in> set (keys (applied ?d')) \<or>
          (\<exists>h \<in> set hs. i \<in> ep_ID ` set (fst (Hub_Snapshot (clusterName d) h)))
       then desired_map (fst (Hub_Snapshot (clusterName d) (last hs))) i else ?st' i)"
      using Cons.IH [OF wf discovery_round_coherent [OF assms(1) Cons.prems(1,2)] False] by simp
    then show ?thesis
      using False st' dom' desired_map_None [of ?ds i]
        desired_map_None [of "fst (Hub_Snapshot (clusterName d) (last hs))" i] last_in_set [OF False]
      by (auto simp: discovery_Start_Cons)
  qed
qed

lemma NewFactory_fresh:
  assumes "NewFactory p = Inr d"
  shows "applied d = []" and "\<not> ready d" and "coherent d st"
  using assms by (auto simp: NewFactory_def coherent_def split: option.splits sum.splits)

lemma NewFactory_name: "NewFactory (Some (Inr c)) = Inr d \<Longrightarrow> clusterName d = c"
  by (auto simp: NewFactory_def)

section \<open>Properties\<close>

lemma Start_tracks_hub:
  assumes "\<And>a b. Equal a b \<Longrightarrow> a = b"
    and "NewFactory (Some (Inr cluster)) = Inr d"
    and "hs \<noteq> []"
  shows "replay (fst (discovery_Start Equal hs d)) Map.empty =
      desired_map (fst (Hub_Snapshot cluster (last hs))) \<and> ready (snd (discovery_Start Equal hs d))"
proof
  note fresh = NewFactory_fresh [OF assms(2)] NewFactory_name [OF assms(2)]
  show "replay (fst (discovery_Start Equal hs d)) Map.empty = desired_map (fst (Hub_Snapshot cluster (last hs)))"
  proof
    fix i
    have "gomap_wf (applied d)" by (simp add: fresh(1))
    from discovery_Start_store [OF assms(1) this fresh(3) assms(3), where i = i]
    show "replay (fst (discovery_Start Equal hs d)) Map.empty i =
        desired_map (fst (Hub_Snapshot cluster (last hs))) i"
      using fresh(1,4) desired_map_None [of "fst (Hub_Snapshot cluster (last hs))" i]
        last_in_set [OF assms(3)] by auto
  qed
qed (rule discovery_Start_ready [OF assms(3)])

text \<open>
  C17. Refinement of endpoint discovery: a fresh plugin generation that has gone through any number
  of rounds on an empty datastore has made it hold exactly the endpoints of the last hub snapshot
  it took for its cluster (of two entries with one ID, the later), and is ready.
\<close>

theorem discovery_tracks_hub:
  assumes "\<And>a b. Equal a b \<Longrightarrow> a = b"
    and "NewFactory (Some (Inr cluster)) = Inr d"
    and "hs \<noteq> []"
  shows "replay (fst (discovery_Start Equal hs d)) Map.empty =
      desired_map (fst (Hub_Snapshot cluster (last hs))) \<and> ready (snd (discovery_Start Equal hs d))"
  using assms by (rule Start_tracks_hub)

definition ep_a :: EndpointMetadata where
  "ep_a = \<lparr>ep_ID = NamespacedName ''c1'' ''a'', ep_Name = ''a'', ep_Address = ''10.0.0.1'',
           ep_Port = ''80'', ep_MetricsHost = ''10.0.0.1:80''\<rparr>"

definition ep_b :: EndpointMetadata where
  "ep_b = \<lparr>ep_ID = NamespacedName ''c1'' ''b'', ep_Name = ''b'', ep_Address = ''10.0.0.2'',
           ep_Port = ''80'', ep_MetricsHost = ''10.0.0.2:80''\<rparr>"

definition gen_c1 :: discovery where
  "gen_c1 = \<lparr>clusterName = ''c1'', applied = [], ready = False\<rparr>"

lemma ep_IDs [simp]: "ep_ID ep_a = NamespacedName ''c1'' ''a''" "ep_ID ep_b = NamespacedName ''c1'' ''b''"
  by (simp_all add: ep_a_def ep_b_def)

lemma gen_c1_made: "NewFactory (Some (Inr ''c1'')) = Inr gen_c1"
  by (simp add: NewFactory_def gen_c1_def)

theorem discovery_tracks_hub_witness:
  "replay (fst (discovery_Start (=)
       [Hub_ReplaceAll [(''c1'', [ep_a])] NewHub, Hub_ReplaceAll [(''c1'', [ep_b])] NewHub] gen_c1))
     Map.empty (NamespacedName ''c1'' ''b'') = Some ep_b \<and>
   replay (fst (discovery_Start (=)
       [Hub_ReplaceAll [(''c1'', [ep_a])] NewHub, Hub_ReplaceAll [(''c1'', [ep_b])] NewHub] gen_c1))
     Map.empty (NamespacedName ''c1'' ''a'') = None"
  using discovery_tracks_hub [of "(=)" "''c1''" gen_c1
      "[Hub_ReplaceAll [(''c1'', [ep_a])] NewHub, Hub_ReplaceAll [(''c1'', [ep_b])] NewHub]"]
  by (simp add: gen_c1_made Hub_Snapshot_def desired_map_def)

lemma apply_upserts_exact:
  "distinct (map ep_ID ms) \<Longrightarrow>
   fst (apply_upserts Equal ms app) =
     map Upsert (filter (\<lambda>m. \<not> (\<exists>old. map_of app (ep_ID m) = Some old \<and> Equal old m)) ms)"
proof (induction ms arbitrary: app)
  case Nil
  then show ?case by simp
next
  case (Cons m ms)
  have other: "map_of (AList.update (ep_ID m) m app) (ep_ID x) = map_of app (ep_ID x)" if "x \<in> set ms" for x
    using Cons.prems that by (simp add: update_conv') (metis image_eqI)
  have "filter (\<lambda>x. \<not> (\<exists>old. map_of (AList.update (ep_ID m) m app) (ep_ID x) = Some old \<and> Equal old x)) ms =
      filter (\<lambda>x. \<not> (\<exists>old. map_of app (ep_ID x) = Some old \<and> Equal old x)) ms"
    by (intro filter_cong) (simp_all add: other)
  with Cons show ?case by (auto simp: case_prod_unfold Let_def split: option.split)
qed

text \<open>
  The diff is ordered and minimal. Every delete comes before every upsert; the deletes name
  exactly the applied endpoints that are no longer desired, each once; and, when the desired IDs
  are distinct, the upserts carry exactly the desired endpoints that are not already applied with
  equal metadata.
\<close>

lemma apply_ordered_minimal:
  assumes "distinct (map ep_ID desired)" and "gomap_wf (applied d)"
  shows "\<exists>dels ups. fst (discovery_apply Equal desired d) = map Delete dels @ map Upsert ups \<and>
    distinct dels \<and> set dels = set (keys (applied d)) - ep_ID ` set desired \<and>
    ups = filter (\<lambda>m. \<not> (\<exists>old. map_of (applied d) (ep_ID m) = Some old \<and> Equal old m)) desired"
proof -
  let ?app1 = "snd (apply_deletes desired (applied d))"
  have "map_of ?app1 (ep_ID m) = map_of (applied d) (ep_ID m)" if "m \<in> set desired" for m
    using that by (simp add: apply_deletes_map assms(2))
  then have "filter (\<lambda>m. \<not> (\<exists>old. map_of ?app1 (ep_ID m) = Some old \<and> Equal old m)) desired =
      filter (\<lambda>m. \<not> (\<exists>old. map_of (applied d) (ep_ID m) = Some old \<and> Equal old m)) desired"
    by (intro filter_cong) simp_all
  then have "fst (discovery_apply Equal desired d) =
      map Delete (filter (\<lambda>i. i \<notin> ep_ID ` set desired) (keys (applied d))) @
      map Upsert (filter (\<lambda>m. \<not> (\<exists>old. map_of (applied d) (ep_ID m) = Some old \<and> Equal old m)) desired)"
    by (simp add: discovery_apply_unfold apply_upserts_exact [OF assms(1)])
  moreover have "distinct (filter (\<lambda>i. i \<notin> ep_ID ` set desired) (keys (applied d)))"
    using assms(2) by (rule distinct_filter)
  moreover have "set (filter (\<lambda>i. i \<notin> ep_ID ` set desired) (keys (applied d))) =
      set (keys (applied d)) - ep_ID ` set desired" by auto
  ultimately show ?thesis by blast
qed

lemma apply_ordered_minimal_example:
  "\<exists>dels ups. fst (discovery_apply (=) [ep_b]
       (gen_c1\<lparr>applied := [(NamespacedName ''c1'' ''a'', ep_a)]\<rparr>)) = map Delete dels @ map Upsert ups \<and>
     set dels = {NamespacedName ''c1'' ''a''} \<and> ups = [ep_b]"
  using apply_ordered_minimal [of "[ep_b]" "gen_c1\<lparr>applied := [(NamespacedName ''c1'' ''a'', ep_a)]\<rparr>" "(=)"]
  by auto

lemma apply_stable:
  assumes "\<And>a b. Equal a b \<longleftrightarrow> a = b" "distinct (map ep_ID desired)"
    and app: "map_of (applied d) = desired_map desired"
  shows "discovery_apply Equal desired d = ([], d)"
proof -
  have eq: "Equal = (=)" using assms(1) by blast
  have kept: "set (keys (applied d)) \<subseteq> ep_ID ` set desired"
    using desired_map_None [of desired] map_of_None_keys [of "applied d"] app by (metis subsetI)
  have "snd (apply_deletes desired (applied d)) = applied d"
    unfolding apply_deletes_kept using kept by (intro filter_True) force
  moreover have "filter (\<lambda>i. i \<notin> ep_ID ` set desired) (keys (applied d)) = []"
    using kept by (auto simp: filter_empty_conv)
  moreover have "apply_upserts (=) ms (applied d) = ([], applied d)" if "set ms \<subseteq> set desired" for ms
    using that by (induction ms) (auto simp: app desired_map_distinct [OF assms(2)])
  ultimately show ?thesis by (simp add: discovery_apply_unfold eq)
qed

text \<open>
  The diff is idempotent: applying a desired set again, with distinct IDs and metadata that
  compare equal to themselves, makes no notifier call and changes nothing.
\<close>

lemma apply_idempotent:
  assumes "\<And>a b. Equal a b \<longleftrightarrow> a = b"
    and "distinct (map ep_ID desired)" and "gomap_wf (applied d)"
  shows "discovery_apply Equal desired (snd (discovery_apply Equal desired d)) =
    ([], snd (discovery_apply Equal desired d))"
proof -
  have "map_of (applied (snd (discovery_apply Equal desired d))) = desired_map desired"
    using discovery_apply_applied [of Equal d desired] assms(1,3) by simp
  then show ?thesis using assms(1,2) by (intro apply_stable) simp_all
qed

lemma apply_idempotent_example:
  "discovery_apply (=) [ep_a, ep_b] (snd (discovery_apply (=) [ep_a, ep_b] gen_c1)) =
     ([], snd (discovery_apply (=) [ep_a, ep_b] gen_c1))"
  by (rule apply_idempotent) (simp_all add: gen_c1_def)

text \<open>
  A cluster that disappears from the table is cleared: once the hub has been replaced by a
  table without the cluster, the next round of its plugin deletes every endpoint it had applied and
  does nothing else, so that none of them is left in the datastore.
\<close>

lemma vanished_cluster_cleared:
  assumes "clusterName d \<notin> set (keys table)"
  shows "fst (discovery_round Equal (Hub_ReplaceAll table h) d) = map Delete (keys (applied d)) \<and>
    (\<forall>i \<in> set (keys (applied d)).
       replay (fst (discovery_round Equal (Hub_ReplaceAll table h) d)) st i = None)"
proof -
  have none: "fst (Hub_Snapshot (clusterName d) (Hub_ReplaceAll table h)) = []"
    using assms by (rule hub.absent_is_cleared)
  then have evs: "fst (discovery_round Equal (Hub_ReplaceAll table h) d) = map Delete (keys (applied d))"
    by (simp add: discovery_apply_unfold)
  show ?thesis unfolding evs using replay_deletes [of "keys (applied d)" st] by simp
qed

lemma vanished_cluster_cleared_example:
  "replay (fst (discovery_round (=) (Hub_ReplaceAll [(''c2'', [ep_b])] NewHub)
       (gen_c1\<lparr>applied := [(ep_ID ep_a, ep_a)]\<rparr>))) [ep_ID ep_a \<mapsto> ep_a] (ep_ID ep_a) = None"
  using vanished_cluster_cleared [of "gen_c1\<lparr>applied := [(ep_ID ep_a, ep_a)]\<rparr>"
      "[(''c2'', [ep_b])]" "(=)" NewHub "[ep_ID ep_a \<mapsto> ep_a]"]
  by (simp add: gen_c1_def)

text \<open>
  C39. A new generation never removes what it did not add. A fresh plugin starts with an empty
  applied map, so an endpoint left in the cell's datastore by an earlier generation and missing
  from every snapshot the new one takes is never deleted: it stays in the datastore however many
  rounds go by. (The earlier generation stops when its engine is drained, so endpoints removed
  from the table after that are kept by the cell until it is dropped.)
\<close>

theorem new_generation_keeps_stale:
  assumes "\<And>a b. Equal a b \<Longrightarrow> a = b"
    and "NewFactory (Some (Inr cluster)) = Inr d"
    and "\<forall>h \<in> set hs. \<not> containsID (fst (Hub_Snapshot cluster h)) i"
  shows "replay (fst (discovery_Start Equal hs d)) st i = st i"
proof (cases "hs = []")
  case False
  note fresh = NewFactory_fresh [OF assms(2)] NewFactory_name [OF assms(2)]
  have "gomap_wf (applied d)" by (simp add: fresh(1))
  from discovery_Start_store [OF assms(1) this fresh(3) False, where i = i]
  show ?thesis using fresh assms(3) by (auto simp: containsID_iff)
qed simp

theorem new_generation_keeps_stale_witness:
  "replay (fst (discovery_Start (=) [Hub_ReplaceAll [(''c1'', [ep_b])] NewHub] gen_c1))
     [ep_ID ep_a \<mapsto> ep_a] (ep_ID ep_a) = Some ep_a"
  using new_generation_keeps_stale [of "(=)" "''c1''" gen_c1 "[Hub_ReplaceAll [(''c1'', [ep_b])] NewHub]"
      "ep_ID ep_a" "[ep_ID ep_a \<mapsto> ep_a]"]
  by (simp add: gen_c1_made Hub_Snapshot_def)

end
