(* ===== verification/Fair_Progress.thy ===== *)
theory Fair_Progress
  imports EPP_Prelude
begin

text \<open>
  Progress of one goroutine among others. A run is a sequence of states indexed by time; it may
  stutter. The locale \<open>fair_progress\<close> is the contract of a goroutine with a goal: as long as the
  assumptions hold and the goal is not reached it can move, each of its moves brings it nearer, and
  nobody else takes it back. Under weak fairness to the goroutine the goal is then reached.
\<close>

definition is_run :: "('s \<Rightarrow> 's \<Rightarrow> bool) \<Rightarrow> (nat \<Rightarrow> 's) \<Rightarrow> bool" where
  "is_run step run \<longleftrightarrow> (\<forall>i. step (run i) (run (Suc i)) \<or> run (Suc i) = run i)"

text \<open>Weak fairness: when the goroutine could move all the time, it moves.\<close>

definition weakly_fair :: "('s \<Rightarrow> 's \<Rightarrow> bool) \<Rightarrow> ('s \<Rightarrow> 's \<Rightarrow> bool) \<Rightarrow> (nat \<Rightarrow> 's) \<Rightarrow> bool" where
  "weakly_fair step moves run \<longleftrightarrow>
     (\<forall>i. (\<forall>j \<ge> i. \<exists>t. step (run j) t \<and> moves (run j) t) \<longrightarrow> (\<exists>j \<ge> i. moves (run j) (run (Suc j))))"

lemma run_invariant:
  assumes "is_run step run" "P (run i)" "\<And>s t. step s t \<Longrightarrow> P s \<Longrightarrow> P t" "i \<le> j"
  shows "P (run j)"
  using assms(4)
proof (induction rule: dec_induct)
  case (step j)
  with assms(1,3) show ?case unfolding is_run_def by metis
qed (rule assms(2))

locale fair_progress =
  fixes step moves :: "'s \<Rightarrow> 's \<Rightarrow> bool" and holds goal :: "'s \<Rightarrow> bool" and rank :: "'s \<Rightarrow> nat \<times> nat"
  assumes enabled: "holds s \<Longrightarrow> \<not> goal s \<Longrightarrow> \<exists>t. step s t \<and> moves s t"
    and nearer: "holds s \<Longrightarrow> \<not> goal s \<Longrightarrow> step s t \<Longrightarrow> moves s t \<Longrightarrow> holds t \<Longrightarrow>
      goal t \<or> (rank t, rank s) \<in> less_than <*lex*> less_than"
    and kept: "holds s \<Longrightarrow> step s t \<Longrightarrow> \<not> moves s t \<Longrightarrow> holds t \<Longrightarrow>
      rank t = rank s \<or> (rank t, rank s) \<in> less_than <*lex*> less_than"
    and moves_irrefl: "\<not> moves s s"
begin

text \<open>While the goroutine does not move, its distance to the goal does not grow.\<close>

lemma rank_trans:
  "(x, y) \<in> less_than <*lex*> less_than \<Longrightarrow> (y, z) \<in> less_than <*lex*> less_than \<Longrightarrow> (x, z :: nat \<times> nat) \<in> less_than <*lex*> less_than"
  by (rule transD [OF trans_lex_prod [OF trans_less_than trans_less_than]])

lemma rank_waits:
  assumes "is_run step run" "\<And>l. i \<le> l \<Longrightarrow> holds (run l)" "i \<le> j"
    and "\<And>l. i \<le> l \<Longrightarrow> l < j \<Longrightarrow> \<not> moves (run l) (run (Suc l))"
  shows "rank (run j) = rank (run i) \<or> (rank (run j), rank (run i)) \<in> less_than <*lex*> less_than"
  using assms(3,4)
proof (induction rule: dec_induct)
  case (step j)
  have "step (run j) (run (Suc j)) \<or> run (Suc j) = run j" using assms(1) by (simp add: is_run_def)
  moreover have "holds (run j)" "holds (run (Suc j))" using assms(2) step.hyps(1) by simp_all
  ultimately have "rank (run (Suc j)) = rank (run j) \<or> (rank (run (Suc j)), rank (run j)) \<in> less_than <*lex*> less_than"
    using kept step.prems step.hyps by (metis lessI)
  moreover have "rank (run j) = rank (run i) \<or> (rank (run j), rank (run i)) \<in> less_than <*lex*> less_than"
    using step.IH step.prems by simp
  ultimately show ?case by (metis rank_trans)
qed simp

lemma reaches_goal:
  assumes run: "is_run step run" and fair: "weakly_fair step moves run" and holds: "\<And>i. n \<le> i \<Longrightarrow> holds (run i)"
  shows "\<exists>j \<ge> n. goal (run j)"
proof (rule ccontr)
  assume none: "\<not> ?thesis"
  have False if "n \<le> i" for i
    using that
  proof (induction "rank (run i)" arbitrary: i rule: wf_induct_rule [OF wf_lex_prod [OF wf_less_than wf_less_than]])
    case (1 i)
    have "\<exists>t. step (run j) t \<and> moves (run j) t" if "i \<le> j" for j
      using enabled holds none that \<open>n \<le> i\<close> by (meson order_trans)
    then have "\<exists>j \<ge> i. moves (run j) (run (Suc j))" using fair unfolding weakly_fair_def by blast
    then obtain j where j: "i \<le> j" "moves (run j) (run (Suc j))" "\<And>l. i \<le> l \<Longrightarrow> l < j \<Longrightarrow> \<not> moves (run l) (run (Suc l))"
      using exists_least_iff [of "\<lambda>j. i \<le> j \<and> moves (run j) (run (Suc j))"] by blast
    have "step (run j) (run (Suc j))" using run j(2) moves_irrefl unfolding is_run_def by metis
    then have "(rank (run (Suc j)), rank (run j)) \<in> less_than <*lex*> less_than"
      using nearer [of "run j" "run (Suc j)"] holds none j(1,2) \<open>n \<le> i\<close> by (meson le_Suc_eq order_trans)
    moreover have "rank (run j) = rank (run i) \<or> (rank (run j), rank (run i)) \<in> less_than <*lex*> less_than"
      using rank_waits [OF run _ j(1,3)] holds \<open>n \<le> i\<close> by (meson order_trans)
    ultimately have "(rank (run (Suc j)), rank (run i)) \<in> less_than <*lex*> less_than" by (metis rank_trans)
    then show False using "1.hyps" [of "Suc j"] j(1) \<open>n \<le> i\<close> by simp
  qed
  then show False by blast
qed

end

end
