(* ===== verification/Plugin_Loop.thy ===== *)
theory Plugin_Loop
  imports Cluster_Plugin Fair_Progress
begin

text \<open>
  The loop of the discovery plugin (\<open>Start\<close> and \<open>apply\<close> of \<open>discovery.go\<close>) step by step: the snapshot,
  every call of the notifier, closing the ready channel, and the steps of \<open>WaitChange\<close>. Between any two
  of them the poller may replace the table, and other generations of the same cell may run: the
  lock of a generation is its own, the hub and the datastore are shared. \<open>Cluster_Plugin\<close> treats a
  round as one step; here such a round is one of the runs (\<open>round_run\<close>).

  The context of the generation is a flag that only \<open>WaitChange\<close> looks at, and only in its select.
\<close>

datatype start_pc = AtSnapshot
  | Deleting "EndpointMetadata list" "64 word" "NamespacedName list"
  | Upserting "64 word" "EndpointMetadata list"
  | Waiting "64 word" wait_pc
  | Stopped

record generation =
  g_disc :: discovery
  g_pc :: start_pc
  g_ctxDone :: bool

definition start_generation :: "discovery \<Rightarrow> generation" where
  "start_generation d = \<lparr>g_disc = d, g_pc = AtSnapshot, g_ctxDone = False\<rparr>"

text \<open>The range over the applied map visits its entries in any order.\<close>

inductive gen_step :: "(EndpointMetadata \<Rightarrow> EndpointMetadata \<Rightarrow> bool) \<Rightarrow> Hub \<Rightarrow>
    generation \<times> notification list \<Rightarrow> generation \<times> notification list \<Rightarrow> bool" for Equal h where
  snapshot: "g_pc g = AtSnapshot \<Longrightarrow> Hub_Snapshot (clusterName (g_disc g)) h = (desired, v) \<Longrightarrow>
    gen_step Equal h (g, ds) (g\<lparr>g_pc := Deleting desired v (keys (applied (g_disc g)))\<rparr>, ds)"
| delete: "g_pc g = Deleting desired v todo \<Longrightarrow> i \<in> set todo \<Longrightarrow> \<not> containsID desired i \<Longrightarrow>
    gen_step Equal h (g, ds)
      (g\<lparr>g_disc := (g_disc g)\<lparr>applied := AList.delete i (applied (g_disc g))\<rparr>, g_pc := Deleting desired v (remove1 i todo)\<rparr>,
       ds @ [Delete i])"
| keep: "g_pc g = Deleting desired v todo \<Longrightarrow> i \<in> set todo \<Longrightarrow> containsID desired i \<Longrightarrow>
    gen_step Equal h (g, ds) (g\<lparr>g_pc := Deleting desired v (remove1 i todo)\<rparr>, ds)"
| deleted: "g_pc g = Deleting desired v [] \<Longrightarrow> gen_step Equal h (g, ds) (g\<lparr>g_pc := Upserting v desired\<rparr>, ds)"
| same: "g_pc g = Upserting v (meta # ms) \<Longrightarrow> map_of (applied (g_disc g)) (ep_ID meta) = Some old \<Longrightarrow> Equal old meta \<Longrightarrow>
    gen_step Equal h (g, ds) (g\<lparr>g_pc := Upserting v ms\<rparr>, ds)"
| upsert: "g_pc g = Upserting v (meta # ms) \<Longrightarrow>
    (\<forall>old. map_of (applied (g_disc g)) (ep_ID meta) = Some old \<longrightarrow> \<not> Equal old meta) \<Longrightarrow>
    gen_step Equal h (g, ds)
      (g\<lparr>g_disc := (g_disc g)\<lparr>applied := AList.update (ep_ID meta) meta (applied (g_disc g))\<rparr>, g_pc := Upserting v ms\<rparr>,
       ds @ [Upsert meta])"
| upserted: "g_pc g = Upserting v [] \<Longrightarrow>
    gen_step Equal h (g, ds) (g\<lparr>g_disc := (g_disc g)\<lparr>ready := True\<rparr>, g_pc := Waiting v WTop\<rparr>, ds)"
| wait: "g_pc g = Waiting v w \<Longrightarrow> Hub_WaitChange v (h, w) (h, w') \<Longrightarrow> (w' = WCtxErr \<longrightarrow> g_ctxDone g) \<Longrightarrow>
    gen_step Equal h (g, ds) (g\<lparr>g_pc := Waiting v w'\<rparr>, ds)"
| changed: "g_pc g = Waiting v (WReturned v') \<Longrightarrow> gen_step Equal h (g, ds) (g\<lparr>g_pc := AtSnapshot\<rparr>, ds)"
| stopped: "g_pc g = Waiting v WCtxErr \<Longrightarrow> gen_step Equal h (g, ds) (g\<lparr>g_pc := Stopped\<rparr>, ds)"

text \<open>The generations of one cell, the hub they read and the datastore they write. A hot swap starts a
  generation; the drain of a replaced one ends its context.\<close>

record plugins =
  pl_hub :: Hub
  pl_gens :: "generation list"
  pl_ds :: "notification list"

inductive plugins_step :: "(EndpointMetadata \<Rightarrow> EndpointMetadata \<Rightarrow> bool) \<Rightarrow> plugins \<Rightarrow> plugins \<Rightarrow> bool" for Equal where
  replace: "plugins_step Equal s (s\<lparr>pl_hub := Hub_ReplaceAll table (pl_hub s)\<rparr>)"
| start: "NewFactory params = Inr d \<Longrightarrow> plugins_step Equal s (s\<lparr>pl_gens := pl_gens s @ [start_generation d]\<rparr>)"
| cancel: "i < length (pl_gens s) \<Longrightarrow>
    plugins_step Equal s (s\<lparr>pl_gens := (pl_gens s)[i := (pl_gens s ! i)\<lparr>g_ctxDone := True\<rparr>]\<rparr>)"
| move: "i < length (pl_gens s) \<Longrightarrow> gen_step Equal (pl_hub s) (pl_gens s ! i, pl_ds s) (g, ds) \<Longrightarrow>
    plugins_step Equal s (s\<lparr>pl_gens := (pl_gens s)[i := g], pl_ds := ds\<rparr>)"

lemma ReplaceAll_neq [simp]: "Hub_ReplaceAll d h \<noteq> h" "h \<noteq> Hub_ReplaceAll d h"
  using ReplaceAll_ch [of d h] by (metis n_not_Suc_n)+

text \<open>The steps of the wait that are the generation's own.\<close>

lemma wait_own:
  assumes "Hub_WaitChange v (h, w) (h, w')"
  obtains (differs) "w = WTop" "w' = WReturned (hub_version h)" "hub_version h \<noteq> v"
  | (blocks) "w = WTop" "w' = WBlocked (hub_ch h)" "hub_version h = v"
  | (wakes) c where "w = WBlocked c" "w' = WTop" "hub_closed h c"
  | (ctx) c where "w = WBlocked c" "w' = WCtxErr"
  using assms by cases auto

section \<open>A round as a run\<close>

lemma deletes_run:
  assumes "g_pc g = Deleting desired v todo" "distinct todo"
  shows "(gen_step Equal h)\<^sup>*\<^sup>* (g, ds)
    (g\<lparr>g_disc := (g_disc g)\<lparr>applied := filter (\<lambda>(k, _). k \<in> ep_ID ` set desired \<or> k \<notin> set todo) (applied (g_disc g))\<rparr>,
       g_pc := Deleting desired v []\<rparr>,
     ds @ map Delete (filter (\<lambda>i. i \<notin> ep_ID ` set desired) todo))"
  using assms
proof (induction todo arbitrary: g ds)
  case Nil
  then have "g\<lparr>g_disc := (g_disc g)\<lparr>applied := applied (g_disc g)\<rparr>, g_pc := Deleting desired v []\<rparr> = g" by simp
  then show ?case by simp
next
  case (Cons i todo)
  show ?case
  proof (cases "containsID desired i")
    case True
    let ?g = "g\<lparr>g_pc := Deleting desired v todo\<rparr>"
    have one: "gen_step Equal h (g, ds) (?g, ds)" using gen_step.keep [OF Cons.prems(1) _ True] by simp
    have eq: "filter (\<lambda>(k, _). k \<in> ep_ID ` set desired \<or> k \<notin> set (i # todo)) (applied (g_disc g)) =
        filter (\<lambda>(k, _). k \<in> ep_ID ` set desired \<or> k \<notin> set todo) (applied (g_disc g))"
      using True by (intro filter_cong) (auto simp: containsID_iff)
    from Cons.IH [of ?g ds] Cons.prems True one show ?thesis
      unfolding eq by (auto simp: containsID_iff intro: converse_rtranclp_into_rtranclp)
  next
    case False
    let ?g = "g\<lparr>g_disc := (g_disc g)\<lparr>applied := AList.delete i (applied (g_disc g))\<rparr>, g_pc := Deleting desired v todo\<rparr>"
    have one: "gen_step Equal h (g, ds) (?g, ds @ [Delete i])" using gen_step.delete [OF Cons.prems(1) _ False] by simp
    have eq: "filter (\<lambda>(k, _). k \<in> ep_ID ` set desired \<or> k \<notin> set todo) (AList.delete i (applied (g_disc g))) =
        filter (\<lambda>(k, _). k \<in> ep_ID ` set desired \<or> k \<notin> set (i # todo)) (applied (g_disc g))"
      using False Cons.prems(2) by (auto simp: AList.delete_eq containsID_iff intro!: filter_cong)
    from Cons.IH [of ?g "ds @ [Delete i]"] Cons.prems False one eq show ?thesis
      by (auto simp: containsID_iff intro: converse_rtranclp_into_rtranclp)
  qed
qed

lemma upserts_run:
  assumes "g_pc g = Upserting v ms"
  shows "(gen_step Equal h)\<^sup>*\<^sup>* (g, ds)
    (g\<lparr>g_disc := (g_disc g)\<lparr>applied := snd (apply_upserts Equal ms (applied (g_disc g)))\<rparr>, g_pc := Upserting v []\<rparr>,
     ds @ fst (apply_upserts Equal ms (applied (g_disc g))))"
  using assms
proof (induction ms arbitrary: g ds)
  case (Cons meta ms)
  show ?case
  proof (cases "\<exists>old. map_of (applied (g_disc g)) (ep_ID meta) = Some old \<and> Equal old meta")
    case True
    then obtain old where old: "map_of (applied (g_disc g)) (ep_ID meta) = Some old" "Equal old meta" by blast
    have one: "gen_step Equal h (g, ds) (g\<lparr>g_pc := Upserting v ms\<rparr>, ds)"
      by (rule gen_step.same [where Equal = Equal, OF Cons.prems old])
    from converse_rtranclp_into_rtranclp [OF one Cons.IH] old show ?thesis by simp
  next
    case False
    let ?g = "g\<lparr>g_disc := (g_disc g)\<lparr>applied := AList.update (ep_ID meta) meta (applied (g_disc g))\<rparr>, g_pc := Upserting v ms\<rparr>"
    have one: "gen_step Equal h (g, ds) (?g, ds @ [Upsert meta])"
      using False by (intro gen_step.upsert [where Equal = Equal, OF Cons.prems]) auto
    from converse_rtranclp_into_rtranclp [OF one Cons.IH] False show ?thesis
      by (auto simp: case_prod_unfold Let_def split: option.split)
  qed
next
  case Nil
  then have "g\<lparr>g_disc := (g_disc g)\<lparr>applied := applied (g_disc g)\<rparr>, g_pc := Upserting v []\<rparr> = g" by simp
  then show ?case by simp
qed

text \<open>
  Without interference a generation does in its steps what \<open>discovery_round\<close> does at once, and is then
  about to wait for a version other than the one it has applied.
\<close>

lemma round_run:
  assumes "g_pc g = AtSnapshot" "gomap_wf (applied (g_disc g))"
  shows "(gen_step Equal h)\<^sup>*\<^sup>* (g, ds)
    (g\<lparr>g_disc := snd (discovery_round Equal h (g_disc g)), g_pc := Waiting (hub_version h) WTop\<rparr>,
     ds @ fst (discovery_round Equal h (g_disc g)))"
proof -
  let ?desired = "fst (Hub_Snapshot (clusterName (g_disc g)) h)" and ?v = "hub_version h" and ?app = "applied (g_disc g)"
  have eq: "filter (\<lambda>(k, _). k \<in> ep_ID ` set ?desired \<or> k \<notin> set (keys ?app)) ?app = snd (apply_deletes ?desired ?app)"
    unfolding apply_deletes_kept by (intro filter_cong) (auto simp: image_iff)
  let ?g1 = "g\<lparr>g_pc := Deleting ?desired ?v (keys ?app)\<rparr>"
  let ?g2 = "g\<lparr>g_disc := (g_disc g)\<lparr>applied := snd (apply_deletes ?desired ?app)\<rparr>, g_pc := Deleting ?desired ?v []\<rparr>"
  let ?g3 = "?g2\<lparr>g_pc := Upserting ?v ?desired\<rparr>"
  let ?ds2 = "ds @ fst (apply_deletes ?desired ?app)" and ?ups = "apply_upserts Equal ?desired (snd (apply_deletes ?desired ?app))"
  let ?g4 = "g\<lparr>g_disc := (g_disc g)\<lparr>applied := snd ?ups\<rparr>, g_pc := Upserting ?v []\<rparr>"
  have "Hub_Snapshot (clusterName (g_disc g)) h = (?desired, ?v)" by (simp add: Hub_Snapshot_def)
  then have s1: "gen_step Equal h (g, ds) (?g1, ds)" by (rule gen_step.snapshot [OF assms(1)])
  have s2: "(gen_step Equal h)\<^sup>*\<^sup>* (?g1, ds) (?g2, ?ds2)"
    using deletes_run [of ?g1 ?desired ?v "keys ?app" Equal h ds] assms(2) eq by (simp add: apply_deletes_events)
  have s3: "gen_step Equal h (?g2, ?ds2) (?g3, ?ds2)" using gen_step.deleted [of ?g2 ?desired ?v] by simp
  have s4: "(gen_step Equal h)\<^sup>*\<^sup>* (?g3, ?ds2) (?g4, ?ds2 @ fst ?ups)"
    using upserts_run [of ?g3 ?v ?desired Equal h ?ds2] by simp
  have s5: "gen_step Equal h (?g4, ?ds2 @ fst ?ups)
      (g\<lparr>g_disc := (g_disc g)\<lparr>applied := snd ?ups, ready := True\<rparr>, g_pc := Waiting ?v WTop\<rparr>, ?ds2 @ fst ?ups)"
    using gen_step.upserted [of ?g4 ?v] by simp
  define z1 z2 z3 z4 z5 where "z1 = (?g1, ds)" and "z2 = (?g2, ?ds2)" and "z3 = (?g3, ?ds2)" and "z4 = (?g4, ?ds2 @ fst ?ups)"
    and "z5 = (g\<lparr>g_disc := (g_disc g)\<lparr>applied := snd ?ups, ready := True\<rparr>, g_pc := Waiting ?v WTop\<rparr>, ?ds2 @ fst ?ups)"
  have "gen_step Equal h (g, ds) z1" "(gen_step Equal h)\<^sup>*\<^sup>* z1 z2" "gen_step Equal h z2 z3"
    "(gen_step Equal h)\<^sup>*\<^sup>* z3 z4" "gen_step Equal h z4 z5"
    using s1 s2 s3 s4 s5 unfolding z1_def z2_def z3_def z4_def z5_def by blast+
  then have "(gen_step Equal h)\<^sup>*\<^sup>* (g, ds) z5" by (meson r_into_rtranclp rtranclp_trans)
  then show ?thesis
    by (simp add: z5_def discovery_round_unfold discovery_apply_unfold apply_deletes_events)
qed

section \<open>What a generation alone on its datastore keeps\<close>

text \<open>
  The version of the hub counts its replacements, modulo \<open>2 ^ 64\<close>; the number of its channel counts
  them without the bound. \<open>fetched\<close>: the version was read before; if nothing has been replaced since, the
  statement holds.
\<close>

definition hub_counts :: "Hub \<Rightarrow> bool" where
  "hub_counts h \<longleftrightarrow> hub_inv h \<and> hub_version h = of_nat (hub_ch h)"

definition fetched :: "Hub \<Rightarrow> 64 word \<Rightarrow> bool \<Rightarrow> bool" where
  "fetched h v current \<longleftrightarrow> (\<exists>n \<le> hub_ch h. v = of_nat n \<and> (n = hub_ch h \<longrightarrow> current))"

lemma hub_counts_New [keeps]: "hub_counts NewHub"
  by (simp add: hub_counts_def NewHub_inv)

lemma hub_counts_ReplaceAll [keeps]: "hub_counts h \<Longrightarrow> hub_counts (Hub_ReplaceAll d h)"
  by (simp add: hub_counts_def ReplaceAll_inv add.commute)

lemma fetched_ReplaceAll: "fetched h v P \<Longrightarrow> fetched (Hub_ReplaceAll d h) v Q"
  unfolding fetched_def by (metis ReplaceAll_ch le_SucI Suc_n_not_le_n)

lemma fetched_mono: "fetched h v P \<Longrightarrow> (P \<Longrightarrow> Q) \<Longrightarrow> fetched h v Q"
  unfolding fetched_def by blast

lemma fetched_now: "hub_counts h \<Longrightarrow> P \<Longrightarrow> fetched h (hub_version h) P"
  unfolding fetched_def hub_counts_def by blast

lemma fetched_current:
  assumes "hub_counts h" "hub_ch h < 2 ^ 64" "fetched h (hub_version h) P"
  shows P
proof -
  obtain n where n: "n \<le> hub_ch h" "hub_version h = of_nat n" "n = hub_ch h \<longrightarrow> P" using assms(3) by (auto simp: fetched_def)
  then have "(of_nat n :: 64 word) = of_nat (hub_ch h)" using assms(1) by (simp add: hub_counts_def)
  then have "unat (of_nat n :: 64 word) = unat (of_nat (hub_ch h) :: 64 word)" by simp
  then have "n = hub_ch h" using n(1) assms(2) by (simp add: unat_of_nat)
  with n(3) show P by simp
qed

text \<open>The applied map with what is still to be upserted.\<close>

definition completes :: "EndpointMetadata list \<Rightarrow> (NamespacedName, EndpointMetadata) gomap \<Rightarrow> endpoint_map" where
  "completes ms app = map_of app ++ desired_map ms"

definition pc_inv :: "Hub \<Rightarrow> generation \<Rightarrow> bool" where
  "pc_inv h g \<longleftrightarrow>
     (let app = applied (g_disc g); now = fst (Hub_Snapshot (clusterName (g_disc g)) h)
      in case g_pc g of
           AtSnapshot \<Rightarrow> True
         | Deleting desired v todo \<Rightarrow> fetched h v (desired = now) \<and> set (keys app) \<subseteq> ep_ID ` set desired \<union> set todo
         | Upserting v ms \<Rightarrow> fetched h v (completes ms app = desired_map now)
         | Waiting v w \<Rightarrow> wait_inv v (h, w) \<and> fetched h v (map_of app = desired_map now)
         | Stopped \<Rightarrow> True)"

definition gen_inv :: "string \<Rightarrow> Hub \<Rightarrow> generation \<times> notification list \<Rightarrow> bool" where
  "gen_inv cluster h s \<longleftrightarrow> (case s of (g, ds) \<Rightarrow>
     hub_counts h \<and> clusterName (g_disc g) = cluster \<and> gomap_wf (applied (g_disc g)) \<and> pc_inv h g \<and>
     replay ds Map.empty = map_of (applied (g_disc g)) \<and>
     (\<not> g_ctxDone g \<longrightarrow> g_pc g \<noteq> Stopped \<and> (\<forall>v. g_pc g \<noteq> Waiting v WCtxErr)))"

lemma gen_inv_step:
  assumes "gen_step Equal h s t" and eq: "\<And>a b. Equal a b \<Longrightarrow> a = b" and "gen_inv cluster h s"
  shows "gen_inv cluster h t"
  using assms(1,3)
proof (induction rule: gen_step.induct)
  case (snapshot g desired v ds)
  then have "fetched h v (desired = fst (Hub_Snapshot (clusterName (g_disc g)) h))"
    using fetched_now [of h] by (auto simp: gen_inv_def Hub_Snapshot_def)
  with snapshot show ?case by (simp add: gen_inv_def pc_inv_def)
next
  case (delete g desired v todo i ds)
  then show ?case
    by (auto simp: gen_inv_def pc_inv_def Let_def delete_conv' delete_keys distinct_removeAll fun_upd_def)
next
  case (keep g desired v todo i ds)
  then have "x \<in> ep_ID ` set desired \<union> set (remove1 i todo)" if "x \<in> set (keys (applied (g_disc g)))" for x
    using that by (cases "x = i") (auto simp: gen_inv_def pc_inv_def Let_def containsID_iff)
  with keep show ?case by (auto simp: gen_inv_def pc_inv_def Let_def)
next
  case (deleted g desired v ds)
  then have "map_of (applied (g_disc g)) i = None" if "desired_map desired i = None" for i
    using that by (auto simp: gen_inv_def pc_inv_def Let_def map_of_None_keys desired_map_None)
  then have "completes desired (applied (g_disc g)) = desired_map desired"
    by (auto simp: completes_def map_add_def fun_eq_iff split: option.split)
  with deleted show ?case by (auto simp: gen_inv_def pc_inv_def Let_def elim: fetched_mono)
next
  case (same g v meta ms old ds)
  then have "completes ms (applied (g_disc g)) = completes (meta # ms) (applied (g_disc g))"
    using eq by (auto simp: completes_def map_add_def fun_eq_iff desired_map_Cons split: option.split)
  with same show ?case by (auto simp: gen_inv_def pc_inv_def Let_def)
next
  case (upsert g v meta ms ds)
  have "completes ms (AList.update (ep_ID meta) meta (applied (g_disc g))) = completes (meta # ms) (applied (g_disc g))"
    by (auto simp: completes_def map_add_def fun_eq_iff desired_map_Cons update_conv' split: option.split)
  with upsert show ?case by (auto simp: gen_inv_def pc_inv_def Let_def update_conv' distinct_update)
next
  case (upserted g v ds)
  then show ?case by (auto simp: gen_inv_def pc_inv_def Let_def completes_def wait_inv_start hub_counts_def)
next
  case (wait g v w w' ds)
  then show ?case using wait_inv_step [OF wait(2)] by (auto simp: gen_inv_def pc_inv_def Let_def)
next
  case (changed g v v' ds)
  then show ?case by (simp add: gen_inv_def pc_inv_def)
next
  case (stopped g v ds)
  then show ?case by (simp add: gen_inv_def pc_inv_def)
qed

lemma gen_inv_ReplaceAll:
  assumes "gen_inv cluster h (g, ds)"
  shows "gen_inv cluster (Hub_ReplaceAll table h) (g, ds)"
proof -
  have "wait_inv v (Hub_ReplaceAll table h, w)" if "wait_inv v (h, w)" for v w
    using wait_inv_step [OF Hub_WaitChange.replaced that] .
  then have "pc_inv (Hub_ReplaceAll table h) g"
    using assms by (auto simp: gen_inv_def pc_inv_def Let_def intro: fetched_ReplaceAll split: start_pc.splits)
  with assms show ?thesis by (simp add: gen_inv_def keeps)
qed

lemma gen_inv_start:
  assumes "hub_counts h" "NewFactory (Some (Inr cluster)) = Inr d"
  shows "gen_inv cluster h (start_generation d, [])"
  using NewFactory_fresh [OF assms(2)] NewFactory_name [OF assms(2)] assms(1)
  by (simp add: gen_inv_def pc_inv_def start_generation_def)

section \<open>Convergence\<close>

definition gen_moves :: "nat \<Rightarrow> plugins \<Rightarrow> plugins \<Rightarrow> bool" where
  "gen_moves i s t \<longleftrightarrow> g_pc (pl_gens t ! i) \<noteq> g_pc (pl_gens s ! i)"

text \<open>One generation with a context that has not ended, and the table it is to converge to.\<close>

definition alone :: "plugins \<Rightarrow> bool" where
  "alone s \<longleftrightarrow> length (pl_gens s) = 1 \<and> \<not> g_ctxDone (pl_gens s ! 0)"

definition settling :: "string \<Rightarrow> Hub \<Rightarrow> plugins \<Rightarrow> bool" where
  "settling cluster h s \<longleftrightarrow> pl_hub s = h \<and> alone s \<and> gen_inv cluster h (pl_gens s ! 0, pl_ds s)"

definition resting :: "Hub \<Rightarrow> generation \<Rightarrow> bool" where
  "resting h g \<longleftrightarrow> (\<exists>v. g_pc g = Waiting v (WBlocked (hub_ch h)))"

text \<open>The distance to rest: first the versions that are out of date, then what is left of the round.\<close>

definition lag :: "Hub \<Rightarrow> 64 word \<Rightarrow> nat" where
  "lag h v = (if v = hub_version h then 0 else 2)"

definition gen_rank :: "Hub \<Rightarrow> generation \<Rightarrow> nat \<times> nat" where
  "gen_rank h g =
     (case g_pc g of
        AtSnapshot \<Rightarrow> (1, 0)
      | Deleting desired v todo \<Rightarrow> (lag h v, length todo + length desired + 6)
      | Upserting v ms \<Rightarrow> (lag h v, length ms + 5)
      | Waiting v w \<Rightarrow>
          (case w of WTop \<Rightarrow> (lag h v, 3) | WBlocked _ \<Rightarrow> (lag h v, 4) | WReturned _ \<Rightarrow> (2, 0) | WCtxErr \<Rightarrow> (0, 0))
      | Stopped \<Rightarrow> (0, 0))"

lemma remove1_shorter: "i \<in> set todo \<Longrightarrow> length (remove1 i todo) < length todo \<and> remove1 i todo \<noteq> todo"
  by (induction todo) auto

lemma gen_step_nearer:
  assumes "gen_step Equal h (g, ds) (g', ds')" "\<not> resting h g" "\<not> g_ctxDone g" "gen_inv cluster h (g, ds)"
  shows "g_pc g' \<noteq> g_pc g \<and> g_ctxDone g' = g_ctxDone g \<and>
    (resting h g' \<or> (gen_rank h g', gen_rank h g) \<in> less_than <*lex*> less_than)"
  using assms(1)
proof cases
  case (snapshot desired v)
  then show ?thesis by (auto simp: gen_rank_def lag_def Hub_Snapshot_def)
next
  case (delete desired v todo i)
  then show ?thesis using remove1_shorter [OF delete(4)] by (auto simp: gen_rank_def)
next
  case (keep desired v todo i)
  then show ?thesis using remove1_shorter [OF keep(4)] by (auto simp: gen_rank_def)
next
  case (wait v w w')
  from wait(4) show ?thesis
    using wait assms(2,3) by (cases rule: wait_own) (auto simp: gen_rank_def lag_def resting_def)
qed (use assms(3,4) in \<open>auto simp: gen_rank_def gen_inv_def\<close>)

lemma gen_enabled:
  assumes "\<not> resting h g" "\<not> g_ctxDone g" "gen_inv cluster h (g, ds)"
  shows "\<exists>s. gen_step Equal h (g, ds) s"
proof (cases "g_pc g")
  case AtSnapshot
  then show ?thesis by (metis gen_step.snapshot surj_pair)
next
  case (Deleting desired v todo)
  then show ?thesis by (cases todo) (metis gen_step.deleted, metis gen_step.delete gen_step.keep list.set_intros(1))
next
  case (Upserting v ms)
  then show ?thesis by (cases ms) (metis gen_step.upserted, metis gen_step.same gen_step.upsert)
next
  case (Waiting v w)
  have own: "\<exists>s. gen_step Equal h (g, ds) s" if "Hub_WaitChange v (h, w) (h, w')" "w' \<noteq> WCtxErr" for w'
    using gen_step.wait [OF Waiting that(1)] that(2) by blast
  show ?thesis
  proof (cases w)
    case WTop
    then show ?thesis using own Hub_WaitChange.differs Hub_WaitChange.blocks by (metis wait_pc.distinct(10,11))
  next
    case (WBlocked c)
    have "c \<noteq> hub_ch h" using assms(1) Waiting WBlocked by (auto simp: resting_def)
    moreover have "wait_inv v (h, w)" using assms(3) Waiting by (simp add: gen_inv_def pc_inv_def Let_def)
    ultimately have "hub_closed h c" using WBlocked by (auto simp: wait_inv_def hub_inv_def)
    then show ?thesis using own Hub_WaitChange.wakes WBlocked by (metis wait_pc.distinct(5))
  next
    case (WReturned v')
    then show ?thesis using gen_step.changed Waiting by metis
  next
    case WCtxErr
    then show ?thesis using Waiting assms(2,3) by (simp add: gen_inv_def)
  qed
next
  case Stopped
  then show ?thesis using assms(2,3) by (simp add: gen_inv_def)
qed

text \<open>A step of the world while one generation is alone and the table stays the same.\<close>

lemma alone_step:
  assumes "plugins_step Equal s t" "alone s" "alone t" "pl_hub t = pl_hub s"
  shows "gen_step Equal (pl_hub s) (pl_gens s ! 0, pl_ds s) (pl_gens t ! 0, pl_ds t)"
  using assms by cases (auto simp: alone_def nth_append)

interpretation plugin: fair_progress "plugins_step Equal" "gen_moves 0" "settling cluster h" "\<lambda>s. resting h (pl_gens s ! 0)"
  "\<lambda>s. gen_rank h (pl_gens s ! 0)" for Equal cluster h
proof
  fix s t
  show "\<exists>t. plugins_step Equal s t \<and> gen_moves 0 s t" if s: "settling cluster h s" "\<not> resting h (pl_gens s ! 0)"
  proof -
    have g: "0 < length (pl_gens s)" "\<not> g_ctxDone (pl_gens s ! 0)" "gen_inv cluster h (pl_gens s ! 0, pl_ds s)" "pl_hub s = h"
      using s(1) by (auto simp: settling_def alone_def)
    obtain g' ds' where step: "gen_step Equal h (pl_gens s ! 0, pl_ds s) (g', ds')"
      using gen_enabled [OF s(2) g(2,3)] by (metis surj_pair)
    have "plugins_step Equal s (s\<lparr>pl_gens := (pl_gens s)[0 := g'], pl_ds := ds'\<rparr>)"
      using plugins_step.move [OF g(1)] step g(4) by simp
    moreover have "g_pc g' \<noteq> g_pc (pl_gens s ! 0)" using gen_step_nearer [OF step s(2) g(2,3)] by simp
    ultimately show ?thesis using g(1) by (intro exI conjI) (auto simp: gen_moves_def)
  qed
  show "resting h (pl_gens t ! 0) \<or> (gen_rank h (pl_gens t ! 0), gen_rank h (pl_gens s ! 0)) \<in> less_than <*lex*> less_than"
    if "settling cluster h s" "\<not> resting h (pl_gens s ! 0)" "plugins_step Equal s t" "settling cluster h t"
  proof -
    have "gen_step Equal h (pl_gens s ! 0, pl_ds s) (pl_gens t ! 0, pl_ds t)"
      using alone_step [OF that(3)] that(1,4) by (simp add: settling_def)
    from gen_step_nearer [OF this that(2), of cluster] show ?thesis using that(1) by (simp add: settling_def alone_def)
  qed
  show "gen_rank h (pl_gens t ! 0) = gen_rank h (pl_gens s ! 0) \<or>
      (gen_rank h (pl_gens t ! 0), gen_rank h (pl_gens s ! 0)) \<in> less_than <*lex*> less_than" if "\<not> gen_moves 0 s t"
    using that by (simp add: gen_moves_def gen_rank_def)
qed (simp add: gen_moves_def)

text \<open>At rest the datastore holds the table, and nothing moves until the table is replaced.\<close>

lemma resting_store:
  assumes "gen_inv cluster h (g, ds)" "resting h g" "hub_ch h < 2 ^ 64"
  shows "replay ds Map.empty = desired_map (fst (Hub_Snapshot cluster h))"
proof -
  obtain v where v: "g_pc g = Waiting v (WBlocked (hub_ch h))" using assms(2) by (auto simp: resting_def)
  then have "hub_version h = v" "fetched h v (map_of (applied (g_disc g)) = desired_map (fst (Hub_Snapshot cluster h)))"
    using assms(1) by (auto simp: gen_inv_def pc_inv_def Let_def wait_inv_def)
  then show ?thesis using fetched_current [of h] assms(1,3) by (auto simp: gen_inv_def)
qed

lemma resting_stuck:
  assumes "gen_inv cluster h (g, ds)" "resting h g" "\<not> g_ctxDone g"
  shows "\<not> gen_step Equal h (g, ds) s"
proof
  have open_ch: "\<not> hub_closed h (hub_ch h)" using assms(1) by (auto simp: gen_inv_def hub_counts_def hub_inv_open)
  assume "gen_step Equal h (g, ds) s"
  then show False
  proof cases
    case (wait v w w')
    from wait(3) show False using wait assms(2,3) open_ch by (cases rule: wait_own) (auto simp: resting_def)
  qed (use assms(2) in \<open>auto simp: resting_def\<close>)
qed

lemma hub_counts_fold: "hub_counts h \<Longrightarrow> hub_counts (fold Hub_ReplaceAll tables h)"
  by (induction tables arbitrary: h) (simp_all add: keeps)

text \<open>Along a run with one generation its invariant holds.\<close>

lemma alone_run:
  assumes "is_run (plugins_step Equal) run" "\<And>a b. Equal a b \<Longrightarrow> a = b" "\<And>i. alone (run i)"
    and "gen_inv cluster (pl_hub (run 0)) (pl_gens (run 0) ! 0, pl_ds (run 0))"
  shows "gen_inv cluster (pl_hub (run i)) (pl_gens (run i) ! 0, pl_ds (run i))"
proof (induction i)
  case (Suc i)
  have "plugins_step Equal (run i) (run (Suc i)) \<or> run (Suc i) = run i" using assms(1) by (simp add: is_run_def)
  then show ?case
  proof
    assume step: "plugins_step Equal (run i) (run (Suc i))"
    show ?thesis
    proof (cases "pl_hub (run (Suc i)) = pl_hub (run i)")
      case True
      with gen_inv_step [OF alone_step [OF step assms(3,3) True] assms(2) Suc] show ?thesis by simp
    next
      case False
      with step have "\<exists>table. run (Suc i) = (run i)\<lparr>pl_hub := Hub_ReplaceAll table (pl_hub (run i))\<rparr>" by cases auto
      with gen_inv_ReplaceAll [OF Suc] show ?thesis by auto
    qed
  qed (use Suc in simp)
qed (rule assms(4))

lemma resting_run:
  assumes "is_run (plugins_step Equal) run" "\<And>i. j \<le> i \<Longrightarrow> settling cluster h (run i)"
    and "resting h (pl_gens (run j) ! 0)" "j \<le> l"
  shows "resting h (pl_gens (run l) ! 0)"
  using assms(4)
proof (induction rule: dec_induct)
  case (step l)
  have l: "alone (run l)" "alone (run (Suc l))" "gen_inv cluster h (pl_gens (run l) ! 0, pl_ds (run l))"
    "\<not> g_ctxDone (pl_gens (run l) ! 0)" "pl_hub (run l) = h" "pl_hub (run (Suc l)) = h"
    using assms(2) [of l] assms(2) [of "Suc l"] step.hyps(1) by (auto simp: settling_def alone_def)
  then have "\<not> plugins_step Equal (run l) (run (Suc l))"
    using alone_step [OF _ l(1,2)] resting_stuck [OF l(3) step.IH l(4)] by auto
  then have "run (Suc l) = run l" using assms(1) unfolding is_run_def by blast
  with step.IH show ?case by simp
qed (rule assms(3))

text \<open>
  C11. The endpoints of a cell converge. Let a plugin generation start on an empty datastore, whatever
  tables the hub has had before, and let the poller replace the table at any moment, also between the
  single calls of the plugin. If the table is not replaced any more from some time on, the
  generation keeps running and is scheduled fairly, and the hub has had fewer than \<open>2 ^ 64\<close> tables,
  then from some time on the datastore holds exactly the endpoints of the cluster in that table.
\<close>

theorem endpoints_converge:
  assumes "\<And>a b. Equal a b \<Longrightarrow> a = b" and "NewFactory (Some (Inr cluster)) = Inr d"
    and "is_run (plugins_step Equal) run" and "weakly_fair (plugins_step Equal) (gen_moves 0) run"
    and "run 0 = \<lparr>pl_hub = fold Hub_ReplaceAll tables NewHub, pl_gens = [start_generation d], pl_ds = []\<rparr>"
    and "\<And>i. alone (run i)" and "\<And>i. n \<le> i \<Longrightarrow> pl_hub (run i) = h" and "hub_ch h < 2 ^ 64"
  shows "\<exists>j \<ge> n. \<forall>l \<ge> j. replay (pl_ds (run l)) Map.empty = desired_map (fst (Hub_Snapshot cluster h))"
proof -
  have "gen_inv cluster (pl_hub (run 0)) (pl_gens (run 0) ! 0, pl_ds (run 0))"
    using gen_inv_start [OF hub_counts_fold [OF hub_counts_New] assms(2)] by (simp add: assms(5))
  note inv = alone_run [OF assms(3,1,6) this]
  have settling: "settling cluster h (run i)" if "n \<le> i" for i
    using inv [of i] assms(6) assms(7) [OF that] by (simp add: settling_def)
  then obtain j where j: "n \<le> j" "resting h (pl_gens (run j) ! 0)"
    using plugin.reaches_goal [OF assms(3,4)] by blast
  have "replay (pl_ds (run l)) Map.empty = desired_map (fst (Hub_Snapshot cluster h))" if "j \<le> l" for l
  proof (rule resting_store [OF _ _ assms(8)])
    show "gen_inv cluster h (pl_gens (run l) ! 0, pl_ds (run l))" using settling [of l] that j(1) by (simp add: settling_def)
    show "resting h (pl_gens (run l) ! 0)" by (rule resting_run [OF assms(3) settling j(2) that]) (use j(1) in simp)
  qed
  with j(1) show ?thesis by blast
qed

text \<open>A run: one table with one endpoint, and a generation that applies it and waits.\<close>

definition demo_hub :: Hub where
  "demo_hub = Hub_ReplaceAll [(''c1'', [ep_a])] NewHub"

definition demo_plugin :: "nat \<Rightarrow> plugins" where
  "demo_plugin i =
     (let have = 3 \<le> i;
          pc = (if i = 0 then AtSnapshot else if i = 1 then Deleting [ep_a] 1 [] else if i = 2 then Upserting 1 [ep_a]
                else if i = 3 then Upserting 1 [] else if i = 4 then Waiting 1 WTop else Waiting 1 (WBlocked 1))
      in \<lparr>pl_hub = demo_hub,
          pl_gens = [\<lparr>g_disc = gen_c1\<lparr>applied := (if have then [(ep_ID ep_a, ep_a)] else []), ready := 4 \<le> i\<rparr>,
            g_pc = pc, g_ctxDone = False\<rparr>],
          pl_ds = (if have then [Upsert ep_a] else [])\<rparr>)"

lemma demo_plugin_run: "is_run (plugins_step (=)) demo_plugin"
  unfolding is_run_def
proof
  fix i
  have lift: "plugins_step (=) (demo_plugin i) (demo_plugin (Suc i))"
    if "gen_step (=) demo_hub (pl_gens (demo_plugin i) ! 0, pl_ds (demo_plugin i)) (pl_gens (demo_plugin (Suc i)) ! 0, pl_ds (demo_plugin (Suc i)))"
    using plugins_step.move [of 0 "demo_plugin i" "(=)"] that by (simp add: demo_plugin_def Let_def)
  note defs = demo_plugin_def Let_def gen_c1_def demo_hub_def Hub_Snapshot_def
  consider "i = 0" | "i = 1" | "i = 2" | "i = 3" | "i = 4" | "5 \<le> i" by linarith
  then show "plugins_step (=) (demo_plugin i) (demo_plugin (Suc i)) \<or> demo_plugin (Suc i) = demo_plugin i"
  proof cases
    case 1
    then show ?thesis using gen_step.snapshot [of "pl_gens (demo_plugin 0) ! 0" demo_hub] by (intro disjI1 lift) (simp add: defs)
  next
    case 2
    then show ?thesis using gen_step.deleted [of "pl_gens (demo_plugin 1) ! 0" "[ep_a]" 1] by (intro disjI1 lift) (simp add: defs)
  next
    case 3
    then show ?thesis using gen_step.upsert [of "pl_gens (demo_plugin 2) ! 0" 1 ep_a "[]" "(=)" demo_hub "[]"] by (intro disjI1 lift) (simp add: defs)
  next
    case 4
    then show ?thesis using gen_step.upserted [of "pl_gens (demo_plugin 3) ! 0" 1] by (intro disjI1 lift) (simp add: defs)
  next
    case 5
    have "Hub_WaitChange 1 (demo_hub, WTop) (demo_hub, WBlocked 1)"
      using Hub_WaitChange.blocks [of demo_hub 1] by (simp add: demo_hub_def)
    then show ?thesis using 5 gen_step.wait [of "pl_gens (demo_plugin 4) ! 0" 1 WTop demo_hub] by (intro disjI1 lift) (simp add: defs)
  next
    case 6
    then show ?thesis by (simp add: demo_plugin_def)
  qed
qed

lemma demo_plugin_fair: "weakly_fair (plugins_step (=)) (gen_moves 0) demo_plugin"
proof -
  have "\<not> gen_step (=) demo_hub (pl_gens (demo_plugin (i + 5)) ! 0, pl_ds (demo_plugin (i + 5))) s" for i s
  proof
    assume "gen_step (=) demo_hub (pl_gens (demo_plugin (i + 5)) ! 0, pl_ds (demo_plugin (i + 5))) s"
    then show False
      by cases (auto simp: demo_plugin_def Let_def demo_hub_def NewHub_def elim!: wait_own)
  qed
  then have "\<not> (plugins_step (=) (demo_plugin (i + 5)) s \<and> gen_moves 0 (demo_plugin (i + 5)) s)" for i s
    by (auto simp: gen_moves_def demo_plugin_def Let_def elim!: plugins_step.cases)
  then show ?thesis unfolding weakly_fair_def by (metis le_add1)
qed

theorem endpoints_converge_witness:
  "\<exists>j. \<forall>l \<ge> j. replay (pl_ds (demo_plugin l)) Map.empty (ep_ID ep_a) = Some ep_a"
proof -
  have start: "demo_plugin 0 = \<lparr>pl_hub = fold Hub_ReplaceAll [[(''c1'', [ep_a])]] NewHub, pl_gens = [start_generation gen_c1], pl_ds = []\<rparr>"
    by (simp add: demo_plugin_def Let_def demo_hub_def start_generation_def gen_c1_def)
  have "alone (demo_plugin i)" "pl_hub (demo_plugin i) = demo_hub" for i by (simp_all add: alone_def demo_plugin_def Let_def)
  moreover have "hub_ch demo_hub < 2 ^ 64" by (simp add: demo_hub_def)
  ultimately have "\<exists>j \<ge> 0. \<forall>l \<ge> j. replay (pl_ds (demo_plugin l)) Map.empty = desired_map (fst (Hub_Snapshot ''c1'' demo_hub))"
    by (intro endpoints_converge [OF _ gen_c1_made demo_plugin_run demo_plugin_fair start]) auto
  moreover have "desired_map (fst (Hub_Snapshot ''c1'' demo_hub)) (ep_ID ep_a) = Some ep_a"
    by (simp add: Hub_Snapshot_def demo_hub_def desired_map_def)
  ultimately show ?thesis by metis
qed

section \<open>Generations that overlap\<close>

lemma gens_run:
  assumes "(gen_step Equal (pl_hub s))\<^sup>*\<^sup>* (pl_gens s ! i, pl_ds s) (g, ds)" "i < length (pl_gens s)"
  shows "(plugins_step Equal)\<^sup>*\<^sup>* s (s\<lparr>pl_gens := (pl_gens s)[i := g], pl_ds := ds\<rparr>)"
  using assms(1)
proof (induction rule: rtranclp_induct2)
  case refl
  then show ?case by simp
next
  case (step g ds g' ds')
  let ?s = "s\<lparr>pl_gens := (pl_gens s)[i := g], pl_ds := ds\<rparr>"
  have "plugins_step Equal ?s (?s\<lparr>pl_gens := (pl_gens ?s)[i := g'], pl_ds := ds'\<rparr>)"
    using step.hyps(2) assms(2) by (intro plugins_step.move) simp_all
  with step.IH show ?case by simp
qed

text \<open>A generation goes through a round and blocks again, from its start or after a change.\<close>

lemma round_blocks:
  assumes "g_pc g = AtSnapshot" "gomap_wf (applied (g_disc g))"
  shows "(gen_step Equal h)\<^sup>*\<^sup>* (g, ds)
    (g\<lparr>g_disc := snd (discovery_round Equal h (g_disc g)), g_pc := Waiting (hub_version h) (WBlocked (hub_ch h))\<rparr>,
     ds @ fst (discovery_round Equal h (g_disc g)))"
proof -
  let ?g = "g\<lparr>g_disc := snd (discovery_round Equal h (g_disc g)), g_pc := Waiting (hub_version h) WTop\<rparr>"
  have "Hub_WaitChange (hub_version h) (h, WTop) (h, WBlocked (hub_ch h))" by (simp add: Hub_WaitChange.blocks)
  then have "gen_step Equal h (?g, ds') (?g\<lparr>g_pc := Waiting (hub_version h) (WBlocked (hub_ch h))\<rparr>, ds')" for ds'
    by (intro gen_step.wait) simp_all
  then show ?thesis using round_run [OF assms, of Equal h ds] by (simp add: rtranclp.rtrancl_into_rtrancl)
qed

lemma change_blocks:
  assumes "g_pc g = Waiting v (WBlocked c)" "hub_closed h c" "hub_version h \<noteq> v" "gomap_wf (applied (g_disc g))"
  shows "(gen_step Equal h)\<^sup>*\<^sup>* (g, ds)
    (g\<lparr>g_disc := snd (discovery_round Equal h (g_disc g)), g_pc := Waiting (hub_version h) (WBlocked (hub_ch h))\<rparr>,
     ds @ fst (discovery_round Equal h (g_disc g)))"
proof -
  let ?top = "g\<lparr>g_pc := Waiting v WTop\<rparr>" and ?ret = "g\<lparr>g_pc := Waiting v (WReturned (hub_version h))\<rparr>"
  have "gen_step Equal h (g, ds) (?top, ds)"
    using gen_step.wait [OF assms(1) Hub_WaitChange.wakes [OF assms(2)]] by simp
  moreover have "gen_step Equal h (?top, ds) (?ret, ds)"
    using gen_step.wait [of ?top v WTop h] Hub_WaitChange.differs [OF assms(3)] by simp
  moreover have "gen_step Equal h (?ret, ds) (g\<lparr>g_pc := AtSnapshot\<rparr>, ds)" using gen_step.changed [of ?ret v] by simp
  ultimately have "(gen_step Equal h)\<^sup>*\<^sup>* (g, ds) (g\<lparr>g_pc := AtSnapshot\<rparr>, ds)" by (meson r_into_rtranclp rtranclp_trans)
  also have "(gen_step Equal h)\<^sup>*\<^sup>* \<dots>
    (g\<lparr>g_disc := snd (discovery_round Equal h (g_disc g)), g_pc := Waiting (hub_version h) (WBlocked (hub_ch h))\<rparr>,
     ds @ fst (discovery_round Equal h (g_disc g)))"
    using round_blocks [of "g\<lparr>g_pc := AtSnapshot\<rparr>" Equal h ds] assms(4) by simp
  finally show ?thesis .
qed

definition quiescent :: "(EndpointMetadata \<Rightarrow> EndpointMetadata \<Rightarrow> bool) \<Rightarrow> plugins \<Rightarrow> bool" where
  "quiescent Equal s \<longleftrightarrow> (\<forall>g \<in> set (pl_gens s). \<forall>t. \<not> gen_step Equal (pl_hub s) (g, pl_ds s) t)"

definition one_endpoint :: "string \<Rightarrow> EndpointMetadata \<Rightarrow> desired_table" where
  "one_endpoint cluster e = [(cluster, [e])]"

text \<open>
  The states of the run below: the first generation has applied the endpoint; a second one has too;
  the table loses the endpoint and the first generation deletes it; the table gets it back, the
  first generation is stopped, and the second one wakes up.
\<close>

definition overlap :: "string \<Rightarrow> EndpointMetadata \<Rightarrow> nat \<Rightarrow> plugins" where
  "overlap cluster e i =
     (let h1 = Hub_ReplaceAll (one_endpoint cluster e) NewHub; h2 = Hub_ReplaceAll [] h1;
          h3 = Hub_ReplaceAll (one_endpoint cluster e) h2;
          new = \<lparr>clusterName = cluster, applied = [], ready = False\<rparr>;
          has = \<lparr>clusterName = cluster, applied = [(ep_ID e, e)], ready = True\<rparr>;
          lost = \<lparr>clusterName = cluster, applied = [], ready = True\<rparr>;
          gen = (\<lambda>d pc ctx. \<lparr>g_disc = d, g_pc = pc, g_ctxDone = ctx\<rparr>);
          blocked = (\<lambda>h. Waiting (hub_version h) (WBlocked (hub_ch h))); u = Upsert e; d = Delete (ep_ID e)
      in [\<lparr>pl_hub = h1, pl_gens = [gen new AtSnapshot False], pl_ds = []\<rparr>,
          \<lparr>pl_hub = h1, pl_gens = [gen has (blocked h1) False], pl_ds = [u]\<rparr>,
          \<lparr>pl_hub = h1, pl_gens = [gen has (blocked h1) False, gen new AtSnapshot False], pl_ds = [u]\<rparr>,
          \<lparr>pl_hub = h1, pl_gens = [gen has (blocked h1) False, gen has (blocked h1) False], pl_ds = [u, u]\<rparr>,
          \<lparr>pl_hub = h2, pl_gens = [gen has (blocked h1) False, gen has (blocked h1) False], pl_ds = [u, u]\<rparr>,
          \<lparr>pl_hub = h2, pl_gens = [gen lost (blocked h2) False, gen has (blocked h1) False], pl_ds = [u, u, d]\<rparr>,
          \<lparr>pl_hub = h3, pl_gens = [gen lost (blocked h2) False, gen has (blocked h1) False], pl_ds = [u, u, d]\<rparr>,
          \<lparr>pl_hub = h3, pl_gens = [gen lost (blocked h2) True, gen has (blocked h1) False], pl_ds = [u, u, d]\<rparr>,
          \<lparr>pl_hub = h3, pl_gens = [gen lost Stopped True, gen has (blocked h1) False], pl_ds = [u, u, d]\<rparr>,
          \<lparr>pl_hub = h3, pl_gens = [gen lost Stopped True, gen has (blocked h3) False], pl_ds = [u, u, d]\<rparr>] ! i)"

lemmas overlap_defs = overlap_def Let_def one_endpoint_def Hub_Snapshot_def discovery_round_def discovery_apply_def NewHub_def

lemma overlap_step:
  assumes "i < 9"
  shows "(plugins_step (=))\<^sup>*\<^sup>* (overlap cluster e i) (overlap cluster e (Suc i))"
proof -
  let ?s = "overlap cluster e"
  note one = r_into_rtranclp [of "plugins_step (=)"]
  consider "i = 0" | "i = 1" | "i = 2" | "i = 3" | "i = 4" | "i = 5" | "i = 6" | "i = 7" | "i = 8" using assms by linarith
  then show ?thesis
  proof cases
    case 1
    then show ?thesis
      using gens_run [OF round_blocks [where Equal = "(=)"], of "?s 0" 0] by (simp add: overlap_defs)
  next
    case 2
    then show ?thesis
      using one [OF plugins_step.start [of "Some (Inr cluster)" _ "(=)" "?s 1"]] by (simp add: overlap_defs NewFactory_def start_generation_def)
  next
    case 3
    then show ?thesis
      using gens_run [OF round_blocks [where Equal = "(=)"], of "?s 2" 1] by (simp add: overlap_defs)
  next
    case 4
    then show ?thesis using one [OF plugins_step.replace [of "(=)" "?s 3" "[]"]] by (simp add: overlap_defs)
  next
    case 5
    then show ?thesis
      using gens_run [OF change_blocks [where Equal = "(=)"], of "?s 4" 0] by (simp add: overlap_defs)
  next
    case 6
    then show ?thesis
      using one [OF plugins_step.replace [of "(=)" "?s 5" "one_endpoint cluster e"]] by (simp add: overlap_defs)
  next
    case 7
    then show ?thesis using one [OF plugins_step.cancel [of 0 "?s 6" "(=)"]] by (simp add: overlap_defs)
  next
    case 8
    let ?g = "pl_gens (?s 7) ! 0" and ?h = "pl_hub (?s 7)" and ?ds = "pl_ds (?s 7)"
    have "gen_step (=) ?h (?g, ?ds) (?g\<lparr>g_pc := Waiting 2 WCtxErr\<rparr>, ?ds)"
      using gen_step.wait [of ?g 2 "WBlocked (Suc (Suc 0))" ?h WCtxErr] Hub_WaitChange.ctx_done [of 2 ?h "Suc (Suc 0)"] by (simp add: overlap_defs)
    moreover have "gen_step (=) ?h (?g\<lparr>g_pc := Waiting 2 WCtxErr\<rparr>, ?ds) (?g\<lparr>g_pc := Stopped\<rparr>, ?ds)"
      using gen_step.stopped [of "?g\<lparr>g_pc := Waiting 2 WCtxErr\<rparr>" 2] by simp
    ultimately have "(gen_step (=) ?h)\<^sup>*\<^sup>* (?g, ?ds) (?g\<lparr>g_pc := Stopped\<rparr>, ?ds)" by (meson r_into_rtranclp rtranclp_trans)
    from gens_run [OF this] 8 show ?thesis by (simp add: overlap_defs)
  next
    case 9
    then show ?thesis
      using gens_run [OF change_blocks [where Equal = "(=)"], of "?s 8" 1] by (simp add: overlap_defs)
  qed
qed

text \<open>
  C40. Overlapping generations can lose an endpoint for good. For every cluster and endpoint there is
  a run in which a generation is started on a table with the endpoint, a second generation is
  started beside it as in a hot swap, the table loses the endpoint and gets it back, the first
  generation applies the table in between, which the second one never sees, and then ends with its
  context. Then no generation can take a step until the table is replaced, the hub asks for the endpoint, the running
  generation counts it as applied, and the datastore does not have it.
\<close>

theorem overlap_loses_endpoint:
  "\<exists>s. (plugins_step (=))\<^sup>*\<^sup>*
       \<lparr>pl_hub = Hub_ReplaceAll (one_endpoint cluster e) NewHub,
        pl_gens = [start_generation \<lparr>clusterName = cluster, applied = [], ready = False\<rparr>], pl_ds = []\<rparr> s \<and>
     quiescent (=) s \<and> fst (Hub_Snapshot cluster (pl_hub s)) = [e] \<and>
     (\<exists>g. g \<in> set (pl_gens s) \<and> \<not> g_ctxDone g \<and> map_of (applied (g_disc g)) (ep_ID e) = Some e) \<and>
     replay (pl_ds s) Map.empty (ep_ID e) = None"
proof -
  let ?s = "overlap cluster e"
  have "i \<le> 9 \<Longrightarrow> (plugins_step (=))\<^sup>*\<^sup>* (?s 0) (?s i)" for i
  proof (induction i)
    case (Suc i)
    then show ?case using overlap_step [of i cluster e] by (meson Suc_le_lessD Suc_leD rtranclp_trans)
  qed simp
  then have run: "(plugins_step (=))\<^sup>*\<^sup>* (?s 0) (?s 9)" by simp
  have start: "?s 0 = \<lparr>pl_hub = Hub_ReplaceAll (one_endpoint cluster e) NewHub,
      pl_gens = [start_generation \<lparr>clusterName = cluster, applied = [], ready = False\<rparr>], pl_ds = []\<rparr>"
    by (simp add: overlap_def Let_def start_generation_def)
  have "quiescent (=) (?s 9)"
    by (auto simp: quiescent_def overlap_defs elim!: gen_step.cases wait_own)
  moreover have "fst (Hub_Snapshot cluster (pl_hub (?s 9))) = [e]" "replay (pl_ds (?s 9)) Map.empty (ep_ID e) = None"
    by (simp_all add: overlap_defs)
  moreover have "pl_gens (?s 9) ! 1 \<in> set (pl_gens (?s 9))" "\<not> g_ctxDone (pl_gens (?s 9) ! 1)"
    "map_of (applied (g_disc (pl_gens (?s 9) ! 1))) (ep_ID e) = Some e"
    by (simp_all add: overlap_defs)
  ultimately show ?thesis using run unfolding start by blast
qed

end
