(* ===== verification/Cell_Core.thy ===== *)
theory Cell_Core
  imports Cluster_Plugin
begin

text \<open>
  \<open>pkg/cell/role.go\<close>, \<open>cell.go\<close>, \<open>engine.go\<close> and \<open>metrics.go\<close>: cells, engines and their metrics.

  Cells and engines are shared through pointers and compared by identity, so they live in a store:
  a pointer is a number, the store maps it to the object, and a number that was never allocated
  holds a zero object. A context is a flag: \<open>eng_cancelled\<close> says that the engine's \<open>cancel\<close> was
  called, \<open>c_closed\<close> that the cell's was; an engine's context is derived from its cell's. A closed
  channel is a flag as well (\<open>c_ready\<close>). The datastore \<open>c.ds\<close> and the datalayer runtime \<open>c.rt\<close> are
  objects of the engine library; a cell keeps the sequence of calls it made on each. \<open>sync.WaitGroup\<close>
  is its counter. Log lines are not modelled; every metric the code writes is.
\<close>

section \<open>Roles and states\<close>

datatype Role = RoleNone | RoleStandby | RolePrimary

fun Role_String :: "Role \<Rightarrow> string" where
  "Role_String RoleStandby = ''standby''"
| "Role_String RolePrimary = ''primary''"
| "Role_String RoleNone = ''none''"

datatype State = StateCreating | StateStandby | StatePrimary | StateDraining

fun State_String :: "State \<Rightarrow> string" where
  "State_String StateCreating = ''creating''"
| "State_String StateStandby = ''standby''"
| "State_String StatePrimary = ''primary''"
| "State_String StateDraining = ''draining''"

instantiation Role :: enum
begin

definition "enum_class.enum = [RoleNone, RoleStandby, RolePrimary]"
definition "enum_class.enum_all P \<longleftrightarrow> P RoleNone \<and> P RoleStandby \<and> P RolePrimary"
definition "enum_class.enum_ex P \<longleftrightarrow> P RoleNone \<or> P RoleStandby \<or> P RolePrimary"

instance
proof
  show all: "(UNIV :: Role set) = set enum_class.enum"
    by (auto simp: enum_Role_def) (metis Role.exhaust)
  show "distinct (enum_class.enum :: Role list)" by (simp add: enum_Role_def)
  show "enum_class.enum_all P \<longleftrightarrow> Ball UNIV P" for P :: "Role \<Rightarrow> bool"
    by (simp add: enum_all_Role_def all enum_Role_def)
  show "enum_class.enum_ex P \<longleftrightarrow> Bex UNIV P" for P :: "Role \<Rightarrow> bool"
    by (simp add: enum_ex_Role_def all enum_Role_def)
qed

end

lemma Role_String_inj: "Role_String r = Role_String r' \<longleftrightarrow> r = r'"
  by (cases r; cases r') simp_all

lemma State_String_inj: "State_String s = State_String s' \<longleftrightarrow> s = s'"
  by (cases s; cases s') simp_all

section \<open>Data\<close>

text \<open>The calls a compile makes on the cell's datalayer runtime, with their outcome.\<close>

datatype rt_call = RegisterDependencies string bool | Configure string bool

record Engine =
  eng_Version :: string
  eng_fc :: bool
  eng_discovery :: "discovery list"
  eng_started :: bool
  eng_cancelled :: bool
  eng_wg :: int
  eng_parent :: nat

text \<open>Where the function of \<open>readyOnce\<close> is when a goroutine of an engine runs it: it has closed the ready
  channel and is about to load the state, or it has loaded the creating state and is about to store.\<close>

datatype ready_pc = NotRunning | BeforeLoad | BeforeStore

record Cell =
  c_Key :: string
  c_ds :: "notification list"
  c_rt :: "rt_call list"
  c_closed :: bool
  c_engine :: "nat option"
  c_role :: Role
  c_state :: State
  c_currentHash :: "string option"
  c_dataConfigured :: bool
  c_ready :: bool
  c_readyAt :: int
  c_readyOnce :: ready_pc

record metrics =
  engineReloads :: "string \<times> string \<Rightarrow> nat"
  engineCurrentVersion :: "(string \<times> string, nat) gomap"
  cellStateGauge :: "string \<times> string \<times> string \<Rightarrow> nat"
  drainDuration :: "string \<Rightarrow> nat"

record Store =
  st_cells :: "nat \<Rightarrow> Cell"
  st_engines :: "nat \<Rightarrow> Engine"
  st_metrics :: metrics

definition upd_cell :: "nat \<Rightarrow> (Cell \<Rightarrow> Cell) \<Rightarrow> 'a Store_scheme \<Rightarrow> 'a Store_scheme" where
  "upd_cell c f s = s\<lparr>st_cells := (st_cells s)(c := f (st_cells s c))\<rparr>"

definition upd_engine :: "nat \<Rightarrow> (Engine \<Rightarrow> Engine) \<Rightarrow> 'a Store_scheme \<Rightarrow> 'a Store_scheme" where
  "upd_engine e f s = s\<lparr>st_engines := (st_engines s)(e := f (st_engines s e))\<rparr>"

definition upd_metrics :: "(metrics \<Rightarrow> metrics) \<Rightarrow> 'a Store_scheme \<Rightarrow> 'a Store_scheme" where
  "upd_metrics f s = s\<lparr>st_metrics := f (st_metrics s)\<rparr>"

section \<open>Cell operations\<close>

definition Cell_Engine :: "nat \<Rightarrow> 'a Store_scheme \<Rightarrow> nat option" where
  "Cell_Engine c s = c_engine (st_cells s c)"

definition Cell_Role :: "nat \<Rightarrow> 'a Store_scheme \<Rightarrow> Role" where
  "Cell_Role c s = c_role (st_cells s c)"

definition Cell_State :: "nat \<Rightarrow> 'a Store_scheme \<Rightarrow> State" where
  "Cell_State c s = c_state (st_cells s c)"

definition Cell_Ready :: "nat \<Rightarrow> 'a Store_scheme \<Rightarrow> bool" where
  "Cell_Ready c s \<longleftrightarrow> c_ready (st_cells s c)"

definition set_state_gauge :: "nat \<Rightarrow> Role \<Rightarrow> State \<Rightarrow> 'a Store_scheme \<Rightarrow> 'a Store_scheme" where
  "set_state_gauge c r st s = upd_metrics (\<lambda>m. m\<lparr>cellStateGauge :=
     (cellStateGauge m)((c_Key (st_cells s c), Role_String r, State_String st) := 1)\<rparr>) s"

definition Cell_setRole :: "nat \<Rightarrow> Role \<Rightarrow> 'a Store_scheme \<Rightarrow> 'a Store_scheme" where
  "Cell_setRole c r s =
     (let s1 = upd_cell c (\<lambda>x. x\<lparr>c_role := r\<rparr>) s in set_state_gauge c r (Cell_State c s1) s1)"

definition Cell_setState :: "nat \<Rightarrow> State \<Rightarrow> 'a Store_scheme \<Rightarrow> 'a Store_scheme" where
  "Cell_setState c st s =
     (let s1 = upd_cell c (\<lambda>x. x\<lparr>c_state := st\<rparr>) s in set_state_gauge c (Cell_Role c s1) st s1)"

text \<open>\<open>ReadySince\<close>: the zero time (\<open>None\<close>) until the cell is ready.\<close>

definition Cell_ReadySince :: "nat \<Rightarrow> 'a Store_scheme \<Rightarrow> int option" where
  "Cell_ReadySince c s =
     (let t = c_readyAt (st_cells s c) in if t = 0 then None else Some t)"

definition Cell_markReady :: "nat \<Rightarrow> int \<Rightarrow> 'a Store_scheme \<Rightarrow> 'a Store_scheme" where
  "Cell_markReady c now s =
     (if c_ready (st_cells s c) then s
      else (let s1 = upd_cell c (\<lambda>x. x\<lparr>c_readyAt := now, c_ready := True\<rparr>) s
            in if Cell_State c s1 = StateCreating then Cell_setState c StateStandby s1 else s1))"

text \<open>
  The same function in three steps, for a goroutine that runs beside the watcher: the watcher may
  change the state between the load and the store. \<open>sync.Once\<close> lets the function run once.
\<close>

definition markReady_close :: "nat \<Rightarrow> int \<Rightarrow> 'a Store_scheme \<Rightarrow> 'a Store_scheme" where
  "markReady_close c now s =
     (if c_ready (st_cells s c) then s
      else upd_cell c (\<lambda>x. x\<lparr>c_readyAt := now, c_ready := True, c_readyOnce := BeforeLoad\<rparr>) s)"

definition markReady_load :: "nat \<Rightarrow> 'a Store_scheme \<Rightarrow> 'a Store_scheme" where
  "markReady_load c s =
     (if c_readyOnce (st_cells s c) \<noteq> BeforeLoad then s
      else upd_cell c (\<lambda>x. x\<lparr>c_readyOnce := (if Cell_State c s = StateCreating then BeforeStore else NotRunning)\<rparr>) s)"

definition markReady_store :: "nat \<Rightarrow> 'a Store_scheme \<Rightarrow> 'a Store_scheme" where
  "markReady_store c s =
     (if c_readyOnce (st_cells s c) \<noteq> BeforeStore then s
      else Cell_setState c StateStandby (upd_cell c (\<lambda>x. x\<lparr>c_readyOnce := NotRunning\<rparr>) s))"

definition wg_Add :: "nat \<Rightarrow> 'a Store_scheme \<Rightarrow> 'a Store_scheme" where
  "wg_Add e s = upd_engine e (\<lambda>x. x\<lparr>eng_wg := eng_wg x + 1\<rparr>) s"

definition wg_Done :: "nat \<Rightarrow> 'a Store_scheme \<Rightarrow> 'a Store_scheme" where
  "wg_Done e s = upd_engine e (\<lambda>x. x\<lparr>eng_wg := eng_wg x - 1\<rparr>) s"

text \<open>The second half of \<open>Track\<close>, after the increment: other goroutines may run in between.\<close>

definition Track_check :: "nat \<Rightarrow> nat \<Rightarrow> 'a Store_scheme \<Rightarrow> bool \<times> 'a Store_scheme" where
  "Track_check c e s = (if Cell_Engine c s \<noteq> Some e then (False, wg_Done e s) else (True, s))"

definition Cell_Track :: "nat \<Rightarrow> nat \<Rightarrow> 'a Store_scheme \<Rightarrow> bool \<times> 'a Store_scheme" where
  "Cell_Track c e s = Track_check c e (wg_Add e s)"

definition Cell_Close :: "nat \<Rightarrow> 'a Store_scheme \<Rightarrow> 'a Store_scheme" where
  "Cell_Close c s = upd_cell c (\<lambda>x. x\<lparr>c_closed := True\<rparr>) s"

section \<open>Engine operations\<close>

definition ctx_done :: "nat \<Rightarrow> 'a Store_scheme \<Rightarrow> bool" where
  "ctx_done e s \<longleftrightarrow> eng_cancelled (st_engines s e) \<or> c_closed (st_cells s (eng_parent (st_engines s e)))"

text \<open>\<open>start\<close> marks the cell ready at once when the generation has no discovery plugin; otherwise it
  launches one goroutine per plugin and one that waits for all of them.\<close>

definition Engine_start :: "nat \<Rightarrow> nat \<Rightarrow> int \<Rightarrow> 'a Store_scheme \<Rightarrow> 'a Store_scheme" where
  "Engine_start e c now s =
     (if eng_discovery (st_engines s e) = [] then Cell_markReady c now s
      else upd_engine e (\<lambda>x. x\<lparr>eng_started := True\<rparr>) s)"

text \<open>A round of the \<open>i\<close>-th plugin's goroutine: its notifications reach the cell's datastore.\<close>

definition Engine_discovery_round :: "(EndpointMetadata \<Rightarrow> EndpointMetadata \<Rightarrow> bool) \<Rightarrow> Hub \<Rightarrow>
    nat \<Rightarrow> nat \<Rightarrow> nat \<Rightarrow> 'a Store_scheme \<Rightarrow> 'a Store_scheme" where
  "Engine_discovery_round Equal h e i c s =
     (let ds = eng_discovery (st_engines s e)
      in if eng_started (st_engines s e) \<and> i < length ds then
           (let (evs, d') = discovery_round Equal h (ds ! i)
            in upd_cell c (\<lambda>x. x\<lparr>c_ds := c_ds x @ evs\<rparr>)
                 (upd_engine e (\<lambda>x. x\<lparr>eng_discovery := ds[i := d']\<rparr>) s))
         else s)"

text \<open>The waiting goroutine up to its call of \<open>markReady\<close>: it needs every plugin's ready channel; while one
  is open it either goes on waiting or, when the engine's context has ended, returns.\<close>

definition Engine_await_ready :: "nat \<Rightarrow> nat \<Rightarrow> int \<Rightarrow> 'a Store_scheme \<Rightarrow> 'a Store_scheme" where
  "Engine_await_ready e c now s =
     (if eng_started (st_engines s e) \<and> list_all ready (eng_discovery (st_engines s e))
      then markReady_close c now s else s)"

text \<open>\<open>drain\<close>: the cancellation, and the outcome of the wait (\<open>True\<close> when the counter was down to
  zero, \<open>False\<close> on the timeout) for a counter that does not move during the wait.\<close>

definition Engine_cancel :: "nat \<Rightarrow> 'a Store_scheme \<Rightarrow> 'a Store_scheme" where
  "Engine_cancel e s = upd_engine e (\<lambda>x. x\<lparr>eng_cancelled := True\<rparr>) s"

definition Engine_drain :: "nat \<Rightarrow> 'a Store_scheme \<Rightarrow> bool \<times> 'a Store_scheme" where
  "Engine_drain e s = (let s1 = Engine_cancel e s in (eng_wg (st_engines s1 e) = 0, s1))"

definition HashConfig :: "string \<Rightarrow> string" where
  "HashConfig raw = hex_EncodeToString (Sum256 raw)"

lemma length_HashConfig [simp]: "length (HashConfig raw) = 64"
  by (simp add: HashConfig_def)

section \<open>What each operation touches\<close>

lemmas store_defs = upd_cell_def upd_engine_def upd_metrics_def set_state_gauge_def
  Cell_Engine_def Cell_Role_def Cell_State_def

lemma setRole_cells [simp]:
  "st_cells (Cell_setRole c r s) = (st_cells s)(c := (st_cells s c)\<lparr>c_role := r\<rparr>)"
  by (simp add: Cell_setRole_def store_defs Let_def)

lemma setState_cells [simp]:
  "st_cells (Cell_setState c st s) = (st_cells s)(c := (st_cells s c)\<lparr>c_state := st\<rparr>)"
  by (simp add: Cell_setState_def store_defs Let_def)

lemma setRole_engines [simp, frame]: "st_engines (Cell_setRole c r s) = st_engines s"
  and setState_engines [simp, frame]: "st_engines (Cell_setState c st s) = st_engines s"
  and setRole_more [simp, frame]: "Store.more (Cell_setRole c r s) = Store.more s"
  and setState_more [simp, frame]: "Store.more (Cell_setState c st s) = Store.more s"
  by (simp_all add: Cell_setRole_def Cell_setState_def store_defs Let_def)

lemma markReady_cells [simp]:
  "st_cells (Cell_markReady c now s) =
     (if c_ready (st_cells s c) then st_cells s
      else (st_cells s)(c := (st_cells s c)\<lparr>c_readyAt := now, c_ready := True,
        c_state := (if c_state (st_cells s c) = StateCreating then StateStandby
                    else c_state (st_cells s c))\<rparr>))"
  by (auto simp: Cell_markReady_def Let_def store_defs Cell_setState_def fun_eq_iff)

lemma markReady_engines [simp, frame]: "st_engines (Cell_markReady c now s) = st_engines s"
  and markReady_more [simp, frame]: "Store.more (Cell_markReady c now s) = Store.more s"
  by (simp_all add: Cell_markReady_def Let_def store_defs Cell_setState_def)

lemma markReady_step_cells [simp]:
  "st_cells (markReady_close c now s) =
     (if c_ready (st_cells s c) then st_cells s
      else (st_cells s)(c := (st_cells s c)\<lparr>c_readyAt := now, c_ready := True, c_readyOnce := BeforeLoad\<rparr>))"
  "st_cells (markReady_load c s) =
     (if c_readyOnce (st_cells s c) \<noteq> BeforeLoad then st_cells s
      else (st_cells s)(c := (st_cells s c)\<lparr>c_readyOnce :=
        (if c_state (st_cells s c) = StateCreating then BeforeStore else NotRunning)\<rparr>))"
  "st_cells (markReady_store c s) =
     (if c_readyOnce (st_cells s c) \<noteq> BeforeStore then st_cells s
      else (st_cells s)(c := (st_cells s c)\<lparr>c_readyOnce := NotRunning, c_state := StateStandby\<rparr>))"
  by (simp_all add: markReady_close_def markReady_load_def markReady_store_def upd_cell_def Cell_State_def)

lemma markReady_step_frame [simp, frame]:
  "st_engines (markReady_close c now s) = st_engines s" "Store.more (markReady_close c now s) = Store.more s"
  "st_engines (markReady_load c s) = st_engines s" "Store.more (markReady_load c s) = Store.more s"
  "st_engines (markReady_store c s) = st_engines s" "Store.more (markReady_store c s) = Store.more s"
  by (simp_all add: markReady_close_def markReady_load_def markReady_store_def upd_cell_def)

lemma Close_cells [simp]: "st_cells (Cell_Close c s) = (st_cells s)(c := (st_cells s c)\<lparr>c_closed := True\<rparr>)"
  and Close_engines [simp, frame]: "st_engines (Cell_Close c s) = st_engines s"
  and Close_metrics [simp, frame]: "st_metrics (Cell_Close c s) = st_metrics s"
  and Close_more [simp, frame]: "Store.more (Cell_Close c s) = Store.more s"
  by (simp_all add: Cell_Close_def store_defs)

lemma cancel_engines [simp]:
  "st_engines (Engine_cancel e s) = (st_engines s)(e := (st_engines s e)\<lparr>eng_cancelled := True\<rparr>)"
  and cancel_cells [simp, frame]: "st_cells (Engine_cancel e s) = st_cells s"
  and cancel_metrics [simp, frame]: "st_metrics (Engine_cancel e s) = st_metrics s"
  and cancel_more [simp, frame]: "Store.more (Engine_cancel e s) = Store.more s"
  by (simp_all add: Engine_cancel_def store_defs)

lemma wg_engines [simp]:
  "st_engines (wg_Add e s) = (st_engines s)(e := (st_engines s e)\<lparr>eng_wg := eng_wg (st_engines s e) + 1\<rparr>)"
  "st_engines (wg_Done e s) = (st_engines s)(e := (st_engines s e)\<lparr>eng_wg := eng_wg (st_engines s e) - 1\<rparr>)"
  by (simp_all add: wg_Add_def wg_Done_def store_defs)

lemma wg_frame [simp, frame]:
  "st_cells (wg_Add e s) = st_cells s" "st_cells (wg_Done e s) = st_cells s"
  "st_metrics (wg_Add e s) = st_metrics s" "st_metrics (wg_Done e s) = st_metrics s"
  "Store.more (wg_Add e s) = Store.more s" "Store.more (wg_Done e s) = Store.more s"
  by (simp_all add: wg_Add_def wg_Done_def store_defs)

lemma start_cells [simp]:
  "st_cells (Engine_start e c now s) =
     (if eng_discovery (st_engines s e) = [] then st_cells (Cell_markReady c now s) else st_cells s)"
  by (simp add: Engine_start_def upd_engine_def)

lemma start_engines [simp]:
  "st_engines (Engine_start e c now s) =
     (if eng_discovery (st_engines s e) = [] then st_engines s
      else (st_engines s)(e := (st_engines s e)\<lparr>eng_started := True\<rparr>))"
  by (simp add: Engine_start_def upd_engine_def)

lemma start_more [simp, frame]: "Store.more (Engine_start e c now s) = Store.more s"
  by (simp add: Engine_start_def upd_engine_def)

section \<open>Properties\<close>

text \<open>
  Tracking is balanced. A request is admitted exactly when the engine it loaded is still the
  cell's current one; an admitted request holds the engine's wait group once, and its \<open>done\<close> puts
  the store back; a refused one leaves the store as it was.
\<close>

lemma track_balanced:
  "Cell_Track c e s = (if Cell_Engine c s = Some e then (True, wg_Add e s) else (False, s)) \<and>
   eng_wg (st_engines (wg_Add e s) e) = eng_wg (st_engines s e) + 1 \<and> wg_Done e (wg_Add e s) = s"
  by (simp add: Cell_Track_def Track_check_def wg_Add_def wg_Done_def store_defs)

text \<open>
  A cell becomes ready once. \<open>markReady\<close> records the time of its first call, closes the ready
  channel, moves a cell that is still being created to standby and leaves every other state
  alone; any later call changes nothing.
\<close>

lemma markReady_once:
  "c_ready (st_cells (Cell_markReady c now s) c) \<and>
   c_readyAt (st_cells (Cell_markReady c now s) c) =
     (if c_ready (st_cells s c) then c_readyAt (st_cells s c) else now) \<and>
   c_state (st_cells (Cell_markReady c now s) c) =
     (if \<not> c_ready (st_cells s c) \<and> c_state (st_cells s c) = StateCreating then StateStandby
      else c_state (st_cells s c)) \<and>
   Cell_markReady c later (Cell_markReady c now s) = Cell_markReady c now s"
proof -
  have "c_ready (st_cells (Cell_markReady c now s) c)" by simp
  then have "Cell_markReady c later (Cell_markReady c now s) = Cell_markReady c now s"
    by (subst Cell_markReady_def) simp
  then show ?thesis by simp
qed

text \<open>Run without interruption the three steps are \<open>markReady\<close>.\<close>

lemma markReady_steps:
  assumes "c_readyOnce (st_cells s c) = NotRunning"
  shows "markReady_store c (markReady_load c (markReady_close c now s)) = Cell_markReady c now s"
proof -
  have eq: "x\<lparr>c_readyAt := now, c_ready := True, c_readyOnce := NotRunning\<rparr> = x\<lparr>c_readyAt := now, c_ready := True\<rparr>"
    "x\<lparr>c_readyAt := now, c_ready := True, c_readyOnce := NotRunning, c_state := StateStandby\<rparr> =
     x\<lparr>c_readyAt := now, c_ready := True, c_state := StateStandby\<rparr>"
    if "c_readyOnce x = NotRunning" for x :: Cell using that by simp_all
  show ?thesis
    using assms by (simp add: markReady_store_def markReady_load_def markReady_close_def Cell_markReady_def Cell_setState_def
        store_defs Let_def eq [OF assms])
qed

text \<open>
  The state gauge keeps its old combinations. \<open>setRole\<close> sets the gauge of the new role and the
  current state to 1 and never resets the combination it leaves: a cell that has changed role
  shows 1 for both, although the metric is documented as 1 for the current combination only.
\<close>

lemma state_gauge_keeps_old:
  assumes "Cell_Role c s \<noteq> r"
    and "cellStateGauge (st_metrics s)
      (c_Key (st_cells s c), Role_String (Cell_Role c s), State_String (Cell_State c s)) = 1"
  shows "cellStateGauge (st_metrics (Cell_setRole c r s))
      (c_Key (st_cells s c), Role_String (Cell_Role c s), State_String (Cell_State c s)) = 1 \<and>
    cellStateGauge (st_metrics (Cell_setRole c r s))
      (c_Key (st_cells s c), Role_String r, State_String (Cell_State c s)) = 1"
  using assms by (simp add: Cell_setRole_def store_defs Let_def Role_String_inj)

definition zero_engine :: Engine where
  "zero_engine = \<lparr>eng_Version = '''', eng_fc = False, eng_discovery = [], eng_started = False,
     eng_cancelled = False, eng_wg = 0, eng_parent = 0\<rparr>"

definition zero_cell :: Cell where
  "zero_cell = \<lparr>c_Key = '''', c_ds = [], c_rt = [], c_closed = False, c_engine = None,
     c_role = RoleNone, c_state = StateCreating, c_currentHash = None, c_dataConfigured = False,
     c_ready = False, c_readyAt = 0, c_readyOnce = NotRunning\<rparr>"

definition zero_metrics :: metrics where
  "zero_metrics = \<lparr>engineReloads = (\<lambda>_. 0), engineCurrentVersion = [], cellStateGauge = (\<lambda>_. 0),
     drainDuration = (\<lambda>_. 0)\<rparr>"

definition zero_store :: Store where
  "zero_store = \<lparr>st_cells = (\<lambda>_. zero_cell), st_engines = (\<lambda>_. zero_engine), st_metrics = zero_metrics\<rparr>"

lemmas zero_defs = zero_engine_def zero_cell_def zero_metrics_def zero_store_def

lemma state_gauge_keeps_old_example:
  "cellStateGauge (st_metrics (Cell_setRole 0 RolePrimary (Cell_setRole 0 RoleStandby zero_store)))
      ('''', ''standby'', ''creating'') = 1"
  using state_gauge_keeps_old [of 0 "Cell_setRole 0 RoleStandby zero_store" RolePrimary]
  by (simp add: zero_defs Cell_setRole_def store_defs Let_def)

end
