(* ===== verification/Cell_Compile.thy ===== *)
theory Cell_Compile
  imports Cell_Core
begin

text \<open>
  \<open>pkg/cell/compile.go\<close>: one configuration becomes one engine generation. The stages are calls
  into the engine library (llm-d-router); they are the fields of \<open>llmd\<close>, functions of the model's
  argument, and \<open>Compile\<close> is the sequence in which this program makes them, with what it does on
  each failure and what it writes into the cell. A stage that works on the cell's datalayer
  runtime gets the calls made on that runtime before, since its outcome may depend on them.
  Objects the library builds from values alone (scheduler, director, admission controller,
  streaming server, scope registration) are not represented: nothing in this program reads them.
\<close>

record plugin =
  p_Name :: string
  p_Registrant :: bool
  p_Discovery :: "discovery option"

record rawConfig =
  rc_DataLayer :: "string option option option"

text \<open>\<open>rc_DataLayer\<close> nests the three pointers \<open>DataLayer\<close>, \<open>Discovery\<close> and \<open>Endpoints\<close>; the
  innermost value is \<open>Endpoints.PluginRef\<close>.\<close>

record config =
  cfg_DataConfig :: string
  cfg_FlowControlConfig :: bool

record llmd =
  LoadRawConfig :: "string \<Rightarrow> (rawConfig \<times> (string \<Rightarrow> bool)) result"
  InstantiateAndConfigure :: "rawConfig \<Rightarrow> (config \<times> plugin list) result"
  CreateMissingDataProducers :: "plugin list \<Rightarrow> plugin list result"
  RegisterDeps :: "rt_call list \<Rightarrow> plugin \<Rightarrow> go_error option"
  ValidateAndOrder :: "plugin list \<Rightarrow> go_error option"
  ValidatePluginStability :: "plugin list \<Rightarrow> bool \<Rightarrow> go_error option"
  RtConfigure :: "rt_call list \<Rightarrow> string \<Rightarrow> go_error option"
  HandlePlugin :: "plugin list \<Rightarrow> string \<Rightarrow> plugin option"
  FeatureGate :: string

record Dependencies =
  dep_AllowExperimentalPlugins :: bool

text \<open>The loop over the plugins that register dependencies on the runtime: it stops at the first
  failure.\<close>

fun register_all :: "llmd \<Rightarrow> plugin list \<Rightarrow> rt_call list \<Rightarrow> go_error option \<times> rt_call list" where
  "register_all L [] rt = (None, rt)"
| "register_all L (p # ps) rt =
     (if p_Registrant p then
        (case RegisterDeps L rt p of
           Some err \<Rightarrow>
             (Some (ErrWrap (''plugin '' @ p_Name p @ '' register dependencies'') err),
              rt @ [RegisterDependencies (p_Name p) False])
         | None \<Rightarrow> register_all L ps (rt @ [RegisterDependencies (p_Name p) True]))
      else register_all L ps rt)"

text \<open>The runtime is configured by the first configuration that gets this far, and never again.\<close>

definition configure_runtime :: "llmd \<Rightarrow> config \<Rightarrow> Cell \<Rightarrow> go_error option \<times> Cell" where
  "configure_runtime L cfg c =
     (if c_dataConfigured c then (None, c)
      else (case RtConfigure L (c_rt c) (cfg_DataConfig cfg) of
              Some err \<Rightarrow>
                (Some (ErrWrap ''configure datalayer runtime'' err),
                 c\<lparr>c_rt := c_rt c @ [Configure (cfg_DataConfig cfg) False]\<rparr>)
            | None \<Rightarrow>
                (None, c\<lparr>c_rt := c_rt c @ [Configure (cfg_DataConfig cfg) True],
                         c_dataConfigured := True\<rparr>)))"

text \<open>The verb \<open>%q\<close> (on names with nothing to escape), and the choice of the discovery plugin at the end
  of \<open>Compile\<close>; \<open>handle.Plugin(ref)\<close>, the library's lookup, is \<open>HandlePlugin\<close>.\<close>

definition quoted :: "string \<Rightarrow> string" where
  "quoted s = [CHR 0x22] @ s @ [CHR 0x22]"

definition select_discovery :: "llmd \<Rightarrow> rawConfig \<Rightarrow> plugin list \<Rightarrow> discovery list result" where
  "select_discovery L rc ps =
     (case rc_DataLayer rc of
        Some (Some (Some ref)) \<Rightarrow>
          (case HandlePlugin L ps ref of
             None \<Rightarrow> Inl (ErrMsg (''discovery: no plugin found with name '' @ quoted ref))
           | Some p \<Rightarrow>
               (case p_Discovery p of
                  None \<Rightarrow> Inl (ErrMsg (''discovery: plugin '' @ quoted ref @ '' does not implement EndpointDiscovery''))
                | Some d \<Rightarrow> Inr [d]))
      | _ \<Rightarrow> Inr [])"

definition Compile :: "llmd \<Rightarrow> Dependencies \<Rightarrow> nat \<Rightarrow> string \<Rightarrow> string \<Rightarrow> Cell \<Rightarrow> Engine result \<times> Cell" where
  "Compile L deps cellCtx key raw c =
     (case LoadRawConfig L raw of
        Inl err \<Rightarrow> (Inl (ErrWrap ''decode config'' err), c)
      | Inr (rawConfig, featureGates) \<Rightarrow>
     (case InstantiateAndConfigure L rawConfig of
        Inl err \<Rightarrow> (Inl (ErrWrap ''instantiate plugins'' err), c)
      | Inr (cfg, plugins0) \<Rightarrow>
     (case CreateMissingDataProducers L plugins0 of
        Inl err \<Rightarrow> (Inl (ErrWrap ''create data producers'' err), c)
      | Inr plugins \<Rightarrow>
     (let (regErr, rt) = register_all L plugins (c_rt c); c1 = c\<lparr>c_rt := rt\<rparr> in
     (case regErr of
        Some err \<Rightarrow> (Inl err, c1)
      | None \<Rightarrow>
     (case ValidateAndOrder L plugins of
        Some err \<Rightarrow> (Inl (ErrWrap ''order data dependencies'' err), c1)
      | None \<Rightarrow>
     (case ValidatePluginStability L plugins (dep_AllowExperimentalPlugins deps) of
        Some err \<Rightarrow> (Inl (ErrWrap ''plugin stability'' err), c1)
      | None \<Rightarrow>
     (case configure_runtime L cfg c1 of
        (Some err, c2) \<Rightarrow> (Inl err, c2)
      | (None, c2) \<Rightarrow>
     (case select_discovery L rawConfig plugins of
        Inl err \<Rightarrow> (Inl err, c2)
      | Inr discs \<Rightarrow>
         (Inr \<lparr>eng_Version = HashConfig raw,
               eng_fc = (featureGates (FeatureGate L) \<and> cfg_FlowControlConfig cfg),
               eng_discovery = discs, eng_started = False, eng_cancelled = False,
               eng_wg = 0, eng_parent = cellCtx\<rparr>, c2))))))))))"

text \<open>\<open>makePodListFunc\<close>: the IDs of the pods the datastore lists (\<open>PodList\<close>, library code).\<close>

definition makePodListFunc :: "('ds \<Rightarrow> EndpointMetadata list) \<Rightarrow> 'ds \<Rightarrow> NamespacedName list" where
  "makePodListFunc PodList ds = map ep_ID (PodList ds)"

section \<open>What a compile leaves of the cell\<close>

text \<open>A compile touches the runtime and the flag that says it is configured, nothing else.\<close>

definition same_but_runtime :: "Cell \<Rightarrow> Cell \<Rightarrow> bool" where
  "same_but_runtime c c' \<longleftrightarrow>
     c' = c\<lparr>c_rt := c_rt c', c_dataConfigured := c_dataConfigured c'\<rparr> \<and>
     (c_dataConfigured c \<longrightarrow> c_dataConfigured c')"

lemma same_but_runtime_refl [simp]: "same_but_runtime c c"
  by (simp add: same_but_runtime_def)

lemma same_but_runtime_rt [simp]: "same_but_runtime c (c\<lparr>c_rt := rt\<rparr>)"
  by (simp add: same_but_runtime_def)

lemma same_but_runtimeD:
  assumes "same_but_runtime c c'"
  shows "c_Key c' = c_Key c" "c_ds c' = c_ds c" "c_closed c' = c_closed c" "c_engine c' = c_engine c"
    "c_role c' = c_role c" "c_state c' = c_state c" "c_currentHash c' = c_currentHash c"
    "c_ready c' = c_ready c" "c_readyAt c' = c_readyAt c" "c_readyOnce c' = c_readyOnce c"
proof -
  from assms obtain rt b where "c' = c\<lparr>c_rt := rt, c_dataConfigured := b\<rparr>"
    unfolding same_but_runtime_def by blast
  then show "c_Key c' = c_Key c" "c_ds c' = c_ds c" "c_closed c' = c_closed c" "c_engine c' = c_engine c"
    "c_role c' = c_role c" "c_state c' = c_state c" "c_currentHash c' = c_currentHash c"
    "c_ready c' = c_ready c" "c_readyAt c' = c_readyAt c" "c_readyOnce c' = c_readyOnce c"
    by simp_all
qed

lemma configure_runtime_same: "same_but_runtime c (snd (configure_runtime L cfg (c\<lparr>c_rt := rt\<rparr>)))"
  by (auto simp: configure_runtime_def same_but_runtime_def split: option.split)

lemma Compile_same: "same_but_runtime c (snd (Compile L deps x key raw c))"
  using configure_runtime_same [of c L]
  by (auto simp: Compile_def Let_def split: sum.split prod.split option.split) (metis snd_conv)+

lemma Compile_engine:
  assumes "fst (Compile L deps x key raw c) = Inr eng"
  shows "eng_Version eng = HashConfig raw" "eng_parent eng = x" "\<not> eng_cancelled eng"
    "eng_wg eng = 0" "\<not> eng_started eng"
  using assms by (auto simp: Compile_def Let_def split: sum.splits prod.splits option.splits)

section \<open>The runtime is configured at most once\<close>

definition configured_ok :: "rt_call list \<Rightarrow> nat" where
  "configured_ok rt = length (filter (\<lambda>x. case x of Configure _ ok \<Rightarrow> ok | _ \<Rightarrow> False) rt)"

lemma configured_ok_append [simp]: "configured_ok (xs @ ys) = configured_ok xs + configured_ok ys"
  by (simp add: configured_ok_def)

lemma configured_ok_simps [simp]:
  "configured_ok [] = 0" "configured_ok [RegisterDependencies n b] = 0"
  "configured_ok [Configure d True] = 1" "configured_ok [Configure d False] = 0"
  by (simp_all add: configured_ok_def)

definition rt_inv :: "Cell \<Rightarrow> bool" where
  "rt_inv c \<longleftrightarrow> configured_ok (c_rt c) = (if c_dataConfigured c then 1 else 0)"

lemma register_all_configured: "configured_ok (snd (register_all L ps rt)) = configured_ok rt"
  by (induction L ps rt rule: register_all.induct) (auto split: option.split)

lemma configure_runtime_rt_inv: "rt_inv c \<Longrightarrow> rt_inv (snd (configure_runtime L cfg c))"
  by (auto simp: configure_runtime_def rt_inv_def split: option.split)

lemma rt_inv_registered: "rt_inv c \<Longrightarrow> rt_inv (c\<lparr>c_rt := snd (register_all L ps (c_rt c))\<rparr>)"
  by (simp add: rt_inv_def register_all_configured)

lemma Compile_rt_inv: "rt_inv c \<Longrightarrow> rt_inv (snd (Compile L deps x key raw c))"
  using rt_inv_registered [of c L] configure_runtime_rt_inv [of _ L]
  by (auto simp: Compile_def Let_def split: sum.split prod.split option.split) (metis snd_conv)+

section \<open>Properties\<close>

definition compile_run :: "llmd \<Rightarrow> Dependencies \<Rightarrow> nat \<Rightarrow> string \<Rightarrow> string list \<Rightarrow> Cell \<Rightarrow> Cell" where
  "compile_run L deps x key raws c = fold (\<lambda>raw c. snd (Compile L deps x key raw c)) raws c"

lemma compile_run_rt_inv: "rt_inv c \<Longrightarrow> rt_inv (compile_run L deps x key raws c)"
  unfolding compile_run_def by (induction raws arbitrary: c) (simp_all add: Compile_rt_inv)

definition is_configure :: "rt_call \<Rightarrow> bool" where
  "is_configure x = (case x of Configure _ _ \<Rightarrow> True | _ \<Rightarrow> False)"

lemma register_all_no_configure:
  "filter is_configure (snd (register_all L ps rt)) = filter is_configure rt"
  by (induction L ps rt rule: register_all.induct) (auto simp: is_configure_def split: option.split)

lemma Compile_configured_silent:
  assumes "c_dataConfigured c"
  shows "filter is_configure (c_rt (snd (Compile L deps x key raw c))) = filter is_configure (c_rt c)"
proof -
  have "configure_runtime L cfg (c\<lparr>c_rt := rt\<rparr>) = (None, c\<lparr>c_rt := rt\<rparr>)" for cfg rt
    using assms by (simp add: configure_runtime_def)
  then show ?thesis
    using register_all_no_configure [of L _ "c_rt c"]
    by (auto simp: Compile_def Let_def split: sum.split prod.split option.split) (metis snd_conv)+
qed

text \<open>
  C27. Compiling is contained. Whatever the library's stages return, a compile changes nothing of
  the cell but its runtime and the flag that the runtime is configured; and an engine it returns
  carries the hash of the configuration as its version, hangs on the cell's context, is not
  cancelled, has not been started and holds no request.
\<close>

theorem compile_contained:
  "same_but_runtime c (snd (Compile L deps cellCtx key raw c)) \<and>
   (case fst (Compile L deps cellCtx key raw c) of
      Inl err \<Rightarrow> True
    | Inr eng \<Rightarrow> eng_Version eng = HashConfig raw \<and> eng_parent eng = cellCtx \<and>
        \<not> eng_cancelled eng \<and> \<not> eng_started eng \<and> eng_wg eng = 0)"
  using Compile_same Compile_engine by (auto split: sum.split)

text \<open>
  The cell's datalayer runtime, which rejects a second registration, is configured at most
  once: over any sequence of compiles of a new cell, whatever fails in between, at most one
  \<open>Configure\<close> call succeeds, and exactly one when the cell's flag is set.
\<close>

lemma runtime_configured_once:
  assumes "c_rt c = []" and "\<not> c_dataConfigured c"
  shows "configured_ok (c_rt (compile_run L deps x key raws c)) =
    (if c_dataConfigured (compile_run L deps x key raws c) then 1 else 0)"
proof -
  have "rt_inv c" using assms by (simp add: rt_inv_def)
  then show ?thesis using compile_run_rt_inv unfolding rt_inv_def by blast
qed

text \<open>A library whose configurations name their discovery plugin: ''bad'' refers to a plugin that
  does not exist, every other configuration has none, and all stages succeed.\<close>

definition demo_llmd :: llmd where
  "demo_llmd = \<lparr>LoadRawConfig = (\<lambda>raw. Inr (\<lparr>rc_DataLayer =
        (if raw = ''bad'' then Some (Some (Some ''nope'')) else None)\<rparr>, (\<lambda>_. False))),
     InstantiateAndConfigure = (\<lambda>rc. Inr (\<lparr>cfg_DataConfig = (if rc_DataLayer rc = None then ''v2'' else ''v1''),
        cfg_FlowControlConfig = False\<rparr>, [])),
     CreateMissingDataProducers = Inr, RegisterDeps = (\<lambda>_ _. None), ValidateAndOrder = (\<lambda>_. None),
     ValidatePluginStability = (\<lambda>_ _. None), RtConfigure = (\<lambda>_ _. None),
     HandlePlugin = (\<lambda>ps ref. find (\<lambda>p. p_Name p = ref) ps), FeatureGate = ''flowControl''\<rparr>"

definition demo_deps :: Dependencies where
  "demo_deps = \<lparr>dep_AllowExperimentalPlugins = False\<rparr>"

lemma runtime_configured_once_example:
  "configured_ok (c_rt (compile_run demo_llmd demo_deps 0 ''k'' [''bad'', ''ok''] zero_cell)) = 1"
  using runtime_configured_once [of zero_cell demo_llmd demo_deps 0 "''k''" "[''bad'', ''ok'']"]
  by (simp add: zero_cell_def compile_run_def Compile_def demo_llmd_def Let_def configure_runtime_def
      select_discovery_def)

text \<open>
  C38. A rejected configuration can stay in force in the data plane. When a compile gets past the
  configuration of the runtime and then fails to find its discovery plugin, the caller keeps the
  old engine, but the runtime stays configured with the rejected configuration: no later compile
  of the cell, of whatever configuration, calls \<open>Configure\<close> again.
\<close>

theorem rejected_config_stays_in_runtime:
  assumes "LoadRawConfig L raw = Inr (rc, gates)"
    and "InstantiateAndConfigure L rc = Inr (cfg, plugins0)"
    and "CreateMissingDataProducers L plugins0 = Inr plugins"
    and "register_all L plugins (c_rt c) = (None, rt)"
    and "ValidateAndOrder L plugins = None"
    and "ValidatePluginStability L plugins (dep_AllowExperimentalPlugins deps) = None"
    and "RtConfigure L rt (cfg_DataConfig cfg) = None"
    and "select_discovery L rc plugins = Inl err"
    and "\<not> c_dataConfigured c"
  shows "\<exists>c'. Compile L deps x key raw c = (Inl err, c') \<and>
    last (c_rt c') = Configure (cfg_DataConfig cfg) True \<and>
    (\<forall>raws. filter is_configure (c_rt (compile_run L deps x key raws c')) = filter is_configure (c_rt c'))"
proof -
  define c' where "c' = c\<lparr>c_rt := rt @ [Configure (cfg_DataConfig cfg) True], c_dataConfigured := True\<rparr>"
  have "Compile L deps x key raw c = (Inl err, c')"
    using assms by (simp add: Compile_def configure_runtime_def c'_def)
  moreover have "filter is_configure (c_rt (compile_run L deps x key raws d)) = filter is_configure (c_rt d)"
    if "c_dataConfigured d" for raws d
    using that
  proof (induction raws arbitrary: d)
    case Nil
    then show ?case by (simp add: compile_run_def)
  next
    case (Cons r raws)
    then have "c_dataConfigured (snd (Compile L deps x key r d))"
      using Compile_same [of d L deps x key r] unfolding same_but_runtime_def by blast
    with Cons show ?case
      by (simp add: compile_run_def) (metis Compile_configured_silent)
  qed
  ultimately show ?thesis by (auto simp: c'_def)
qed

theorem rejected_config_stays_in_runtime_witness:
  "\<exists>err c'. Compile demo_llmd demo_deps 0 ''k'' ''bad'' zero_cell = (Inl err, c') \<and>
     filter is_configure (c_rt (compile_run demo_llmd demo_deps 0 ''k'' [''ok''] c')) =
       filter is_configure (c_rt c') \<and> last (c_rt c') = Configure ''v1'' True"
proof -
  have "\<exists>c'. Compile demo_llmd demo_deps 0 ''k'' ''bad'' zero_cell =
      (Inl (ErrMsg (''discovery: no plugin found with name '' @ quoted ''nope'')), c') \<and>
    last (c_rt c') = Configure ''v1'' True \<and>
    (\<forall>raws. filter is_configure (c_rt (compile_run demo_llmd demo_deps 0 ''k'' raws c')) =
       filter is_configure (c_rt c'))"
    using rejected_config_stays_in_runtime [of demo_llmd "''bad''" "\<lparr>rc_DataLayer = Some (Some (Some ''nope''))\<rparr>"
        "\<lambda>_. False" "\<lparr>cfg_DataConfig = ''v1'', cfg_FlowControlConfig = False\<rparr>" "[]" "[]" zero_cell "[]"]
    by (simp add: demo_llmd_def zero_cell_def select_discovery_def)
  then show ?thesis by blast
qed

end
