(* ===== verification/Cell_Manager.thy ===== *)
theory Cell_Manager
  imports Cell_Compile
begin

text \<open>
  \<open>pkg/cell/manager.go\<close>: the registry of cells, their role transitions, the hot swap of engines
  and the drain queue. The manager's state extends the store of \<open>Cell_Core\<close> with the registry
  (\<open>sync.Map\<close>), the buffered drain channel and the allocation counters; its options, fixed at
  construction, are the record \<open>ManagerCfg\<close>. Every operation is a function on that state and
  returns its Go result beside it.

  A drain has two atomic ends with a wait between them: the engine is cancelled
  (\<open>Manager_drain_begin\<close>), then requests finish or the timeout passes, then the task is completed
  (\<open>Manager_drain_end\<close>). \<open>Manager_drain\<close> is the two in sequence; \<open>Engine_Lifecycle\<close> interleaves
  other goroutines between them.
\<close>

definition ErrNotAssigned :: go_error where
  "ErrNotAssigned = ErrSentinel ''cell not assigned to this instance''"

type_synonym CompileFunc = "nat \<Rightarrow> string \<Rightarrow> string \<Rightarrow> Cell \<Rightarrow> Engine result \<times> Cell"

record Options =
  opt_AllowExperimentalPlugins :: bool
  opt_DrainTimeout :: Duration
  opt_DrainWorkers :: int
  opt_Compile :: "CompileFunc option"
  opt_NewCell :: "(string \<Rightarrow> Cell result) option"

record ManagerCfg =
  mc_drainTimeout :: Duration
  mc_drainWorkers :: int
  mc_compile :: CompileFunc
  mc_newCell :: "string \<Rightarrow> Cell result"

record drainTask =
  t_cell :: nat
  t_eng :: nat
  t_teardown :: bool

record Manager = Store +
  m_cells :: "(string, nat) gomap"
  m_drainCh :: "drainTask list"
  m_nextCell :: nat
  m_nextEngine :: nat

definition drainCh_cap :: nat where "drainCh_cap = 64"

definition defaultNewCell :: "string \<Rightarrow> Cell result" where
  "defaultNewCell key = Inr
     \<lparr>c_Key = key, c_ds = [], c_rt = [], c_closed = False, c_engine = None,
      c_role = RoleNone, c_state = StateCreating, c_currentHash = None, c_dataConfigured = False,
      c_ready = False, c_readyAt = 0, c_readyOnce = NotRunning\<rparr>"

definition NewManager :: "llmd \<Rightarrow> Options \<Rightarrow> ManagerCfg \<times> Manager" where
  "NewManager L opts =
     (\<lparr>mc_drainTimeout = (if sint (opt_DrainTimeout opts) \<le> 0 then 60 * Second else opt_DrainTimeout opts),
       mc_drainWorkers = (if opt_DrainWorkers opts \<le> 0 then 4 else opt_DrainWorkers opts),
       mc_compile = (case opt_Compile opts of
           Some f \<Rightarrow> f
         | None \<Rightarrow> Compile L \<lparr>dep_AllowExperimentalPlugins = opt_AllowExperimentalPlugins opts\<rparr>),
       mc_newCell = (case opt_NewCell opts of Some f \<Rightarrow> f | None \<Rightarrow> defaultNewCell)\<rparr>,
      \<lparr>st_cells = (\<lambda>_. zero_cell), st_engines = (\<lambda>_. zero_engine), st_metrics = zero_metrics,
       m_cells = [], m_drainCh = [], m_nextCell = 0, m_nextEngine = 0\<rparr>)"

definition Manager_Get :: "string \<Rightarrow> 'a Manager_scheme \<Rightarrow> nat option" where
  "Manager_Get key m = smap_Load (m_cells m) key"

definition Manager_List :: "'a Manager_scheme \<Rightarrow> nat list" where
  "Manager_List m = smap_Range (m_cells m)"

section \<open>Draining\<close>

definition Manager_drain_begin :: "drainTask \<Rightarrow> 'a Manager_scheme \<Rightarrow> 'a Manager_scheme" where
  "Manager_drain_begin t m = Engine_cancel (t_eng t) m"

definition Manager_drain_end :: "drainTask \<Rightarrow> 'a Manager_scheme \<Rightarrow> 'a Manager_scheme" where
  "Manager_drain_end t m =
     (let key = c_Key (st_cells m (t_cell t));
          m1 = upd_metrics (\<lambda>x. x\<lparr>drainDuration := (drainDuration x)(key := drainDuration x key + 1)\<rparr>) m
      in if t_teardown t then
           (let m2 = Cell_Close (t_cell t) m1
            in m2\<lparr>m_cells := smap_CompareAndDelete (m_cells m2) key (t_cell t)\<rparr>)
         else m1)"

definition Manager_drain :: "drainTask \<Rightarrow> 'a Manager_scheme \<Rightarrow> 'a Manager_scheme" where
  "Manager_drain t m = Manager_drain_end t (Manager_drain_begin t m)"

definition scheduleDrain :: "nat \<Rightarrow> nat \<Rightarrow> bool \<Rightarrow> 'a Manager_scheme \<Rightarrow> 'a Manager_scheme" where
  "scheduleDrain c eng teardown m =
     (let t = \<lparr>t_cell = c, t_eng = eng, t_teardown = teardown\<rparr>
      in case chan_try_send drainCh_cap t (m_drainCh m) of
           Some q \<Rightarrow> m\<lparr>m_drainCh := q\<rparr>
         | None \<Rightarrow> Manager_drain t m)"

text \<open>One iteration of a worker: it takes the oldest task, if any, and drains it.\<close>

definition drainWorker_iter :: "'a Manager_scheme \<Rightarrow> 'a Manager_scheme" where
  "drainWorker_iter m =
     (case chan_recv (m_drainCh m) of
        Some (t, q) \<Rightarrow> Manager_drain t (m\<lparr>m_drainCh := q\<rparr>)
      | None \<Rightarrow> m)"

section \<open>Role transitions\<close>

definition Manager_Promote :: "string \<Rightarrow> 'a Manager_scheme \<Rightarrow> 'a Manager_scheme" where
  "Manager_Promote key m =
     (case Manager_Get key m of
        None \<Rightarrow> m
      | Some c \<Rightarrow>
          if Cell_State c m = StateDraining then m
          else (let m1 = Cell_setRole c RolePrimary m
                in if Cell_State c m1 = StateStandby \<or> Cell_State c m1 = StateCreating
                   then Cell_setState c StatePrimary m1 else m1))"

definition Manager_Demote :: "string \<Rightarrow> 'a Manager_scheme \<Rightarrow> 'a Manager_scheme" where
  "Manager_Demote key m =
     (case Manager_Get key m of
        None \<Rightarrow> m
      | Some c \<Rightarrow>
          if Cell_State c m = StateDraining then m
          else (let m1 = Cell_setRole c RoleStandby m;
                    m2 = (if Cell_State c m1 = StatePrimary then Cell_setState c StateStandby m1 else m1)
                in case Cell_Engine c m2 of
                     Some eng \<Rightarrow> scheduleDrain c eng False m2
                   | None \<Rightarrow> m2))"

definition Manager_Drop :: "string \<Rightarrow> 'a Manager_scheme \<Rightarrow> 'a Manager_scheme" where
  "Manager_Drop key m =
     (case Manager_Get key m of
        None \<Rightarrow> m
      | Some c \<Rightarrow>
          (let m1 = Cell_setState c StateDraining m
           in case Cell_Engine c m1 of
                Some eng \<Rightarrow> scheduleDrain c eng True m1
              | None \<Rightarrow>
                  (let m2 = Cell_Close c m1
                   in m2\<lparr>m_cells := smap_CompareAndDelete (m_cells m2) key c\<rparr>)))"

text \<open>The switch at the end of \<open>Ensure\<close>.\<close>

definition Ensure_role :: "nat \<Rightarrow> string \<Rightarrow> Role \<Rightarrow> 'a Manager_scheme \<Rightarrow> 'a Manager_scheme" where
  "Ensure_role c key role m =
     (if Cell_Role c m = role then m
      else if role = RolePrimary then Manager_Promote key m
      else if role = RoleStandby then
        (if Cell_Role c m = RoleNone then Cell_setRole c RoleStandby m else Manager_Demote key m)
      else m)"

text \<open>The creation branch of \<open>Ensure\<close>: the new cell is stored unless another goroutine was first.\<close>

definition Ensure_create :: "ManagerCfg \<Rightarrow> string \<Rightarrow> 'a Manager_scheme \<Rightarrow> nat result \<times> 'a Manager_scheme" where
  "Ensure_create cfg key m =
     (case mc_newCell cfg key of
        Inl err \<Rightarrow> (Inl (ErrWrap (''create cell '' @ key) err), m)
      | Inr x \<Rightarrow>
          (let nc = m_nextCell m;
               m1 = m\<lparr>st_cells := (st_cells m)(nc := x), m_nextCell := Suc nc\<rparr>;
               m2 = Cell_setState nc StateCreating m1;
               ((actual, loaded), cells) = smap_LoadOrStore (m_cells m2) key nc;
               m3 = m2\<lparr>m_cells := cells\<rparr>
           in if loaded then (Inr actual, Cell_Close nc m3) else (Inr nc, m3)))"

definition Manager_Ensure :: "ManagerCfg \<Rightarrow> string \<Rightarrow> Role \<Rightarrow> 'a Manager_scheme \<Rightarrow>
    nat result \<times> 'a Manager_scheme" where
  "Manager_Ensure cfg key role m =
     (case Manager_Get key m of
        Some c \<Rightarrow> (Inr c, Ensure_role c key role m)
      | None \<Rightarrow>
          (case Ensure_create cfg key m of
             (Inl err, m') \<Rightarrow> (Inl err, m')
           | (Inr c, m') \<Rightarrow> (Inr c, Ensure_role c key role m')))"

section \<open>Applying a configuration\<close>

definition count_reload :: "string \<Rightarrow> string \<Rightarrow> metrics \<Rightarrow> metrics" where
  "count_reload key result x =
     x\<lparr>engineReloads := (engineReloads x)((key, result) := engineReloads x (key, result) + 1)\<rparr>"

definition set_current_version :: "string \<Rightarrow> string \<Rightarrow> metrics \<Rightarrow> metrics" where
  "set_current_version key v x =
     x\<lparr>engineCurrentVersion :=
         AList.update (key, v) 1 (filter (\<lambda>((cluster, _), _). cluster \<noteq> key) (engineCurrentVersion x))\<rparr>"

definition Manager_ApplyConfig :: "ManagerCfg \<Rightarrow> string \<Rightarrow> string \<Rightarrow> int \<Rightarrow> 'a Manager_scheme \<Rightarrow>
    bool result \<times> 'a Manager_scheme" where
  "Manager_ApplyConfig cfg key raw now m =
     (case Manager_Get key m of
        None \<Rightarrow> (Inl ErrNotAssigned, m)
      | Some c \<Rightarrow>
          if Cell_State c m = StateDraining then (Inl ErrNotAssigned, m)
          else (let hash = HashConfig raw in
            if c_currentHash (st_cells m c) = Some hash then (Inr False, m)
            else
              (case mc_compile cfg c key raw (st_cells m c) of
                 (Inl err, x) \<Rightarrow>
                   (Inl err, upd_metrics (count_reload key ''invalid'') (upd_cell c (\<lambda>_. x) m))
               | (Inr eng, x) \<Rightarrow>
                   (let e = m_nextEngine m;
                        m1 = m\<lparr>st_engines := (st_engines m)(e := eng), m_nextEngine := Suc e\<rparr>;
                        old = c_engine x;
                        m2 = upd_cell c (\<lambda>_. x\<lparr>c_engine := Some e, c_currentHash := Some hash\<rparr>) m1;
                        m3 = upd_metrics (\<lambda>y. set_current_version key (eng_Version eng)
                               (count_reload key ''success'' y)) m2;
                        m4 = Engine_start e c now m3
                    in (Inr True,
                        case old of Some o_eng \<Rightarrow> scheduleDrain c o_eng False m4 | None \<Rightarrow> m4)))))"

section \<open>Waiting for readiness\<close>

text \<open>One poll of \<open>WaitReady\<close>, and the whole wait over the states it sees: it succeeds at the first
  poll that finds every listed cell ready; the list of states ends with the deadline.\<close>

fun WaitReady_poll :: "string list \<Rightarrow> 'a Manager_scheme \<Rightarrow> bool" where
  "WaitReady_poll [] m = True"
| "WaitReady_poll (k # ks) m =
     (case Manager_Get k m of
        None \<Rightarrow> False
      | Some c \<Rightarrow> if Cell_Ready c m then WaitReady_poll ks m else False)"

fun Manager_WaitReady :: "string list \<Rightarrow> 'a Manager_scheme list \<Rightarrow> unit result" where
  "Manager_WaitReady ks [] = Inl (ErrMsg ''context deadline exceeded'')"
| "Manager_WaitReady ks (m # ms) = (if WaitReady_poll ks m then Inr () else Manager_WaitReady ks ms)"

lemma WaitReady_poll_iff:
  "WaitReady_poll ks m \<longleftrightarrow> (\<forall>k \<in> set ks. \<exists>c. Manager_Get k m = Some c \<and> Cell_Ready c m)"
  by (induction ks) (auto split: option.splits)

text \<open>The wait succeeds exactly when some poll before the deadline finds every listed cell registered
  and ready, at the same poll.\<close>

lemma WaitReady_iff:
  "Manager_WaitReady ks ms = Inr () \<longleftrightarrow>
     (\<exists>m \<in> set ms. \<forall>k \<in> set ks. \<exists>c. Manager_Get k m = Some c \<and> Cell_Ready c m)"
proof -
  have "Manager_WaitReady ks ms = Inr () \<longleftrightarrow> (\<exists>m \<in> set ms. WaitReady_poll ks m)"
    by (induction ms) simp_all
  then show ?thesis by (simp add: WaitReady_poll_iff)
qed

section \<open>What the operations touch\<close>

lemma upd_mgr_frame [simp, frame]:
  fixes m :: "'a Manager_scheme"
  shows "m_cells (upd_cell c f m) = m_cells m" "m_drainCh (upd_cell c f m) = m_drainCh m"
    "m_nextCell (upd_cell c f m) = m_nextCell m" "m_nextEngine (upd_cell c f m) = m_nextEngine m"
    "m_cells (upd_engine e g m) = m_cells m" "m_drainCh (upd_engine e g m) = m_drainCh m"
    "m_nextCell (upd_engine e g m) = m_nextCell m" "m_nextEngine (upd_engine e g m) = m_nextEngine m"
    "m_cells (upd_metrics h m) = m_cells m" "m_drainCh (upd_metrics h m) = m_drainCh m"
    "m_nextCell (upd_metrics h m) = m_nextCell m" "m_nextEngine (upd_metrics h m) = m_nextEngine m"
  by (simp_all add: upd_cell_def upd_engine_def upd_metrics_def)

lemma upd_store [simp]:
  "st_cells (upd_cell c f m) = (st_cells m)(c := f (st_cells m c))"
  "st_engines (upd_cell c f m) = st_engines m" "st_metrics (upd_cell c f m) = st_metrics m"
  "st_cells (upd_metrics h m) = st_cells m" "st_engines (upd_metrics h m) = st_engines m"
  "st_metrics (upd_metrics h m) = h (st_metrics m)"
  "st_cells (upd_engine e g m) = st_cells m" "st_metrics (upd_engine e g m) = st_metrics m"
  "st_engines (upd_engine e g m) = (st_engines m)(e := g (st_engines m e))"
  by (simp_all add: upd_cell_def upd_metrics_def upd_engine_def)

lemma cell_op_mgr_frame [simp, frame]:
  fixes m :: "'a Manager_scheme"
  shows "m_cells (Cell_setRole c r m) = m_cells m" "m_drainCh (Cell_setRole c r m) = m_drainCh m"
    "m_nextCell (Cell_setRole c r m) = m_nextCell m" "m_nextEngine (Cell_setRole c r m) = m_nextEngine m"
    "m_cells (Cell_setState c st m) = m_cells m" "m_drainCh (Cell_setState c st m) = m_drainCh m"
    "m_nextCell (Cell_setState c st m) = m_nextCell m" "m_nextEngine (Cell_setState c st m) = m_nextEngine m"
    "m_cells (Cell_Close c m) = m_cells m" "m_drainCh (Cell_Close c m) = m_drainCh m"
    "m_nextCell (Cell_Close c m) = m_nextCell m" "m_nextEngine (Cell_Close c m) = m_nextEngine m"
  by (simp_all add: Cell_setRole_def Cell_setState_def Cell_Close_def set_state_gauge_def Let_def)

lemma markReady_mgr_frame [simp, frame]:
  fixes m :: "'a Manager_scheme"
  shows "m_cells (Cell_markReady c now m) = m_cells m" "m_drainCh (Cell_markReady c now m) = m_drainCh m"
    "m_nextCell (Cell_markReady c now m) = m_nextCell m" "m_nextEngine (Cell_markReady c now m) = m_nextEngine m"
  by (simp_all add: Cell_markReady_def Let_def)

lemma markReady_step_mgr_frame [simp, frame]:
  fixes m :: "'a Manager_scheme"
  shows "m_cells (markReady_close c now m) = m_cells m" "m_drainCh (markReady_close c now m) = m_drainCh m"
    "m_nextCell (markReady_close c now m) = m_nextCell m" "m_nextEngine (markReady_close c now m) = m_nextEngine m"
    "m_cells (markReady_load c m) = m_cells m" "m_drainCh (markReady_load c m) = m_drainCh m"
    "m_nextCell (markReady_load c m) = m_nextCell m" "m_nextEngine (markReady_load c m) = m_nextEngine m"
    "m_cells (markReady_store c m) = m_cells m" "m_drainCh (markReady_store c m) = m_drainCh m"
    "m_nextCell (markReady_store c m) = m_nextCell m" "m_nextEngine (markReady_store c m) = m_nextEngine m"
  by (simp_all add: markReady_close_def markReady_load_def markReady_store_def)

lemma engine_op_mgr_frame [simp, frame]:
  fixes m :: "'a Manager_scheme"
  shows "m_cells (Engine_cancel e m) = m_cells m" "m_drainCh (Engine_cancel e m) = m_drainCh m"
    "m_nextCell (Engine_cancel e m) = m_nextCell m" "m_nextEngine (Engine_cancel e m) = m_nextEngine m"
    "m_cells (Engine_start e c now m) = m_cells m" "m_drainCh (Engine_start e c now m) = m_drainCh m"
    "m_nextCell (Engine_start e c now m) = m_nextCell m" "m_nextEngine (Engine_start e c now m) = m_nextEngine m"
    "m_cells (wg_Add e m) = m_cells m" "m_drainCh (wg_Add e m) = m_drainCh m"
    "m_nextCell (wg_Add e m) = m_nextCell m" "m_nextEngine (wg_Add e m) = m_nextEngine m"
    "m_cells (wg_Done e m) = m_cells m" "m_drainCh (wg_Done e m) = m_drainCh m"
    "m_nextCell (wg_Done e m) = m_nextCell m" "m_nextEngine (wg_Done e m) = m_nextEngine m"
  by (simp_all add: Engine_cancel_def Engine_start_def wg_Add_def wg_Done_def)

lemma drain_begin_fields [simp]:
  fixes m :: "'a Manager_scheme"
  shows "st_cells (Manager_drain_begin t m) = st_cells m"
    "st_engines (Manager_drain_begin t m) =
       (st_engines m)(t_eng t := (st_engines m (t_eng t))\<lparr>eng_cancelled := True\<rparr>)"
    "m_cells (Manager_drain_begin t m) = m_cells m" "m_drainCh (Manager_drain_begin t m) = m_drainCh m"
    "m_nextCell (Manager_drain_begin t m) = m_nextCell m"
    "m_nextEngine (Manager_drain_begin t m) = m_nextEngine m"
  by (simp_all add: Manager_drain_begin_def)

lemma drain_end_fields [simp]:
  fixes m :: "'a Manager_scheme"
  shows "st_cells (Manager_drain_end t m) =
       (if t_teardown t then (st_cells m)(t_cell t := (st_cells m (t_cell t))\<lparr>c_closed := True\<rparr>) else st_cells m)"
    "st_engines (Manager_drain_end t m) = st_engines m"
    "m_cells (Manager_drain_end t m) =
       (if t_teardown t then smap_CompareAndDelete (m_cells m) (c_Key (st_cells m (t_cell t))) (t_cell t)
        else m_cells m)"
    "m_drainCh (Manager_drain_end t m) = m_drainCh m"
    "m_nextCell (Manager_drain_end t m) = m_nextCell m"
    "m_nextEngine (Manager_drain_end t m) = m_nextEngine m"
  by (simp_all add: Manager_drain_end_def Let_def)

section \<open>The invariant\<close>

text \<open>
  \<open>infl\<close> are the drain tasks workers have taken and are waiting on. The parts of the invariant:
  the registry is a map whose entries are allocated cells under their own keys; an engine pointer
  of a cell points to an engine of that cell whose version is the stored hash, and a cell without
  an engine has no hash; every task in the
  queue or in flight is about an allocated engine and its own cell, and has cancelled its engine once in flight; the queue is within its capacity; every
  engine that is not current is cancelled or will be (no engine leaks); a cell that is not
  registered is closed (no cell leaks); a draining cell is closed or its teardown is pending; a
  registered cell is open.
\<close>

definition registry_wf :: "'a Manager_scheme \<Rightarrow> bool" where
  "registry_wf m \<longleftrightarrow> gomap_wf (m_cells m) \<and>
     (\<forall>k c. smap_Load (m_cells m) k = Some c \<longrightarrow> c < m_nextCell m \<and> c_Key (st_cells m c) = k)"

definition engines_wf :: "'a Manager_scheme \<Rightarrow> bool" where
  "engines_wf m \<longleftrightarrow>
     (\<forall>c e. c < m_nextCell m \<longrightarrow> c_engine (st_cells m c) = Some e \<longrightarrow>
        e < m_nextEngine m \<and> eng_parent (st_engines m e) = c \<and>
        c_currentHash (st_cells m c) = Some (eng_Version (st_engines m e))) \<and>
     (\<forall>c < m_nextCell m. c_engine (st_cells m c) = None \<longrightarrow> c_currentHash (st_cells m c) = None) \<and>
     (\<forall>e < m_nextEngine m. eng_parent (st_engines m e) < m_nextCell m)"

definition task_wf :: "'a Manager_scheme \<Rightarrow> drainTask \<Rightarrow> bool" where
  "task_wf m t \<longleftrightarrow> t_eng t < m_nextEngine m \<and> t_cell t = eng_parent (st_engines m (t_eng t))"

definition tasks_wf :: "drainTask list \<Rightarrow> 'a Manager_scheme \<Rightarrow> bool" where
  "tasks_wf infl m \<longleftrightarrow> (\<forall>t \<in> set (m_drainCh m) \<union> set infl. task_wf m t) \<and>
     (\<forall>t \<in> set infl. eng_cancelled (st_engines m (t_eng t))) \<and> length (m_drainCh m) \<le> drainCh_cap"

definition no_engine_leak :: "'a Manager_scheme \<Rightarrow> bool" where
  "no_engine_leak m \<longleftrightarrow> (\<forall>e < m_nextEngine m.
     c_engine (st_cells m (eng_parent (st_engines m e))) = Some e \<or> eng_cancelled (st_engines m e) \<or>
     (\<exists>t \<in> set (m_drainCh m). t_eng t = e))"

definition no_cell_leak :: "'a Manager_scheme \<Rightarrow> bool" where
  "no_cell_leak m \<longleftrightarrow> (\<forall>c < m_nextCell m.
     smap_Load (m_cells m) (c_Key (st_cells m c)) = Some c \<or> c_closed (st_cells m c))"

definition draining_pending :: "drainTask list \<Rightarrow> 'a Manager_scheme \<Rightarrow> bool" where
  "draining_pending infl m \<longleftrightarrow> (\<forall>c < m_nextCell m. c_state (st_cells m c) = StateDraining \<longrightarrow>
     c_closed (st_cells m c) \<or> (\<exists>t \<in> set (m_drainCh m) \<union> set infl. t_teardown t \<and> t_cell t = c))"

text \<open>A teardown of the cell is queued or under way.\<close>

definition tearing :: "drainTask list \<Rightarrow> 'a Manager_scheme \<Rightarrow> nat \<Rightarrow> bool" where
  "tearing infl m c \<longleftrightarrow> (\<exists>t \<in> set (m_drainCh m) \<union> set infl. t_teardown t \<and> t_cell t = c)"

definition registered_open :: "'a Manager_scheme \<Rightarrow> bool" where
  "registered_open m \<longleftrightarrow>
     (\<forall>k c. smap_Load (m_cells m) k = Some c \<longrightarrow> \<not> c_closed (st_cells m c))"

definition mgr_inv :: "drainTask list \<Rightarrow> 'a Manager_scheme \<Rightarrow> bool" where
  "mgr_inv infl m \<longleftrightarrow> registry_wf m \<and> engines_wf m \<and> tasks_wf infl m \<and> no_engine_leak m \<and>
     no_cell_leak m \<and> draining_pending infl m \<and> registered_open m"

lemmas mgr_inv_defs = mgr_inv_def registry_wf_def engines_wf_def task_wf_def tasks_wf_def
  no_engine_leak_def no_cell_leak_def draining_pending_def registered_open_def

lemma registry_wfI:
  assumes "gomap_wf (m_cells m)"
    and "\<And>k c. smap_Load (m_cells m) k = Some c \<Longrightarrow> c < m_nextCell m"
    and "\<And>k c. smap_Load (m_cells m) k = Some c \<Longrightarrow> c_Key (st_cells m c) = k"
  shows "registry_wf m"
  using assms unfolding registry_wf_def by blast

lemma registry_wfD:
  assumes "registry_wf m"
  shows "gomap_wf (m_cells m)" "smap_Load (m_cells m) k = Some c \<Longrightarrow> c < m_nextCell m"
    "smap_Load (m_cells m) k = Some c \<Longrightarrow> c_Key (st_cells m c) = k"
  using assms unfolding registry_wf_def by blast+

text \<open>The invariant reads only part of the objects; whatever keeps that part keeps the invariant.\<close>

definition cell_view :: "Cell \<Rightarrow> string \<times> nat option \<times> string option \<times> bool \<times> bool" where
  "cell_view x = (c_Key x, c_engine x, c_currentHash x, c_closed x, c_state x = StateDraining)"

definition eng_view :: "Engine \<Rightarrow> nat \<times> string \<times> bool" where
  "eng_view x = (eng_parent x, eng_Version x, eng_cancelled x)"

lemma cell_viewD:
  assumes "cell_view x = cell_view y"
  shows "c_Key x = c_Key y" "c_engine x = c_engine y" "c_currentHash x = c_currentHash y"
    "c_closed x = c_closed y" "c_state x = StateDraining \<longleftrightarrow> c_state y = StateDraining"
  using assms by (simp_all add: cell_view_def)

lemma eng_viewD:
  assumes "eng_view x = eng_view y"
  shows "eng_parent x = eng_parent y" "eng_Version x = eng_Version y" "eng_cancelled x = eng_cancelled y"
  using assms by (simp_all add: eng_view_def)

lemma mgr_inv_cong [keeps]:
  assumes "mgr_inv infl m"
    and "\<And>c. cell_view (st_cells m' c) = cell_view (st_cells m c)"
    and "\<And>e. eng_view (st_engines m' e) = eng_view (st_engines m e)"
    and "m_cells m' = m_cells m" "m_drainCh m' = m_drainCh m"
    and "m_nextCell m' = m_nextCell m" "m_nextEngine m' = m_nextEngine m"
  shows "mgr_inv infl m'"
proof -
  note c = cell_viewD [OF assms(2)] and e = eng_viewD [OF assms(3)]
  show ?thesis using assms(1) unfolding mgr_inv_defs c e assms(4-7) .
qed

lemma mgr_inv_NewManager [keeps]: "mgr_inv [] (snd (NewManager L opts))"
  by (simp add: NewManager_def mgr_inv_defs smap_Load_def)

lemma setRole_inv [keeps]: "mgr_inv infl m \<Longrightarrow> mgr_inv infl (Cell_setRole c r m)"
  by (erule mgr_inv_cong) (simp_all add: cell_view_def)

lemma setState_inv [keeps]:
  "mgr_inv infl m \<Longrightarrow> st \<noteq> StateDraining \<Longrightarrow> c_state (st_cells m c) \<noteq> StateDraining \<Longrightarrow>
     mgr_inv infl (Cell_setState c st m)"
  by (erule mgr_inv_cong) (simp_all add: cell_view_def)

lemma markReady_inv [keeps]: "mgr_inv infl m \<Longrightarrow> mgr_inv infl (Cell_markReady c now m)"
  by (erule mgr_inv_cong) (simp_all add: cell_view_def)

text \<open>The invariant reads of the state only whether it is draining; leaving that state keeps it.\<close>

lemma leave_draining_inv:
  assumes "mgr_inv infl m"
    and c: "\<And>c. c_Key (st_cells m' c) = c_Key (st_cells m c)" "\<And>c. c_engine (st_cells m' c) = c_engine (st_cells m c)"
    "\<And>c. c_currentHash (st_cells m' c) = c_currentHash (st_cells m c)" "\<And>c. c_closed (st_cells m' c) = c_closed (st_cells m c)"
    and "\<And>c. c_state (st_cells m' c) = StateDraining \<Longrightarrow> c_state (st_cells m c) = StateDraining"
    and e: "st_engines m' = st_engines m" "m_cells m' = m_cells m" "m_drainCh m' = m_drainCh m"
    "m_nextCell m' = m_nextCell m" "m_nextEngine m' = m_nextEngine m"
  shows "mgr_inv infl m'"
proof -
  have "draining_pending infl m'"
    using assms(1,6) unfolding mgr_inv_def draining_pending_def c e by blast
  moreover have "registry_wf m' = registry_wf m" "engines_wf m' = engines_wf m" "tasks_wf infl m' = tasks_wf infl m"
    "no_engine_leak m' = no_engine_leak m" "no_cell_leak m' = no_cell_leak m" "registered_open m' = registered_open m"
    by (simp_all only: registry_wf_def engines_wf_def tasks_wf_def task_wf_def no_engine_leak_def no_cell_leak_def
        registered_open_def c e)
  ultimately show ?thesis using assms(1) by (simp add: mgr_inv_def)
qed

lemma markReady_step_inv [keeps]:
  assumes "mgr_inv infl m"
  shows "mgr_inv infl (markReady_close c now m)" "mgr_inv infl (markReady_load c m)" "mgr_inv infl (markReady_store c m)"
proof -
  show "mgr_inv infl (markReady_close c now m)" "mgr_inv infl (markReady_load c m)"
    by (rule mgr_inv_cong [OF assms]; simp add: cell_view_def)+
  show "mgr_inv infl (markReady_store c m)"
    by (rule leave_draining_inv [OF assms]) (simp_all split: if_splits)
qed

lemma wg_inv [keeps]: "mgr_inv infl m \<Longrightarrow> mgr_inv infl (wg_Add e m)"
  "mgr_inv infl m \<Longrightarrow> mgr_inv infl (wg_Done e m)"
  by (erule mgr_inv_cong, simp_all add: eng_view_def)+

lemma start_inv [keeps]: "mgr_inv infl m \<Longrightarrow> mgr_inv infl (Engine_start e c now m)"
  by (erule mgr_inv_cong) (simp_all add: cell_view_def eng_view_def)

lemma metrics_inv [keeps]: "mgr_inv infl m \<Longrightarrow> mgr_inv infl (upd_metrics h m)"
  by (erule mgr_inv_cong) simp_all

lemma Load_CompareAndDelete [simp]:
  "smap_Load (smap_CompareAndDelete m k v) j = (if smap_Load m k = Some v \<and> j = k then None else smap_Load m j)"
  by (simp add: smap_CompareAndDelete_def smap_Load_def delete_conv')

lemma wf_CompareAndDelete [simp]: "gomap_wf m \<Longrightarrow> gomap_wf (smap_CompareAndDelete m k v)"
  by (rule smap.cad_inv)

lemma drain_begin_inv [keeps]:
  assumes "mgr_inv infl m" "task_wf m t"
  shows "mgr_inv (t # infl) (Manager_drain_begin t m)"
proof -
  have "registry_wf (Manager_drain_begin t m)" "no_cell_leak (Manager_drain_begin t m)"
    "registered_open (Manager_drain_begin t m)"
    using assms(1) by (simp_all add: mgr_inv_def registry_wf_def no_cell_leak_def registered_open_def)
  moreover have "engines_wf (Manager_drain_begin t m)" "no_engine_leak (Manager_drain_begin t m)"
    using assms(1) by (auto simp: mgr_inv_def engines_wf_def no_engine_leak_def)
  moreover have "tasks_wf (t # infl) (Manager_drain_begin t m)"
    using assms by (auto simp: mgr_inv_def tasks_wf_def task_wf_def)
  moreover have "draining_pending (t # infl) (Manager_drain_begin t m)"
    using assms by (auto simp: mgr_inv_def draining_pending_def)
  ultimately show ?thesis by (simp add: mgr_inv_def)
qed

text \<open>Taking a task from the queue hands it from the queue to the tasks in flight.\<close>

lemma drain_take_inv [keeps]:
  assumes "mgr_inv infl m" "m_drainCh m = t # q"
  shows "mgr_inv (t # infl) (Manager_drain_begin t (m\<lparr>m_drainCh := q\<rparr>))"
proof -
  let ?m = "Manager_drain_begin t (m\<lparr>m_drainCh := q\<rparr>)"
  have "registry_wf ?m" "no_cell_leak ?m" "registered_open ?m"
    using assms(1) by (simp_all add: mgr_inv_def registry_wf_def no_cell_leak_def registered_open_def)
  moreover have "engines_wf ?m" "no_engine_leak ?m"
    using assms by (auto simp: mgr_inv_def engines_wf_def no_engine_leak_def)
  moreover have "tasks_wf (t # infl) ?m"
    using assms by (auto simp: mgr_inv_def tasks_wf_def task_wf_def)
  moreover have "draining_pending (t # infl) ?m"
    using assms by (auto simp: mgr_inv_def draining_pending_def)
  ultimately show ?thesis by (simp add: mgr_inv_def)
qed

lemma drain_end_inv [keeps]:
  assumes "mgr_inv infl m" "t \<in> set infl"
  shows "mgr_inv (remove1 t infl) (Manager_drain_end t m)"
proof -
  let ?m = "Manager_drain_end t m"
  have td: "task_wf m t" using assms by (auto simp: mgr_inv_def tasks_wf_def)
  have sub: "set (remove1 t infl) \<subseteq> set infl" by (rule set_remove1_subset)
  have reg: "registry_wf m" "no_cell_leak m" "registered_open m" using assms(1) by (simp_all add: mgr_inv_def)
  have "registry_wf ?m"
    by (rule registry_wfI) (auto dest: registry_wfD(2,3) [OF reg(1)] simp: registry_wfD(1) [OF reg(1)] split: if_splits)
  moreover have "no_cell_leak ?m" using reg(2) by (fastforce simp: no_cell_leak_def)
  moreover have "registered_open ?m"
    using reg(3) by (auto simp: registered_open_def dest: registry_wfD(3) [OF reg(1)] split: if_splits)
  moreover have "engines_wf ?m" "no_engine_leak ?m"
    using assms by (auto simp: mgr_inv_def engines_wf_def no_engine_leak_def)
  moreover have "tasks_wf (remove1 t infl) ?m"
    using assms sub by (auto simp: mgr_inv_def tasks_wf_def task_wf_def)
  moreover have "draining_pending (remove1 t infl) ?m"
    unfolding draining_pending_def
  proof (intro allI impI)
    fix c assume c: "c < m_nextCell ?m" "c_state (st_cells ?m c) = StateDraining"
    then have "c_closed (st_cells m c) \<or> (\<exists>u \<in> set (m_drainCh m) \<union> set infl. t_teardown u \<and> t_cell u = c)"
      using assms(1) by (auto simp: mgr_inv_def draining_pending_def split: if_splits)
    moreover have "c_closed (st_cells m c) \<Longrightarrow> c_closed (st_cells ?m c)" by simp
    moreover have "t_teardown t \<and> t_cell t = c \<Longrightarrow> c_closed (st_cells ?m c)" by simp
    moreover have "u \<in> set infl \<Longrightarrow> u \<noteq> t \<Longrightarrow> u \<in> set (remove1 t infl)" for u
      by simp
    ultimately show "c_closed (st_cells ?m c) \<or>
        (\<exists>u \<in> set (m_drainCh ?m) \<union> set (remove1 t infl). t_teardown u \<and> t_cell u = c)"
      unfolding drain_end_fields(4) by blast
  qed
  ultimately show ?thesis by (simp add: mgr_inv_def)
qed

lemma drain_inv [keeps]: "mgr_inv infl m \<Longrightarrow> task_wf m t \<Longrightarrow> mgr_inv infl (Manager_drain t m)"
  using drain_end_inv [OF drain_begin_inv, of infl m t t] by (simp add: Manager_drain_def)

lemma drainWorker_iter_inv [keeps]: "mgr_inv infl m \<Longrightarrow> mgr_inv infl (drainWorker_iter m)"
  using drain_end_inv [OF drain_take_inv, of infl m "hd (m_drainCh m)" "tl (m_drainCh m)" "hd (m_drainCh m)"]
  by (cases "m_drainCh m") (simp_all add: drainWorker_iter_def Manager_drain_def)

subsection \<open>Scheduling a drain\<close>

text \<open>
  Two things can be asked of \<open>scheduleDrain\<close>: to drain an engine that has just been replaced, or to
  tear down a cell whose state has just become draining. Either way the state before the call
  satisfies the invariant up to the pending work the call adds.
\<close>

abbreviation mk_task :: "nat \<Rightarrow> nat \<Rightarrow> bool \<Rightarrow> drainTask" where
  "mk_task c e td \<equiv> \<lparr>t_cell = c, t_eng = e, t_teardown = td\<rparr>"

lemma scheduleDrain_cases:
  obtains (queued) "length (m_drainCh m) < drainCh_cap"
      "scheduleDrain c e td m = m\<lparr>m_drainCh := m_drainCh m @ [mk_task c e td]\<rparr>"
  | (synchronous) "drainCh_cap \<le> length (m_drainCh m)" "scheduleDrain c e td m = Manager_drain (mk_task c e td) m"
  by (cases "length (m_drainCh m) < drainCh_cap") (auto simp: scheduleDrain_def chan_try_send_def Let_def)

definition owes_drain :: "drainTask list \<Rightarrow> drainTask \<Rightarrow> 'a Manager_scheme \<Rightarrow> bool" where
  "owes_drain infl t m \<longleftrightarrow> registry_wf m \<and> engines_wf m \<and> tasks_wf infl m \<and> task_wf m t \<and>
     (\<forall>e < m_nextEngine m. e \<noteq> t_eng t \<longrightarrow>
        c_engine (st_cells m (eng_parent (st_engines m e))) = Some e \<or> eng_cancelled (st_engines m e) \<or>
        (\<exists>u \<in> set (m_drainCh m). t_eng u = e)) \<and>
     no_cell_leak m \<and>
     (\<forall>c < m_nextCell m. c_state (st_cells m c) = StateDraining \<longrightarrow> \<not> (t_teardown t \<and> t_cell t = c) \<longrightarrow>
        c_closed (st_cells m c) \<or> (\<exists>u \<in> set (m_drainCh m) \<union> set infl. t_teardown u \<and> t_cell u = c)) \<and>
     registered_open m"

lemma mgr_inv_owes: "mgr_inv infl m \<Longrightarrow> task_wf m t \<Longrightarrow> owes_drain infl t m"
  by (simp add: mgr_inv_def owes_drain_def no_engine_leak_def draining_pending_def)

lemma owes_queued:
  assumes "owes_drain infl t m" "length (m_drainCh m) < drainCh_cap"
  shows "mgr_inv infl (m\<lparr>m_drainCh := m_drainCh m @ [t]\<rparr>)"
proof -
  let ?m = "m\<lparr>m_drainCh := m_drainCh m @ [t]\<rparr>"
  have "registry_wf ?m" "no_cell_leak ?m" "registered_open ?m"
    using assms by (simp_all add: owes_drain_def registry_wf_def no_cell_leak_def registered_open_def)
  moreover have "engines_wf ?m" using assms by (simp add: owes_drain_def engines_wf_def)
  moreover have "tasks_wf infl ?m"
    using assms by (auto simp: owes_drain_def tasks_wf_def task_wf_def)
  moreover have "no_engine_leak ?m"
    using assms by (auto simp: owes_drain_def no_engine_leak_def)
  moreover have "draining_pending infl ?m"
    using assms by (fastforce simp: owes_drain_def draining_pending_def)
  ultimately show ?thesis by (simp add: mgr_inv_def)
qed

lemma owes_begin:
  assumes "owes_drain infl t m"
  shows "mgr_inv (t # infl) (Manager_drain_begin t m)"
proof -
  let ?m = "Manager_drain_begin t m"
  have "registry_wf ?m" "no_cell_leak ?m" "registered_open ?m"
    using assms by (simp_all add: owes_drain_def registry_wf_def no_cell_leak_def registered_open_def)
  moreover have "engines_wf ?m" "no_engine_leak ?m"
    using assms by (auto simp: owes_drain_def engines_wf_def no_engine_leak_def)
  moreover have "tasks_wf (t # infl) ?m"
    using assms by (auto simp: owes_drain_def tasks_wf_def task_wf_def)
  moreover have "draining_pending (t # infl) ?m"
    using assms by (fastforce simp: owes_drain_def draining_pending_def)
  ultimately show ?thesis by (simp add: mgr_inv_def)
qed

lemma scheduleDrain_inv [keeps]:
  assumes "owes_drain infl (mk_task c e td) m"
  shows "mgr_inv infl (scheduleDrain c e td m)"
proof (cases rule: scheduleDrain_cases [of m c e td])
  case queued
  with owes_queued [OF assms] show ?thesis by simp
next
  case synchronous
  then show ?thesis
    using drain_end_inv [OF owes_begin [OF assms], of "mk_task c e td"] by (simp add: Manager_drain_def)
qed

subsection \<open>Role transitions\<close>

lemma Promote_inv [keeps]: "mgr_inv infl m \<Longrightarrow> mgr_inv infl (Manager_Promote key m)"
  by (auto simp: Manager_Promote_def Let_def Cell_State_def keeps split: option.split)

lemma current_task_wf:
  assumes "mgr_inv infl m" "Manager_Get key m = Some c" "Cell_Engine c m = Some e"
  shows "task_wf m (mk_task c e False)"
  using assms by (auto simp: mgr_inv_def engines_wf_def task_wf_def Manager_Get_def Cell_Engine_def
      dest: registry_wfD(2))

lemma Demote_inv [keeps]:
  assumes "mgr_inv infl m"
  shows "mgr_inv infl (Manager_Demote key m)"
proof (cases "Manager_Get key m")
  case None
  with assms show ?thesis by (simp add: Manager_Demote_def)
next
  case (Some c)
  define m2 where "m2 = (let m1 = Cell_setRole c RoleStandby m
    in if Cell_State c m1 = StatePrimary then Cell_setState c StateStandby m1 else m1)"
  have inv: "mgr_inv infl m2"
    using assms by (auto simp: m2_def Let_def Cell_State_def keeps)
  have get: "Manager_Get key m2 = Some c"
    using Some by (simp add: m2_def Manager_Get_def Let_def)
  have "mgr_inv infl (scheduleDrain c e False m2)" if "Cell_Engine c m2 = Some e" for e
    using scheduleDrain_inv mgr_inv_owes inv current_task_wf [OF inv get that] by blast
  moreover have "Manager_Demote key m = (if Cell_State c m = StateDraining then m
      else case Cell_Engine c m2 of Some eng \<Rightarrow> scheduleDrain c eng False m2 | None \<Rightarrow> m2)"
    using Some by (simp only: Manager_Demote_def m2_def Let_def option.case)
  ultimately show ?thesis using assms inv by (simp split: option.split)
qed

text \<open>After \<open>setState(StateDraining)\<close> only the teardown of that cell is missing.\<close>

lemma setDraining_owes:
  assumes inv: "mgr_inv infl m" and get: "Manager_Get key m = Some c" and eng: "c_engine (st_cells m c) = Some e"
  shows "owes_drain infl (mk_task c e True) (Cell_setState c StateDraining m)"
proof -
  let ?m = "Cell_setState c StateDraining m"
  have c: "c < m_nextCell m"
    using inv get by (auto simp: mgr_inv_def Manager_Get_def dest: registry_wfD(2))
  have "registry_wf ?m"
    using inv by (intro registry_wfI) (auto simp: mgr_inv_def dest: registry_wfD)
  moreover have "engines_wf ?m" "no_cell_leak ?m" "registered_open ?m" "tasks_wf infl ?m"
    using inv by (auto simp: mgr_inv_def engines_wf_def no_cell_leak_def registered_open_def
        tasks_wf_def task_wf_def)
  moreover have "task_wf ?m (mk_task c e True)"
    using inv c eng by (auto simp: mgr_inv_def engines_wf_def task_wf_def)
  moreover have "\<forall>e < m_nextEngine ?m. c_engine (st_cells ?m (eng_parent (st_engines ?m e))) = Some e \<or>
      eng_cancelled (st_engines ?m e) \<or> (\<exists>u \<in> set (m_drainCh ?m). t_eng u = e)"
    using inv by (auto simp: mgr_inv_def no_engine_leak_def)
  moreover have "\<forall>d < m_nextCell ?m. c_state (st_cells ?m d) = StateDraining \<longrightarrow> d \<noteq> c \<longrightarrow>
      c_closed (st_cells ?m d) \<or> (\<exists>u \<in> set (m_drainCh ?m) \<union> set infl. t_teardown u \<and> t_cell u = d)"
    using inv by (auto simp: mgr_inv_def draining_pending_def)
  ultimately show ?thesis by (auto simp: owes_drain_def)
qed

lemma drop_bare_inv:
  assumes inv: "mgr_inv infl m" and get: "Manager_Get key m = Some c"
  shows "mgr_inv infl ((Cell_Close c (Cell_setState c StateDraining m))
           \<lparr>m_cells := smap_CompareAndDelete (m_cells m) key c\<rparr>)" (is "mgr_inv infl ?m")
proof -
  have load: "smap_Load (m_cells m) key = Some c" using get by (simp add: Manager_Get_def)
  have reg: "registry_wf m" using inv by (simp add: mgr_inv_def)
  have "registry_wf ?m"
    by (rule registry_wfI) (auto dest: registry_wfD(2,3) [OF reg] simp: registry_wfD(1) [OF reg] split: if_splits)
  moreover have "engines_wf ?m" "no_engine_leak ?m"
    using inv by (auto simp: mgr_inv_def engines_wf_def no_engine_leak_def)
  moreover have "tasks_wf infl ?m"
    using inv by (auto simp: mgr_inv_def tasks_wf_def task_wf_def)
  moreover have "no_cell_leak ?m"
    using inv load registry_wfD(3) [OF reg load] by (auto simp: mgr_inv_def no_cell_leak_def)
  moreover have "draining_pending infl ?m"
    using inv by (auto simp: mgr_inv_def draining_pending_def split: if_splits)
  moreover have "registered_open ?m"
    using inv load by (auto simp: mgr_inv_def registered_open_def
        dest: registry_wfD(3) [OF reg] split: if_splits)
  ultimately show ?thesis by (simp add: mgr_inv_def)
qed

lemma Drop_inv [keeps]:
  assumes "mgr_inv infl m"
  shows "mgr_inv infl (Manager_Drop key m)"
proof (cases "Manager_Get key m")
  case None
  with assms show ?thesis by (simp add: Manager_Drop_def)
next
  case (Some c)
  show ?thesis
  proof (cases "c_engine (st_cells m c)")
    case None
    with Some drop_bare_inv [OF assms Some] show ?thesis
      by (simp add: Manager_Drop_def Let_def Cell_Engine_def)
  next
    case (Some e)
    with \<open>Manager_Get key m = Some c\<close> show ?thesis
      using scheduleDrain_inv [OF setDraining_owes [OF assms _ Some]]
      by (simp add: Manager_Drop_def Let_def Cell_Engine_def)
  qed
qed

lemma Ensure_role_inv [keeps]: "mgr_inv infl m \<Longrightarrow> mgr_inv infl (Ensure_role c key role m)"
  by (simp add: Ensure_role_def keeps)

section \<open>What the manager needs of its compile and new-cell functions\<close>

text \<open>
  The two injectable functions of the options. A compile leaves the cell alone except for its
  runtime, and returns a fresh engine of that cell whose version is the hash of the configuration;
  a new cell is open, in no role, with no engine, under the key it was asked for. The production
  functions \<open>Compile\<close> and \<open>defaultNewCell\<close> satisfy this (the interpretation below), so everything
  proved here holds of the manager the program builds.
\<close>

locale manager_env =
  fixes cfg :: ManagerCfg
  assumes compile_same: "same_but_runtime x (snd (mc_compile cfg c key raw x))"
    and compile_engine: "fst (mc_compile cfg c key raw x) = Inr eng \<Longrightarrow>
          eng_Version eng = HashConfig raw \<and> eng_parent eng = c \<and> \<not> eng_cancelled eng \<and>
          eng_wg eng = 0 \<and> \<not> eng_started eng"
    and newCell_fresh: "mc_newCell cfg key = Inr x \<Longrightarrow>
          c_Key x = key \<and> c_engine x = None \<and> c_currentHash x = None \<and> c_role x = RoleNone \<and> \<not> c_closed x"
begin

lemma create_inv:
  assumes inv: "mgr_inv infl m"
  shows "mgr_inv infl (snd (Ensure_create cfg key m))"
proof (cases "mc_newCell cfg key")
  case (Inl err)
  with inv show ?thesis by (simp add: Ensure_create_def)
next
  case (Inr x)
  note x = newCell_fresh [OF Inr]
  let ?nc = "m_nextCell m"
  define m2 where "m2 = Cell_setState ?nc StateCreating
      (m\<lparr>st_cells := (st_cells m)(?nc := x), m_nextCell := Suc ?nc\<rparr>)"
  have f: "m_cells m2 = m_cells m" "m_drainCh m2 = m_drainCh m" "m_nextEngine m2 = m_nextEngine m"
    "st_engines m2 = st_engines m" "m_nextCell m2 = Suc ?nc"
    "st_cells m2 = (st_cells m)(?nc := x\<lparr>c_state := StateCreating\<rparr>)"
    by (simp_all add: m2_def)
  note parts = inv [unfolded mgr_inv_def]
  have old: "c \<noteq> ?nc" if "smap_Load (m_cells m) k = Some c" for k c
    using parts registry_wfD(2) that by blast
  have eold: "eng_parent (st_engines m e) \<noteq> ?nc" if "e < m_nextEngine m" for e
    using parts that by (auto simp: engines_wf_def)
  have eng: "engines_wf m2" "no_engine_leak m2"
    using parts x eold by (auto simp: f engines_wf_def no_engine_leak_def less_Suc_eq)
  have tasks: "tasks_wf infl m2"
    using parts eold by (auto simp: f tasks_wf_def task_wf_def)
  have pend: "draining_pending infl m2"
    using parts by (auto simp: f draining_pending_def less_Suc_eq)
  show ?thesis
  proof (cases "smap_Load (m_cells m) key")
    case None
    have cell: "fst (smap_LoadOrStore (m_cells m) key ?nc) = (?nc, False)"
      "smap_Load (snd (smap_LoadOrStore (m_cells m) key ?nc)) = (smap_Load (m_cells m))(key \<mapsto> ?nc)"
      using smap.los_absent [OF None, of ?nc] by auto
    define m3 where "m3 = m2\<lparr>m_cells := snd (smap_LoadOrStore (m_cells m) key ?nc)\<rparr>"
    have "Ensure_create cfg key m = (Inr ?nc, m3)"
      using Inr cell(1) by (simp add: Ensure_create_def Let_def m3_def m2_def case_prod_unfold)
    moreover have "registry_wf m3"
      using parts x old by (intro registry_wfI)
        (auto simp: m3_def f cell(2) smap.los_inv less_Suc_eq dest: registry_wfD split: if_splits)
    moreover have "no_cell_leak m3" "registered_open m3"
      using parts x old None by (auto simp: m3_def f cell(2) no_cell_leak_def registered_open_def
          less_Suc_eq split: if_splits)
    moreover have "engines_wf m3" "no_engine_leak m3" "tasks_wf infl m3" "draining_pending infl m3"
      using eng tasks pend by (auto simp: m3_def engines_wf_def no_engine_leak_def tasks_wf_def
          task_wf_def draining_pending_def)
    ultimately show ?thesis by (simp add: mgr_inv_def)
  next
    case (Some w)
    have same: "m2\<lparr>m_cells := m_cells m\<rparr> = m2" unfolding f(1) [symmetric] by simp
    have "snd (Ensure_create cfg key m) = Cell_Close ?nc (m2\<lparr>m_cells := m_cells m\<rparr>)"
      using Inr smap.los_present [OF Some, of ?nc]
      by (simp add: Ensure_create_def Let_def m2_def)
    then have "snd (Ensure_create cfg key m) = Cell_Close ?nc m2" unfolding same .
    moreover have "registry_wf (Cell_Close ?nc m2)"
      using parts old by (intro registry_wfI) (auto simp: f less_Suc_eq dest: registry_wfD)
    moreover have "no_cell_leak (Cell_Close ?nc m2)" "registered_open (Cell_Close ?nc m2)"
      using parts old by (auto simp: f no_cell_leak_def registered_open_def less_Suc_eq)
    moreover have "engines_wf (Cell_Close ?nc m2)" "no_engine_leak (Cell_Close ?nc m2)"
      "tasks_wf infl (Cell_Close ?nc m2)" "draining_pending infl (Cell_Close ?nc m2)"
      using eng tasks pend by (auto simp: engines_wf_def no_engine_leak_def tasks_wf_def
          task_wf_def draining_pending_def)
    ultimately show ?thesis by (simp add: mgr_inv_def)
  qed
qed

lemma Ensure_inv: "mgr_inv infl m \<Longrightarrow> mgr_inv infl (snd (Manager_Ensure cfg key role m))"
  using create_inv [of infl m key]
  by (auto simp: Manager_Ensure_def Ensure_role_inv split: option.split prod.split sum.split)

text \<open>The swap: the new engine is current, its cell's old engine is what is left to drain.\<close>

lemma swap_owes:
  assumes inv: "mgr_inv infl m" and get: "Manager_Get key m = Some c"
    and st: "c_state (st_cells m c) \<noteq> StateDraining"
    and comp: "mc_compile cfg c key raw (st_cells m c) = (Inr eng, x)"
    and m': "st_cells m' = (st_cells m)(c := x\<lparr>c_engine := Some (m_nextEngine m),
               c_currentHash := Some (HashConfig raw)\<rparr>)"
      "st_engines m' = (st_engines m)(m_nextEngine m := eng)" "m_nextEngine m' = Suc (m_nextEngine m)"
      "m_cells m' = m_cells m" "m_drainCh m' = m_drainCh m" "m_nextCell m' = m_nextCell m"
  shows "case c_engine (st_cells m c) of None \<Rightarrow> mgr_inv infl m'
    | Some old \<Rightarrow> owes_drain infl (mk_task c old False) m'"
proof -
  note parts = inv [unfolded mgr_inv_def]
  note eng = compile_engine [of c key raw "st_cells m c" eng, unfolded comp fst_conv, OF refl]
  note x = same_but_runtimeD [OF compile_same [of "st_cells m c" c key raw], unfolded comp snd_conv]
  let ?e = "m_nextEngine m"
  have c: "c < m_nextCell m" using parts get registry_wfD(2) unfolding Manager_Get_def by blast
  have tlt: "t_eng t \<noteq> ?e" if "t \<in> set (m_drainCh m) \<union> set infl" for t
    using parts that less_irrefl unfolding tasks_wf_def task_wf_def by metis
  have reg: "registry_wf m'"
    using parts x(1) by (intro registry_wfI) (auto simp: m' dest: registry_wfD)
  have engs: "engines_wf m'"
    using parts eng x c by (auto simp: m' engines_wf_def less_Suc_eq)
  have tasks: "tasks_wf infl m'"
    using parts tlt x(6) by (auto simp: m' tasks_wf_def task_wf_def less_Suc_eq)
  have cells: "no_cell_leak m'" "registered_open m'" "draining_pending infl m'"
    using parts x st by (auto simp: m' no_cell_leak_def registered_open_def draining_pending_def)
  have leak: "c_engine (st_cells m' (eng_parent (st_engines m' e))) = Some e \<or>
      eng_cancelled (st_engines m' e) \<or> (\<exists>u \<in> set (m_drainCh m'). t_eng u = e)"
    if "e < m_nextEngine m'" "c_engine (st_cells m c) \<noteq> Some e" for e
    using parts eng that by (auto simp: m' no_engine_leak_def less_Suc_eq)
  show ?thesis
  proof (cases "c_engine (st_cells m c)")
    case None
    with leak have "no_engine_leak m'" by (simp add: no_engine_leak_def)
    with None reg engs tasks cells show ?thesis by (simp add: mgr_inv_def)
  next
    case (Some old)
    with parts c have "old < ?e" "eng_parent (st_engines m old) = c" by (auto simp: engines_wf_def)
    then have "task_wf m' (mk_task c old False)" by (simp add: task_wf_def m')
    with Some leak reg engs tasks cells show ?thesis
      by (auto simp: owes_drain_def draining_pending_def)
  qed
qed

lemma owes_cong:
  assumes "owes_drain infl t m"
    and "\<And>c. cell_view (st_cells m' c) = cell_view (st_cells m c)"
    and "\<And>e. eng_view (st_engines m' e) = eng_view (st_engines m e)"
    and "m_cells m' = m_cells m" "m_drainCh m' = m_drainCh m"
    and "m_nextCell m' = m_nextCell m" "m_nextEngine m' = m_nextEngine m"
  shows "owes_drain infl t m'"
proof -
  note c = cell_viewD [OF assms(2)] and e = eng_viewD [OF assms(3)]
  show ?thesis using assms(1) unfolding owes_drain_def mgr_inv_defs c e assms(4-7) .
qed

lemma compile_failed_inv:
  assumes "mgr_inv infl m" "mc_compile cfg c key raw (st_cells m c) = (Inl err, x)"
  shows "mgr_inv infl (upd_metrics h (upd_cell c (\<lambda>_. x) m))"
  using same_but_runtimeD [OF compile_same [of "st_cells m c" c key raw]] assms
  by (intro mgr_inv_cong [OF assms(1)]) (auto simp: cell_view_def)

lemma ApplyConfig_inv:
  assumes "mgr_inv infl m"
  shows "mgr_inv infl (snd (Manager_ApplyConfig cfg key raw now m))"
proof (cases "\<exists>c eng x. Manager_Get key m = Some c \<and> c_state (st_cells m c) \<noteq> StateDraining \<and>
    c_currentHash (st_cells m c) \<noteq> Some (HashConfig raw) \<and>
    mc_compile cfg c key raw (st_cells m c) = (Inr eng, x)")
  case False
  then show ?thesis
    using assms compile_failed_inv [OF assms]
    by (auto simp: Manager_ApplyConfig_def Cell_State_def Let_def split: option.split prod.split sum.split)
next
  case True
  then obtain c eng x where get: "Manager_Get key m = Some c"
    and st: "c_state (st_cells m c) \<noteq> StateDraining"
    and hash: "c_currentHash (st_cells m c) \<noteq> Some (HashConfig raw)"
    and comp: "mc_compile cfg c key raw (st_cells m c) = (Inr eng, x)" by blast
  define m4 where "m4 = Engine_start (m_nextEngine m) c now
     (upd_metrics (\<lambda>y. set_current_version key (eng_Version eng) (count_reload key ''success'' y))
       (upd_cell c (\<lambda>_. x\<lparr>c_engine := Some (m_nextEngine m), c_currentHash := Some (HashConfig raw)\<rparr>)
         (m\<lparr>st_engines := (st_engines m)(m_nextEngine m := eng), m_nextEngine := Suc (m_nextEngine m)\<rparr>)))"
  define m2 where "m2 = upd_cell c (\<lambda>_. x\<lparr>c_engine := Some (m_nextEngine m), c_currentHash := Some (HashConfig raw)\<rparr>)
         (m\<lparr>st_engines := (st_engines m)(m_nextEngine m := eng), m_nextEngine := Suc (m_nextEngine m)\<rparr>)"
  have old: "c_engine x = c_engine (st_cells m c)"
    using same_but_runtimeD(4) [OF compile_same [of "st_cells m c" c key raw]] comp by simp
  have run: "snd (Manager_ApplyConfig cfg key raw now m) =
      (case c_engine x of Some e \<Rightarrow> scheduleDrain c e False m4 | None \<Rightarrow> m4)"
    using get st hash comp by (simp add: Manager_ApplyConfig_def Cell_State_def Let_def m4_def split: option.split)
  have "case c_engine (st_cells m c) of None \<Rightarrow> mgr_inv infl m2
    | Some old \<Rightarrow> owes_drain infl (mk_task c old False) m2"
    by (rule swap_owes [OF assms get st comp]) (simp_all add: m2_def)
  moreover have "mgr_inv infl m2 \<Longrightarrow> mgr_inv infl m4"
    by (erule mgr_inv_cong) (simp_all add: m2_def m4_def cell_view_def eng_view_def)
  moreover have "owes_drain infl t m2 \<Longrightarrow> owes_drain infl t m4" for t
    by (erule owes_cong) (simp_all add: m2_def m4_def cell_view_def eng_view_def)
  ultimately show ?thesis
    by (auto simp: run old intro: scheduleDrain_inv split: option.splits)
qed

end

text \<open>The manager the program builds: no injected functions.\<close>

definition production_cfg :: "llmd \<Rightarrow> Options \<Rightarrow> ManagerCfg" where
  "production_cfg L opts = fst (NewManager L (opts\<lparr>opt_Compile := None, opt_NewCell := None\<rparr>))"

lemma production_cfg_simps [simp]:
  "mc_compile (production_cfg L opts) =
     Compile L \<lparr>dep_AllowExperimentalPlugins = opt_AllowExperimentalPlugins opts\<rparr>"
  "mc_newCell (production_cfg L opts) = defaultNewCell"
  by (simp_all add: production_cfg_def NewManager_def)

interpretation prod: manager_env "production_cfg L opts" for L opts
proof unfold_locales
  fix x c key raw eng
  show "same_but_runtime x (snd (mc_compile (production_cfg L opts) c key raw x))"
    by (simp add: Compile_same)
  show "fst (mc_compile (production_cfg L opts) c key raw x) = Inr eng \<Longrightarrow>
      eng_Version eng = HashConfig raw \<and> eng_parent eng = c \<and> \<not> eng_cancelled eng \<and>
      eng_wg eng = 0 \<and> \<not> eng_started eng"
    using Compile_engine by simp
  show "mc_newCell (production_cfg L opts) key = Inr x \<Longrightarrow>
      c_Key x = key \<and> c_engine x = None \<and> c_currentHash x = None \<and> c_role x = RoleNone \<and> \<not> c_closed x"
    by (auto simp: defaultNewCell_def)
qed

end
