(* ===== verification/Manager_Contracts.thy ===== *)
theory Manager_Contracts
  imports Cell_Manager
begin

text \<open>
  What the manager's operations promise, branch by branch: applying a configuration (skipped,
  failed, swapped), the role matrix of \<open>Ensure\<close>, the teardown by \<open>Drop\<close>, and three sequences of
  operations in which the code does something its documentation does not say.
\<close>

section \<open>The effect of scheduling a drain\<close>

lemma scheduleDrain_frame [simp]:
  "m_nextCell (scheduleDrain c e td m) = m_nextCell m" "m_nextEngine (scheduleDrain c e td m) = m_nextEngine m"
  by (cases rule: scheduleDrain_cases [of m c e td]; simp add: Manager_drain_def)+

lemma scheduleDrain_keep [simp]:
  "st_cells (scheduleDrain c e False m) = st_cells m" "m_cells (scheduleDrain c e False m) = m_cells m"
  by (cases rule: scheduleDrain_cases [of m c e False]; simp add: Manager_drain_def)+

lemma scheduleDrain_engine:
  "st_engines (scheduleDrain c e td m) x =
     (if x = e \<and> drainCh_cap \<le> length (m_drainCh m) then (st_engines m x)\<lparr>eng_cancelled := True\<rparr>
      else st_engines m x)"
  by (cases rule: scheduleDrain_cases [of m c e td]; simp add: Manager_drain_def)+

lemma scheduleDrain_room:
  "length (m_drainCh m) < drainCh_cap \<Longrightarrow>
     scheduleDrain c e td m = m\<lparr>m_drainCh := m_drainCh m @ [mk_task c e td]\<rparr>"
  by (cases rule: scheduleDrain_cases [of m c e td]) auto

lemma scheduleDrain_full:
  "drainCh_cap \<le> length (m_drainCh m) \<Longrightarrow> scheduleDrain c e td m = Manager_drain (mk_task c e td) m"
  by (cases rule: scheduleDrain_cases [of m c e td]) auto

text \<open>
  No drain is lost and the queue never overflows: a scheduled engine is either in the queue,
  behind everything that was there, or has been drained on the spot because the queue was full;
  in both cases the queue stays within its 64 places.
\<close>

lemma drain_never_lost:
  "(length (m_drainCh m) < drainCh_cap \<and>
      m_drainCh (scheduleDrain c e td m) = m_drainCh m @ [mk_task c e td] \<and>
      length (m_drainCh (scheduleDrain c e td m)) \<le> drainCh_cap) \<or>
   (drainCh_cap \<le> length (m_drainCh m) \<and> m_drainCh (scheduleDrain c e td m) = m_drainCh m \<and>
      eng_cancelled (st_engines (scheduleDrain c e td m) e))"
  by (cases "length (m_drainCh m) < drainCh_cap")
     (auto simp: scheduleDrain_room scheduleDrain_full Manager_drain_def)

section \<open>Applying a configuration\<close>

lemma ApplyConfig_branches:
  assumes "Manager_Get key m = Some c" "c_state (st_cells m c) \<noteq> StateDraining"
    "c_currentHash (st_cells m c) \<noteq> Some (HashConfig raw)"
  obtains (failed) err x where "mc_compile cfg c key raw (st_cells m c) = (Inl err, x)"
      "Manager_ApplyConfig cfg key raw now m =
         (Inl err, upd_metrics (count_reload key ''invalid'') (upd_cell c (\<lambda>_. x) m))"
  | (swapped) eng x m4 where "mc_compile cfg c key raw (st_cells m c) = (Inr eng, x)"
      "m4 = Engine_start (m_nextEngine m) c now
         (upd_metrics (\<lambda>y. set_current_version key (eng_Version eng) (count_reload key ''success'' y))
           (upd_cell c (\<lambda>_. x\<lparr>c_engine := Some (m_nextEngine m), c_currentHash := Some (HashConfig raw)\<rparr>)
             (m\<lparr>st_engines := (st_engines m)(m_nextEngine m := eng), m_nextEngine := Suc (m_nextEngine m)\<rparr>)))"
      "Manager_ApplyConfig cfg key raw now m =
         (Inr True, case c_engine x of Some e \<Rightarrow> scheduleDrain c e False m4 | None \<Rightarrow> m4)"
proof -
  obtain r x where comp: "mc_compile cfg c key raw (st_cells m c) = (r, x)" by fastforce
  show ?thesis
  proof (cases r)
    case (Inl err)
    with comp that(1) [of err x] assms show ?thesis
      by (simp add: Manager_ApplyConfig_def Cell_State_def Let_def)
  next
    case (Inr eng)
    with comp that(2) [OF _ refl, of eng x] assms show ?thesis
      by (simp add: Manager_ApplyConfig_def Cell_State_def Let_def)
  qed
qed

text \<open>
  C4. A failed compile is isolated. The cell keeps its engine, hash, role and state (only its
  datalayer runtime may have seen calls), no other cell, engine, registry entry or queued drain
  is touched, and the only metric written is the cluster's counter of invalid reloads.
\<close>

theorem apply_failure_isolated:
  assumes "Manager_Get key m = Some c" and "c_state (st_cells m c) \<noteq> StateDraining"
    and "Manager_ApplyConfig (production_cfg L opts) key raw now m = (Inl err, m')"
  shows "same_but_runtime (st_cells m c) (st_cells m' c) \<and> (\<forall>d. d \<noteq> c \<longrightarrow> st_cells m' d = st_cells m d) \<and>
    st_engines m' = st_engines m \<and> m_cells m' = m_cells m \<and> m_drainCh m' = m_drainCh m \<and>
    st_metrics m' = count_reload key ''invalid'' (st_metrics m)"
proof -
  have hash: "c_currentHash (st_cells m c) \<noteq> Some (HashConfig raw)"
    using assms by (auto simp: Manager_ApplyConfig_def Cell_State_def)
  from assms(1,2) hash show ?thesis
  proof (cases rule: ApplyConfig_branches [where cfg = "production_cfg L opts" and now = now])
    case (failed err x)
    with assms(3) show ?thesis
      using prod.compile_same [of "st_cells m c" L opts c key raw] by auto
  qed (use assms(3) in auto)
qed


text \<open>A manager with one registered cell that serves the generation of a configuration ''x''.\<close>

definition demo_opts :: Options where
  "demo_opts = \<lparr>opt_AllowExperimentalPlugins = False, opt_DrainTimeout = 0, opt_DrainWorkers = 0,
     opt_Compile = None, opt_NewCell = None\<rparr>"

definition demo_cell :: Cell where
  "demo_cell = zero_cell\<lparr>c_Key := ''c1'', c_engine := Some 0, c_role := RolePrimary,
     c_state := StatePrimary, c_currentHash := Some ''x'', c_ready := True\<rparr>"

definition demo_mgr :: Manager where
  "demo_mgr = \<lparr>st_cells = (\<lambda>_. zero_cell)(0 := demo_cell),
     st_engines = (\<lambda>_. zero_engine)(0 := zero_engine\<lparr>eng_Version := ''x''\<rparr>), st_metrics = zero_metrics,
     m_cells = [(''c1'', 0)], m_drainCh = [], m_nextCell = 1, m_nextEngine = 1\<rparr>"

lemma demo_mgr_inv: "mgr_inv [] demo_mgr"
  by (auto simp: mgr_inv_defs demo_mgr_def demo_cell_def zero_defs smap_Load_def drainCh_cap_def
      split: if_splits)

lemma demo_hash [simp]: "''x'' \<noteq> HashConfig raw"
proof
  assume "''x'' = HashConfig raw"
  then have "length ''x'' = length (HashConfig raw)" by (rule arg_cong)
  then show False by simp
qed

lemmas demo_defs = demo_mgr_def demo_cell_def zero_cell_def zero_engine_def zero_metrics_def

lemma demo_compile [simp]:
  "Compile demo_llmd deps c key ''v2'' x =
     (Inr \<lparr>eng_Version = HashConfig ''v2'', eng_fc = False, eng_discovery = [], eng_started = False,
        eng_cancelled = False, eng_wg = 0, eng_parent = c\<rparr>,
      if c_dataConfigured x then x
      else x\<lparr>c_rt := c_rt x @ [Configure ''v2'' True], c_dataConfigured := True\<rparr>)"
  by (simp add: Compile_def demo_llmd_def configure_runtime_def select_discovery_def)

lemma demo_compile_bad [simp]:
  "fst (Compile demo_llmd deps c key ''bad'' x) =
     Inl (ErrMsg (''discovery: no plugin found with name '' @ quoted ''nope''))"
  by (simp add: Compile_def demo_llmd_def configure_runtime_def select_discovery_def)

theorem apply_failure_isolated_witness:
  "\<exists>err m'. Manager_ApplyConfig (production_cfg demo_llmd demo_opts) ''c1'' ''bad'' 5 demo_mgr = (Inl err, m') \<and>
     c_engine (st_cells m' 0) = Some 0 \<and> m_cells m' = [(''c1'', 0)]"
proof -
  let ?r = "Manager_ApplyConfig (production_cfg demo_llmd demo_opts) ''c1'' ''bad'' 5 demo_mgr"
  have cell: "Manager_Get ''c1'' demo_mgr = Some 0" "c_state (st_cells demo_mgr 0) \<noteq> StateDraining"
    "c_currentHash (st_cells demo_mgr 0) \<noteq> Some (HashConfig ''bad'')"
    by (simp_all add: Manager_Get_def smap_Load_def demo_defs)
  obtain x where "mc_compile (production_cfg demo_llmd demo_opts) 0 ''c1'' ''bad'' (st_cells demo_mgr 0) =
      (Inl (ErrMsg (''discovery: no plugin found with name '' @ quoted ''nope'')), x)"
    by (simp add: prod_eq_iff)
  then obtain err m' where r: "?r = (Inl err, m')"
    using cell by (auto elim!: ApplyConfig_branches [where cfg = "production_cfg demo_llmd demo_opts" and now = 5])
  from apply_failure_isolated [OF cell(1,2) r]
  have "c_engine (st_cells m' 0) = c_engine (st_cells demo_mgr 0)" "m_cells m' = m_cells demo_mgr"
    by (auto dest: same_but_runtimeD)
  with r show ?thesis by (simp add: demo_mgr_def demo_cell_def)
qed

text \<open>
  C3. The hot swap. A successful apply makes the new generation current: the cell points to a
  fresh engine that belongs to it, carries the hash of the configuration and is not cancelled, and
  the stored hash is that version. The role is kept, the state too except that a cell under
  creation may have become standby. The replaced engine, with the requests it still holds, is
  appended to the drain queue, or the queue is as it was and the engine has been cancelled already; every
  other cell, every other engine and the registry are untouched.
\<close>

theorem hot_swap:
  assumes "mgr_inv infl m" and "Manager_Get key m = Some c"
    and "Manager_ApplyConfig (production_cfg L opts) key raw now m = (Inr True, m')"
  shows "c_engine (st_cells m' c) = Some (m_nextEngine m) \<and>
    eng_Version (st_engines m' (m_nextEngine m)) = HashConfig raw \<and>
    eng_parent (st_engines m' (m_nextEngine m)) = c \<and> \<not> eng_cancelled (st_engines m' (m_nextEngine m)) \<and>
    c_currentHash (st_cells m' c) = Some (HashConfig raw) \<and> c_role (st_cells m' c) = c_role (st_cells m c) \<and>
    (c_state (st_cells m' c) = c_state (st_cells m c) \<or>
       c_state (st_cells m c) = StateCreating \<and> c_state (st_cells m' c) = StateStandby) \<and>
    (case c_engine (st_cells m c) of None \<Rightarrow> m_drainCh m' = m_drainCh m
     | Some old \<Rightarrow> (m_drainCh m' = m_drainCh m @ [mk_task c old False] \<or>
           m_drainCh m' = m_drainCh m \<and> eng_cancelled (st_engines m' old)) \<and>
         eng_wg (st_engines m' old) = eng_wg (st_engines m old)) \<and>
    (\<forall>d. d \<noteq> c \<longrightarrow> st_cells m' d = st_cells m d) \<and> m_cells m' = m_cells m \<and>
    (\<forall>e < m_nextEngine m. c_engine (st_cells m c) \<noteq> Some e \<longrightarrow> st_engines m' e = st_engines m e)"
proof -
  have st: "c_state (st_cells m c) \<noteq> StateDraining"
    and hash: "c_currentHash (st_cells m c) \<noteq> Some (HashConfig raw)"
    using assms by (auto simp: Manager_ApplyConfig_def Cell_State_def split: if_splits)
  have cur: "old < m_nextEngine m" if "c_engine (st_cells m c) = Some old" for old
    using assms(1,2) that by (auto simp: mgr_inv_def engines_wf_def Manager_Get_def dest: registry_wfD(2))
  from assms(2) st hash show ?thesis
  proof (cases rule: ApplyConfig_branches [where cfg = "production_cfg L opts" and now = now])
    case (swapped eng x m4)
    have x: "same_but_runtime (st_cells m c) x"
      using prod.compile_same [of "st_cells m c" L opts c key raw] swapped(1) by simp
    have eng: "eng_Version eng = HashConfig raw" "eng_parent eng = c" "\<not> eng_cancelled eng"
      using prod.compile_engine [of L opts c key raw "st_cells m c" eng] swapped(1) by simp_all
    have "m' = (case c_engine x of Some e \<Rightarrow> scheduleDrain c e False m4 | None \<Rightarrow> m4)"
      using assms(3) swapped(3) by simp
    with swapped(2) eng same_but_runtimeD [OF x] cur show ?thesis
      using drain_never_lost [of m4 c _ False]
      by (cases "c_engine (st_cells m c)") (auto simp: scheduleDrain_engine)
  qed (use assms(3) in auto)
qed


lemma demo_apply:
  "Manager_ApplyConfig (production_cfg demo_llmd demo_opts) ''c1'' ''v2'' now demo_mgr =
     (Inr True, snd (Manager_ApplyConfig (production_cfg demo_llmd demo_opts) ''c1'' ''v2'' now demo_mgr))"
  by (simp add: Manager_ApplyConfig_def Manager_Get_def smap_Load_def Cell_State_def Let_def demo_defs)

theorem hot_swap_witness:
  "c_engine (st_cells (snd (Manager_ApplyConfig (production_cfg demo_llmd demo_opts) ''c1'' ''v2'' 5 demo_mgr)) 0) = Some 1"
proof -
  have "Manager_Get ''c1'' demo_mgr = Some 0"
    by (simp add: Manager_Get_def smap_Load_def demo_mgr_def)
  from hot_swap [OF demo_mgr_inv this demo_apply, of 5] show ?thesis
    by (simp add: demo_mgr_def)
qed

lemma ApplyConfig_frame:
  assumes "m' = snd (Manager_ApplyConfig (production_cfg L opts) key raw now m)"
  shows "m_cells m' = m_cells m \<and>
    (\<forall>d. (Manager_Get key m \<noteq> Some d \<longrightarrow> st_cells m' d = st_cells m d) \<and>
      c_Key (st_cells m' d) = c_Key (st_cells m d) \<and> c_role (st_cells m' d) = c_role (st_cells m d) \<and>
      (c_state (st_cells m' d) = c_state (st_cells m d) \<or>
       c_state (st_cells m d) = StateCreating \<and> c_state (st_cells m' d) = StateStandby))"
proof (cases "\<exists>c. Manager_Get key m = Some c \<and> c_state (st_cells m c) \<noteq> StateDraining \<and>
    c_currentHash (st_cells m c) \<noteq> Some (HashConfig raw)")
  case False
  then have "m' = m"
    using assms by (auto simp: Manager_ApplyConfig_def Cell_State_def Let_def split: option.split)
  then show ?thesis by simp
next
  case True
  then obtain c where c: "Manager_Get key m = Some c" "c_state (st_cells m c) \<noteq> StateDraining"
    "c_currentHash (st_cells m c) \<noteq> Some (HashConfig raw)" by blast
  have same: "same_but_runtime (st_cells m c) (snd (mc_compile (production_cfg L opts) c key raw (st_cells m c)))"
    by (rule prod.compile_same)
  from c show ?thesis
  proof (cases rule: ApplyConfig_branches [where cfg = "production_cfg L opts" and now = now])
    case (failed err x)
    with assms c(1) same same_but_runtimeD [of "st_cells m c" x] show ?thesis by auto
  next
    case (swapped eng x m4)
    have "m' = (case c_engine x of Some e \<Rightarrow> scheduleDrain c e False m4 | None \<Rightarrow> m4)"
      using assms swapped(3) by simp
    with swapped(1,2) c(1) same same_but_runtimeD [of "st_cells m c" x] show ?thesis
      by (auto split: option.split)
  qed
qed

lemma ApplyConfig_hash:
  assumes "Manager_Get key m = Some c" "c_state (st_cells m c) \<noteq> StateDraining"
  shows "case Manager_ApplyConfig (production_cfg L opts) key raw now m of
      (Inl err, m') \<Rightarrow> c_engine (st_cells m' c) = c_engine (st_cells m c) \<and>
        c_currentHash (st_cells m' c) = c_currentHash (st_cells m c) \<and>
        fst (mc_compile (production_cfg L opts) c key raw (st_cells m c)) = Inl err
    | (Inr b, m') \<Rightarrow> c_currentHash (st_cells m' c) = Some (HashConfig raw)"
proof (cases "c_currentHash (st_cells m c) = Some (HashConfig raw)")
  case True
  with assms show ?thesis by (simp add: Manager_ApplyConfig_def Cell_State_def)
next
  case False
  have same: "same_but_runtime (st_cells m c) (snd (mc_compile (production_cfg L opts) c key raw (st_cells m c)))"
    by (rule prod.compile_same)
  from assms False show ?thesis
  proof (cases rule: ApplyConfig_branches [where cfg = "production_cfg L opts" and now = now])
    case (failed err x)
    with same same_but_runtimeD [of "st_cells m c" x] show ?thesis by auto
  next
    case (swapped eng x m4)
    then show ?thesis by (auto split: option.split)
  qed
qed

text \<open>
  Applying is idempotent. Once a configuration has been applied (or found unchanged),
  applying the same bytes again returns false without an error and changes nothing, at any time.
\<close>

lemma apply_config_twice:
  assumes "Manager_ApplyConfig (production_cfg L opts) key raw now m = (Inr b, m')"
  shows "Manager_ApplyConfig (production_cfg L opts) key raw later m' = (Inr False, m')"
proof -
  obtain c where get: "Manager_Get key m = Some c" and st: "c_state (st_cells m c) \<noteq> StateDraining"
    using assms by (auto simp: Manager_ApplyConfig_def Cell_State_def split: option.splits if_splits)
  show ?thesis
  proof (cases "c_currentHash (st_cells m c) = Some (HashConfig raw)")
    case True
    with get st assms show ?thesis by (auto simp: Manager_ApplyConfig_def Cell_State_def)
  next
    case False
    from get st False show ?thesis
    proof (cases rule: ApplyConfig_branches [where cfg = "production_cfg L opts" and now = now])
      case (swapped eng x m4)
      have x: "same_but_runtime (st_cells m c) x"
        using prod.compile_same [of "st_cells m c" L opts c key raw] swapped(1) by simp
      have "m' = (case c_engine x of Some e \<Rightarrow> scheduleDrain c e False m4 | None \<Rightarrow> m4)"
        using assms swapped(3) by simp
      with swapped(2) get st same_but_runtimeD [OF x]
      have "Manager_Get key m' = Some c" "Cell_State c m' \<noteq> StateDraining"
        "c_currentHash (st_cells m' c) = Some (HashConfig raw)"
        by (auto simp: Manager_Get_def Cell_State_def split: option.split)
      then show ?thesis by (simp add: Manager_ApplyConfig_def)
    qed (use assms in auto)
  qed
qed

lemma apply_config_twice_example:
  "fst (Manager_ApplyConfig (production_cfg demo_llmd demo_opts) ''c1'' ''v2'' 9
     (snd (Manager_ApplyConfig (production_cfg demo_llmd demo_opts) ''c1'' ''v2'' 5 demo_mgr))) = Inr False"
  by (simp add: apply_config_twice [OF demo_apply])

section \<open>Roles\<close>

text \<open>A cell in the primary state has the primary role. The converse can fail: \<open>markReady\<close>, which runs beside
  the watcher, can overwrite the state of a cell that has just been promoted.\<close>

definition role_state_ok :: "Cell \<Rightarrow> bool" where
  "role_state_ok x \<longleftrightarrow> (c_state x = StatePrimary \<longrightarrow> c_role x = RolePrimary)"

lemma Promote_cells:
  "Manager_Get key m = Some c \<Longrightarrow> st_cells (Manager_Promote key m) =
     (st_cells m)(c := (if c_state (st_cells m c) = StateDraining then st_cells m c
        else (st_cells m c)\<lparr>c_role := RolePrimary, c_state := StatePrimary\<rparr>))"
  by (cases "c_state (st_cells m c)") (auto simp: Manager_Promote_def Cell_State_def Let_def fun_eq_iff)

lemma Demote_cells:
  "Manager_Get key m = Some c \<Longrightarrow> st_cells (Manager_Demote key m) =
     (st_cells m)(c := (if c_state (st_cells m c) = StateDraining then st_cells m c
        else (st_cells m c)\<lparr>c_role := RoleStandby,
          c_state := (if c_state (st_cells m c) = StatePrimary then StateStandby else c_state (st_cells m c))\<rparr>))"
  by (auto simp: Manager_Demote_def Cell_State_def Let_def fun_eq_iff split: option.split)

lemma role_op_registry [simp]:
  "m_cells (Manager_Promote key m) = m_cells m" "m_cells (Manager_Demote key m) = m_cells m"
  by (auto simp: Manager_Promote_def Manager_Demote_def Let_def split: option.split)

lemma Ensure_role_registry [simp]: "m_cells (Ensure_role c key role m) = m_cells m"
  by (simp add: Ensure_role_def)

lemma Ensure_role_cells:
  assumes "Manager_Get key m = Some c" "c_state (st_cells m c) \<noteq> StateDraining"
    "role_state_ok (st_cells m c)" "role \<noteq> RoleNone"
  shows "c_role (st_cells (Ensure_role c key role m) c) = role"
    "c_state (st_cells (Ensure_role c key role m) c) \<noteq> StateDraining"
    "role_state_ok (st_cells (Ensure_role c key role m) c)"
    "c_engine (st_cells (Ensure_role c key role m) c) = c_engine (st_cells m c)"
    "d \<noteq> c \<Longrightarrow> st_cells (Ensure_role c key role m) d = st_cells m d"
  using assms by (cases role; auto simp: Ensure_role_def Promote_cells Demote_cells Cell_Role_def role_state_ok_def)+

lemma create_fresh:
  assumes "Manager_Get key m = None"
  obtains m' where "Ensure_create (production_cfg L opts) key m = (Inr (m_nextCell m), m')"
    "smap_Load (m_cells m') = (smap_Load (m_cells m))(key \<mapsto> m_nextCell m)"
    "st_cells m' = (st_cells m)(m_nextCell m := zero_cell\<lparr>c_Key := key\<rparr>)"
proof -
  obtain cells where "smap_LoadOrStore (m_cells m) key (m_nextCell m) = ((m_nextCell m, False), cells)"
    "smap_Load cells = (smap_Load (m_cells m))(key \<mapsto> m_nextCell m)"
    using smap.los_absent [of "m_cells m" key "m_nextCell m"] assms by (auto simp: Manager_Get_def)
  then show thesis
    by (intro that [of "snd (Ensure_create (production_cfg L opts) key m)"])
      (simp_all add: Ensure_create_def defaultNewCell_def Let_def zero_cell_def)
qed

text \<open>
  \<open>Ensure\<close> reaches the requested role. Unless the cluster's cell is being torn down, afterwards the
  cell is registered (the existing one, or a new one under its key), has the requested role and a
  state that agrees with it, keeps the engine it had, and nothing else has changed; it never fails.
\<close>

lemma Ensure_effect:
  assumes "role \<noteq> RoleNone" and "mgr_inv infl m"
    and "\<And>c. Manager_Get key m = Some c \<Longrightarrow> c_state (st_cells m c) \<noteq> StateDraining \<and> role_state_ok (st_cells m c)"
  shows "\<exists>c m'. Manager_Ensure (production_cfg L opts) key role m = (Inr c, m') \<and> mgr_inv infl m' \<and>
    smap_Load (m_cells m') = (smap_Load (m_cells m))(key \<mapsto> c) \<and>
    (case Manager_Get key m of Some old \<Rightarrow> c = old \<and> c_engine (st_cells m' c) = c_engine (st_cells m c)
     | None \<Rightarrow> c = m_nextCell m \<and> c_engine (st_cells m' c) = None) \<and>
    c_role (st_cells m' c) = role \<and> c_state (st_cells m' c) \<noteq> StateDraining \<and> role_state_ok (st_cells m' c) \<and>
    (\<forall>d. d \<noteq> c \<longrightarrow> st_cells m' d = st_cells m d)"
proof (cases "Manager_Get key m")
  case (Some c)
  have run: "Manager_Ensure (production_cfg L opts) key role m = (Inr c, Ensure_role c key role m)"
    using Some by (simp add: Manager_Ensure_def)
  have load: "smap_Load (m_cells m) = (smap_Load (m_cells m))(key \<mapsto> c)"
    using Some by (auto simp: Manager_Get_def fun_eq_iff)
  show ?thesis
    using run Some load Ensure_role_cells [OF Some _ _ assms(1)] Ensure_role_inv [OF assms(2)] assms(3)
    by (intro exI [of _ c] exI [of _ "Ensure_role c key role m"]) simp
next
  case None
  obtain m1 where m1: "Ensure_create (production_cfg L opts) key m = (Inr (m_nextCell m), m1)"
    "smap_Load (m_cells m1) = (smap_Load (m_cells m))(key \<mapsto> m_nextCell m)"
    "st_cells m1 = (st_cells m)(m_nextCell m := zero_cell\<lparr>c_Key := key\<rparr>)"
    using create_fresh [OF None] .
  have run: "Manager_Ensure (production_cfg L opts) key role m =
      (Inr (m_nextCell m), Ensure_role (m_nextCell m) key role m1)"
    using None m1(1) by (simp add: Manager_Ensure_def)
  have inv: "mgr_inv infl m1" using prod.create_inv [OF assms(2), of L opts key] m1(1) by simp
  have get: "Manager_Get key m1 = Some (m_nextCell m)" using m1(2) by (simp add: Manager_Get_def)
  show ?thesis
    using run None Ensure_role_cells [OF get _ _ assms(1)] Ensure_role_inv [OF inv] m1(2,3)
    by (intro exI [of _ "m_nextCell m"] exI [of _ "Ensure_role (m_nextCell m) key role m1"])
      (simp add: zero_cell_def role_state_ok_def)
qed

section \<open>Teardown\<close>

text \<open>The queue worked off: as many worker iterations as there are tasks.\<close>

definition drain_all :: "'a Manager_scheme \<Rightarrow> 'a Manager_scheme" where
  "drain_all m = (drainWorker_iter ^^ length (m_drainCh m)) m"

lemma iter_fields:
  "m_drainCh (drainWorker_iter m) = tl (m_drainCh m)"
  "c_state (st_cells (drainWorker_iter m) c) = c_state (st_cells m c)"
  "c_Key (st_cells (drainWorker_iter m) c) = c_Key (st_cells m c)"
  "m_nextCell (drainWorker_iter m) = m_nextCell m" "m_nextEngine (drainWorker_iter m) = m_nextEngine m"
  by (cases "m_drainCh m"; simp add: drainWorker_iter_def Manager_drain_def)+

lemma iter_registry:
  shows "smap_Load (m_cells (drainWorker_iter m)) k = Some c \<Longrightarrow> smap_Load (m_cells m) k = Some c"
    and "smap_Load (m_cells m) k = Some c \<Longrightarrow> \<not> tearing [] m c \<Longrightarrow> smap_Load (m_cells (drainWorker_iter m)) k = Some c"
    and "tearing [] (drainWorker_iter m) c \<Longrightarrow> tearing [] m c"
  by (cases "m_drainCh m"; auto simp: drainWorker_iter_def Manager_drain_def tearing_def split: if_splits)+

lemma iterate_worker:
  assumes "mgr_inv [] m"
  shows "mgr_inv [] ((drainWorker_iter ^^ n) m) \<and> m_drainCh ((drainWorker_iter ^^ n) m) = drop n (m_drainCh m) \<and>
    (\<forall>c. c_state (st_cells ((drainWorker_iter ^^ n) m) c) = c_state (st_cells m c)) \<and>
    (\<forall>k c. smap_Load (m_cells ((drainWorker_iter ^^ n) m)) k = Some c \<longrightarrow> smap_Load (m_cells m) k = Some c) \<and>
    (\<forall>k c. smap_Load (m_cells m) k = Some c \<longrightarrow> \<not> tearing [] m c \<longrightarrow>
       smap_Load (m_cells ((drainWorker_iter ^^ n) m)) k = Some c \<and> \<not> tearing [] ((drainWorker_iter ^^ n) m) c)"
proof (induction n)
  case (Suc n)
  let ?m = "(drainWorker_iter ^^ n) m"
  have inv: "mgr_inv [] ?m" using Suc by blast
  have "m_drainCh (drainWorker_iter ?m) = drop (Suc n) (m_drainCh m)"
    using Suc by (simp add: iter_fields drop_Suc drop_tl)
  moreover have "c_state (st_cells (drainWorker_iter ?m) c) = c_state (st_cells m c)" for c
    using Suc by (simp add: iter_fields)
  moreover have "smap_Load (m_cells (drainWorker_iter ?m)) k = Some c \<Longrightarrow> smap_Load (m_cells m) k = Some c" for k c
    using Suc iter_registry(1) by blast
  moreover have "smap_Load (m_cells (drainWorker_iter ?m)) k = Some c \<and> \<not> tearing [] (drainWorker_iter ?m) c"
    if "smap_Load (m_cells m) k = Some c" "\<not> tearing [] m c" for k c
    using Suc that iter_registry(2,3) [of ?m] by blast
  ultimately show ?case
    using drainWorker_iter_inv [OF inv] unfolding funpow.simps comp_apply by blast
qed (simp add: assms)

lemma nextCell_iter: "m_nextCell ((drainWorker_iter ^^ n) m) = m_nextCell m"
  by (induction n) (simp_all add: iter_fields)

lemma nextCell_Drop: "m_nextCell (Manager_Drop key m) = m_nextCell m"
  by (auto simp: Manager_Drop_def Let_def split: option.split)

lemmas drain_all_facts = iterate_worker [where n = "length (m_drainCh m)" and m = m for m, folded drain_all_def]

lemma Drop_state:
  assumes "Manager_Get key m = Some c"
  shows "c_state (st_cells (Manager_Drop key m) d) = (if d = c then StateDraining else c_state (st_cells m d))"
    "smap_Load (m_cells (Manager_Drop key m)) key \<in> {None, Some c}"
    "k \<noteq> key \<Longrightarrow> c_Key (st_cells m c) = key \<Longrightarrow>
       smap_Load (m_cells (Manager_Drop key m)) k = smap_Load (m_cells m) k"
  using assms
  by (cases "c_engine (st_cells m c)";
      cases rule: scheduleDrain_cases [of "Cell_setState c StateDraining m" c "the (c_engine (st_cells m c))" True];
      auto simp: Manager_Drop_def Cell_Engine_def Let_def Manager_Get_def Manager_drain_def)+

text \<open>Only \<open>Drop\<close> orders a teardown, and only for the cell it drops.\<close>

lemma scheduleDrain_tearing:
  "tearing infl (scheduleDrain c e td m) d \<Longrightarrow> tearing infl m d \<or> td \<and> d = c"
  "tearing infl m d \<Longrightarrow> tearing infl (scheduleDrain c e td m) d"
  by (cases rule: scheduleDrain_cases [of m c e td]; auto simp: tearing_def Manager_drain_def)+

lemma tearing_cong: "m_drainCh m' = m_drainCh m \<Longrightarrow> tearing infl m' = tearing infl m"
  by (simp add: tearing_def fun_eq_iff)

lemma Drop_tearing:
  assumes "Manager_Get key m = Some c"
  shows "tearing infl (Manager_Drop key m) d \<Longrightarrow> tearing infl m d \<or> d = c"
    and "tearing infl m d \<Longrightarrow> tearing infl (Manager_Drop key m) d"
    and "c_Key (st_cells m c) = key \<Longrightarrow> Manager_Get key (Manager_Drop key m) \<noteq> None \<Longrightarrow> tearing infl (Manager_Drop key m) c"
proof -
  let ?m = "Cell_setState c StateDraining m"
  have same: "tearing infl ?m = tearing infl m" by (rule tearing_cong) simp
  have "(tearing infl (Manager_Drop key m) d \<longrightarrow> tearing infl m d \<or> d = c) \<and> (tearing infl m d \<longrightarrow> tearing infl (Manager_Drop key m) d)"
  proof (cases "c_engine (st_cells m c)")
    case None
    then have "m_drainCh (Manager_Drop key m) = m_drainCh m"
      using assms by (simp add: Manager_Drop_def Cell_Engine_def Let_def)
    then show ?thesis by (simp add: tearing_def)
  next
    case (Some e)
    then have "Manager_Drop key m = scheduleDrain c e True ?m"
      using assms by (simp add: Manager_Drop_def Cell_Engine_def Let_def)
    then show ?thesis
      using scheduleDrain_tearing [where infl = infl and m = ?m and c = c and e = e and td = True] same by metis
  qed
  then show "tearing infl (Manager_Drop key m) d \<Longrightarrow> tearing infl m d \<or> d = c"
    "tearing infl m d \<Longrightarrow> tearing infl (Manager_Drop key m) d" by blast+
  show "tearing infl (Manager_Drop key m) c" if "c_Key (st_cells m c) = key" "Manager_Get key (Manager_Drop key m) \<noteq> None"
    using assms that
    by (cases "c_engine (st_cells m c)"; cases rule: scheduleDrain_cases [of ?m c "the (c_engine (st_cells m c))" True];
        auto simp: Manager_Drop_def Cell_Engine_def Let_def Manager_Get_def Manager_drain_def tearing_def)
qed

text \<open>The other operations order none.\<close>

lemma keep_teardowns:
  "(\<exists>t \<in> set (m_drainCh (scheduleDrain c e False m)). t_teardown t \<and> t_cell t = d) \<longleftrightarrow>
   (\<exists>t \<in> set (m_drainCh m). t_teardown t \<and> t_cell t = d)"
  using scheduleDrain_tearing [where infl = "[]" and c = c and e = e and td = False and m = m and d = d]
  by (simp add: tearing_def) blast

lemmas tearing_simps = tearing_def fun_eq_iff bex_Un keep_teardowns

lemma Ensure_role_tearing: "tearing infl (Ensure_role c key role m) = tearing infl m"
  by (auto simp: Ensure_role_def Manager_Promote_def Manager_Demote_def Let_def tearing_simps split: option.split)

lemma Ensure_tearing: "tearing infl (snd (Manager_Ensure cfg key role m)) = tearing infl m"
proof -
  have "m_drainCh (snd (Ensure_create cfg key m)) = m_drainCh m"
    by (auto simp: Ensure_create_def Let_def split: sum.split prod.split)
  from tearing_cong [OF this, of infl] show ?thesis
    by (auto simp: Manager_Ensure_def Ensure_role_tearing split: option.split prod.split sum.split)
qed

lemma ApplyConfig_tearing: "tearing infl (snd (Manager_ApplyConfig cfg key raw now m)) = tearing infl m"
  by (auto simp: Manager_ApplyConfig_def Let_def tearing_simps split: option.split prod.split sum.split)

lemma Ensure_registered:
  assumes "Manager_Get key (snd (Manager_Ensure (production_cfg L opts) key role m)) = Some c"
  shows "Manager_Get key m = Some c \<or> Manager_Get key m = None \<and> c = m_nextCell m"
proof (cases "Manager_Get key m")
  case None
  obtain m1 where "Ensure_create (production_cfg L opts) key m = (Inr (m_nextCell m), m1)"
    "smap_Load (m_cells m1) = (smap_Load (m_cells m))(key \<mapsto> m_nextCell m)"
    by (rule create_fresh [OF None, of L opts])
  with None assms show ?thesis by (simp add: Manager_Ensure_def Manager_Get_def)
qed (use assms in \<open>simp add: Manager_Ensure_def Manager_Get_def\<close>)

lemma tearing_known: "mgr_inv infl m \<Longrightarrow> tearing infl m c \<Longrightarrow> c < m_nextCell m"
  by (auto simp: mgr_inv_def tasks_wf_def task_wf_def engines_wf_def tearing_def)

text \<open>A registered cell in the draining state has its teardown ahead of it.\<close>

lemma draining_tearing:
  "mgr_inv infl m \<Longrightarrow> Manager_Get k m = Some c \<Longrightarrow> c_state (st_cells m c) = StateDraining \<Longrightarrow> tearing infl m c"
  using registry_wfD(2) [of m k c]
  by (auto simp: mgr_inv_def draining_pending_def registered_open_def Manager_Get_def tearing_def)

lemma Drop_frame:
  assumes "Manager_Get key m \<noteq> Some d"
  shows "st_cells (Manager_Drop key m) d = st_cells m d"
  using assms
  by (cases "Manager_Get key m"; cases "c_engine (st_cells m (the (Manager_Get key m)))";
      cases rule: scheduleDrain_cases [of "Cell_setState (the (Manager_Get key m)) StateDraining m"
        "the (Manager_Get key m)" "the (c_engine (st_cells m (the (Manager_Get key m))))" True];
      auto simp: Manager_Drop_def Cell_Engine_def Let_def Manager_drain_def)

lemma drained_unregistered:
  assumes "mgr_inv [] m" "m_drainCh m = []" "smap_Load (m_cells m) k = Some c"
  shows "c_state (st_cells m c) \<noteq> StateDraining"
  using assms registry_wfD(2) [of m k c] by (auto simp: mgr_inv_def draining_pending_def registered_open_def)

text \<open>
  A dropped cell goes away completely, and alone. Once the drain queue has been worked off
  after \<open>Drop\<close>, the queue is empty, the cluster has no cell, the cell's context is closed and with
  it the context of each of its engines, and every other cluster whose cell is not itself being
  torn down keeps that cell.
\<close>

lemma drop_completes:
  assumes "mgr_inv [] m" and "Manager_Get key m = Some c"
  shows "mgr_inv [] (drain_all (Manager_Drop key m)) \<and> m_drainCh (drain_all (Manager_Drop key m)) = [] \<and>
    Manager_Get key (drain_all (Manager_Drop key m)) = None \<and>
    c_closed (st_cells (drain_all (Manager_Drop key m)) c) \<and>
    (\<forall>e. eng_parent (st_engines (drain_all (Manager_Drop key m)) e) = c \<longrightarrow>
       ctx_done e (drain_all (Manager_Drop key m))) \<and>
    (\<forall>k d. k \<noteq> key \<longrightarrow> Manager_Get k m = Some d \<longrightarrow> \<not> tearing [] m d \<longrightarrow>
       Manager_Get k (drain_all (Manager_Drop key m)) = Some d)"
proof -
  let ?d = "Manager_Drop key m" and ?m = "drain_all (Manager_Drop key m)"
  have reg: "registry_wf m" using assms(1) by (simp add: mgr_inv_def)
  have key: "c_Key (st_cells m c) = key" "c < m_nextCell m"
    using registry_wfD(2,3) [OF reg] assms(2) by (auto simp: Manager_Get_def)
  note inv = Drop_inv [OF assms(1), of key]
  note run = drain_all_facts [OF inv] and drop = Drop_state [OF assms(2)]
  have minv: "mgr_inv [] ?m" and empty: "m_drainCh ?m = []" using run by simp_all
  have st: "c_state (st_cells ?m c) = StateDraining" using run drop(1) by simp
  have gone: "smap_Load (m_cells ?m) key = None"
  proof (rule ccontr)
    assume "smap_Load (m_cells ?m) key \<noteq> None"
    then obtain d where d: "smap_Load (m_cells ?m) key = Some d" by blast
    then have "smap_Load (m_cells ?d) key = Some d" using run by blast
    then have "d = c" using drop(2) by auto
    then show False using drained_unregistered [OF minv empty d] st by simp
  qed
  have cl: "c < m_nextCell ?m" using key(2) by (simp add: drain_all_def nextCell_iter nextCell_Drop)
  then have closed: "c_closed (st_cells ?m c)"
    using minv st empty by (auto simp: mgr_inv_def draining_pending_def)
  have "Manager_Get k ?m = Some d"
    if "k \<noteq> key" "Manager_Get k m = Some d" "\<not> tearing [] m d" for k d
  proof -
    have "d \<noteq> c" using that key registry_wfD(3) [OF reg] by (auto simp: Manager_Get_def)
    then have "smap_Load (m_cells ?d) k = Some d" "\<not> tearing [] ?d d"
      using Drop_tearing(1) [OF assms(2), of "[]" d] drop(3) [OF that(1) key(1)] that by (auto simp: Manager_Get_def)
    then show ?thesis using run unfolding Manager_Get_def by blast
  qed
  with minv empty gone closed show ?thesis by (simp add: Manager_Get_def ctx_done_def)
qed

lemma drop_completes_example:
  "Manager_Get ''c1'' (drain_all (Manager_Drop ''c1'' demo_mgr)) = None"
  using drop_completes [OF demo_mgr_inv, of "''c1''" 0]
  by (simp add: Manager_Get_def smap_Load_def demo_mgr_def)


section \<open>Three sequences that lose a cell's service\<close>

lemma worker_one:
  assumes "m_drainCh m = [t]"
  shows "drainWorker_iter m = Manager_drain t (m\<lparr>m_drainCh := []\<rparr>)"
  using assms by (simp add: drainWorker_iter_def)

text \<open>
  C34. A cell that returns to primary serves a cancelled engine. A demotion drains the engine but
  leaves the cell's engine pointer and hash in place. When the cluster is assigned back with the
  configuration it had, \<open>Ensure\<close> makes the cell primary, \<open>ApplyConfig\<close> finds the hash unchanged
  and compiles nothing: the cell serves an engine whose context the drain has cancelled, and
  repeating the apply does not help.
\<close>

theorem promoted_cell_serves_cancelled_engine:
  assumes "Manager_Get key m = Some c" and "c_role (st_cells m c) = RolePrimary"
    and "c_state (st_cells m c) = StatePrimary" and "m_drainCh m = []"
    and "c_engine (st_cells m c) = Some e" and "c_currentHash (st_cells m c) = Some (HashConfig raw)"
    and "m' = snd (Manager_Ensure cfg key RolePrimary
           (drainWorker_iter (snd (Manager_Ensure cfg key RoleStandby m))))"
  shows "Manager_ApplyConfig cfg key raw now m' = (Inr False, m') \<and> Cell_Role c m' = RolePrimary \<and>
    Cell_State c m' = StatePrimary \<and> Cell_Engine c m' = Some e \<and> ctx_done e m'"
proof -
  define m2 where "m2 = Cell_setState c StateStandby (Cell_setRole c RoleStandby m)"
  have load: "smap_Load (m_cells m) key = Some c" using assms(1) by (simp add: Manager_Get_def)
  have "snd (Manager_Ensure cfg key RoleStandby m) = scheduleDrain c e False m2"
    using assms by (simp add: Manager_Ensure_def Ensure_role_def Cell_Role_def Manager_Demote_def
        Cell_State_def Cell_Engine_def Let_def m2_def)
  also have "\<dots> = m2\<lparr>m_drainCh := [mk_task c e False]\<rparr>"
    using assms(4) scheduleDrain_room [of m2 c e False] by (simp add: m2_def drainCh_cap_def)
  finally have m': "m' = snd (Manager_Ensure cfg key RolePrimary
      (Manager_drain (mk_task c e False) (m2\<lparr>m_drainCh := []\<rparr>)))"
    using assms(7) by (simp add: worker_one)
  show ?thesis
    using assms(1,3,5,6) load unfolding m'
    by (simp add: Manager_Ensure_def Manager_Get_def Ensure_role_def Cell_Role_def Manager_Promote_def
        Cell_State_def Cell_Engine_def Let_def m2_def Manager_drain_def Manager_ApplyConfig_def ctx_done_def)
qed

definition demo_applied :: Manager where
  "demo_applied = demo_mgr\<lparr>st_cells := (\<lambda>_. zero_cell)(0 := demo_cell\<lparr>c_currentHash := Some (HashConfig ''v2'')\<rparr>)\<rparr>"

theorem promoted_cell_serves_cancelled_engine_witness:
  "ctx_done 0 (snd (Manager_Ensure (production_cfg demo_llmd demo_opts) ''c1'' RolePrimary
     (drainWorker_iter (snd (Manager_Ensure (production_cfg demo_llmd demo_opts) ''c1'' RoleStandby demo_applied)))))"
  using promoted_cell_serves_cancelled_engine [of "''c1''" demo_applied 0 0 "''v2''" _
      "production_cfg demo_llmd demo_opts", OF _ _ _ _ _ _ refl]
  by (simp add: demo_applied_def demo_defs Manager_Get_def smap_Load_def)

text \<open>
  C35. A cluster assigned back while its cell is still draining is lost. \<open>Ensure\<close> returns the
  draining cell without an error, \<open>ApplyConfig\<close> answers that the cell is not assigned, and when
  the drain completes the cluster has no cell, although its last assignment was accepted.
\<close>

theorem reassigned_while_draining_lost:
  assumes "Manager_Get key m = Some c" and "c_Key (st_cells m c) = key"
    and "m_drainCh m = []" and "c_engine (st_cells m c) = Some e"
  shows "\<exists>m'. Manager_Ensure cfg key RolePrimary (Manager_Drop key m) = (Inr c, m') \<and>
    Manager_ApplyConfig cfg key raw now m' = (Inl ErrNotAssigned, m') \<and>
    Manager_Get key (drainWorker_iter m') = None"
proof -
  have load: "smap_Load (m_cells m) key = Some c" using assms(1) by (simp add: Manager_Get_def)
  define m1 where "m1 = (Cell_setState c StateDraining m)\<lparr>m_drainCh := [mk_task c e True]\<rparr>"
  have "Manager_Drop key m = scheduleDrain c e True (Cell_setState c StateDraining m)"
    using assms by (simp add: Manager_Drop_def Cell_Engine_def Let_def)
  also have "\<dots> = m1"
    using assms(3) by (simp add: scheduleDrain_room drainCh_cap_def m1_def)
  finally have drop: "Manager_Drop key m = m1" .
  have ens: "Manager_Ensure cfg key RolePrimary m1 = (Inr c, m1)"
    using load by (simp add: Manager_Ensure_def Manager_Get_def Ensure_role_def Manager_Promote_def
        Cell_State_def m1_def)
  have app: "Manager_ApplyConfig cfg key raw now m1 = (Inl ErrNotAssigned, m1)"
    using load by (simp add: Manager_ApplyConfig_def Manager_Get_def Cell_State_def m1_def)
  have "Manager_Get key (drainWorker_iter m1) = None"
    using load assms(2) by (simp add: worker_one m1_def Manager_drain_def Manager_Get_def)
  with drop ens app show ?thesis by simp
qed

theorem reassigned_while_draining_lost_witness:
  "\<exists>m'. Manager_Ensure (production_cfg demo_llmd demo_opts) ''c1'' RolePrimary (Manager_Drop ''c1'' demo_mgr) = (Inr 0, m') \<and>
     Manager_Get ''c1'' (drainWorker_iter m') = None"
  using reassigned_while_draining_lost [of "''c1''" demo_mgr 0 0 "production_cfg demo_llmd demo_opts"]
  by (auto simp: demo_defs Manager_Get_def smap_Load_def)

text \<open>
  C36. A late \<open>markReady\<close> undoes a transition of the watcher. The goroutine that waits for the plugins has
  seen the cell in the creating state and is about to store standby. When the cell is dropped in between, the store takes it
  out of the draining state: \<open>Ensure\<close> now makes it primary and \<open>ApplyConfig\<close> accepts the configuration it
  has, both without an error, and then the teardown that \<open>Drop\<close> had queued removes the cell. When the cell is
  promoted in between, it stays primary in the state standby, and no further \<open>Ensure\<close> repairs that. (The
  system reaches such a state: \<open>late_ready_reachable\<close> in \<open>Engine_Lifecycle\<close>.)
\<close>

theorem late_ready_overwrites:
  assumes "Manager_Get key m = Some c" and "c_Key (st_cells m c) = key" and "c_readyOnce (st_cells m c) = BeforeStore"
    and "m_drainCh m = []" and "c_engine (st_cells m c) = Some e" and "c_currentHash (st_cells m c) = Some (HashConfig raw)"
  shows "Cell_State c (Manager_Drop key m) = StateDraining \<and>
    (\<exists>m'. Manager_Ensure cfg key RolePrimary (markReady_store c (Manager_Drop key m)) = (Inr c, m') \<and>
       Cell_Role c m' = RolePrimary \<and> Cell_State c m' \<noteq> StateDraining \<and>
       Manager_ApplyConfig cfg key raw now m' = (Inr False, m') \<and> Manager_Get key (drainWorker_iter m') = None) \<and>
    (c_state (st_cells m c) \<noteq> StateDraining \<longrightarrow>
       (let m' = markReady_store c (Manager_Promote key m)
        in Cell_Role c m' = RolePrimary \<and> Cell_State c m' = StateStandby \<and>
           Manager_Ensure cfg key RolePrimary m' = (Inr c, m')))"
proof -
  have load: "smap_Load (m_cells m) key = Some c" using assms(1) by (simp add: Manager_Get_def)
  define m1 where "m1 = (Cell_setState c StateDraining m)\<lparr>m_drainCh := [mk_task c e True]\<rparr>"
  have "Manager_Drop key m = scheduleDrain c e True (Cell_setState c StateDraining m)"
    using assms by (simp add: Manager_Drop_def Cell_Engine_def Let_def)
  then have drop: "Manager_Drop key m = m1"
    using assms(4) by (simp add: scheduleDrain_room drainCh_cap_def m1_def)
  define m2 where "m2 = markReady_store c m1"
  have m2: "Manager_Get key m2 = Some c" "m_drainCh m2 = [mk_task c e True]"
    "st_cells m2 c = (st_cells m c)\<lparr>c_readyOnce := NotRunning, c_state := StateStandby\<rparr>"
    using load assms(3) by (simp_all add: m2_def m1_def Manager_Get_def)
  define m' where "m' = Ensure_role c key RolePrimary m2"
  have ens: "Manager_Ensure cfg key RolePrimary m2 = (Inr c, m')" using m2(1) by (simp add: Manager_Ensure_def m'_def)
  have cells: "c_role (st_cells m' c) = RolePrimary" "c_state (st_cells m' c) \<noteq> StateDraining"
    "c_currentHash (st_cells m' c) = Some (HashConfig raw)" "c_Key (st_cells m' c) = key"
    "m_drainCh m' = [mk_task c e True]" "m_cells m' = m_cells m2"
    using m2 assms(2,6) by (auto simp: m'_def Ensure_role_def Manager_Promote_def Cell_Role_def Cell_State_def Let_def)
  have "Manager_ApplyConfig cfg key raw now m' = (Inr False, m')"
    using cells m2(1) by (simp add: Manager_ApplyConfig_def Manager_Get_def Cell_State_def)
  moreover have "Manager_Get key (drainWorker_iter m') = None"
    using cells m2(1) by (simp add: worker_one Manager_drain_def Manager_Get_def)
  moreover have "Cell_State c m1 = StateDraining" by (simp add: Cell_State_def m1_def)
  moreover have "let m' = markReady_store c (Manager_Promote key m)
      in Cell_Role c m' = RolePrimary \<and> Cell_State c m' = StateStandby \<and> Manager_Ensure cfg key RolePrimary m' = (Inr c, m')"
    if "c_state (st_cells m c) \<noteq> StateDraining"
    using that load assms(1,3) Promote_cells [OF assms(1)]
    by (simp add: Let_def Cell_Role_def Cell_State_def Manager_Ensure_def Ensure_role_def Manager_Get_def)
  ultimately show ?thesis
    unfolding drop m2_def [symmetric] using ens cells(1,2) by (auto simp: Cell_Role_def Cell_State_def)
qed

definition demo_starting :: Manager where
  "demo_starting = demo_mgr\<lparr>st_cells := (\<lambda>_. zero_cell)(0 := demo_cell\<lparr>c_currentHash := Some (HashConfig ''v2''),
     c_role := RoleStandby, c_state := StateCreating, c_readyOnce := BeforeStore\<rparr>)\<rparr>"

theorem late_ready_overwrites_witness:
  "\<exists>m'. Manager_Ensure (production_cfg demo_llmd demo_opts) ''c1'' RolePrimary
       (markReady_store 0 (Manager_Drop ''c1'' demo_starting)) = (Inr 0, m') \<and>
     Manager_ApplyConfig (production_cfg demo_llmd demo_opts) ''c1'' ''v2'' 5 m' = (Inr False, m') \<and>
     Manager_Get ''c1'' (drainWorker_iter m') = None"
proof -
  have "Manager_Get ''c1'' demo_starting = Some 0" "c_Key (st_cells demo_starting 0) = ''c1''"
    "c_readyOnce (st_cells demo_starting 0) = BeforeStore" "m_drainCh demo_starting = []"
    "c_engine (st_cells demo_starting 0) = Some 0" "c_currentHash (st_cells demo_starting 0) = Some (HashConfig ''v2'')"
    by (simp_all add: demo_starting_def demo_defs Manager_Get_def smap_Load_def)
  from late_ready_overwrites [OF this, of "production_cfg demo_llmd demo_opts" 5] show ?thesis by blast
qed

end
