(* ===== verification/Demux.thy ===== *)
theory Demux
  imports Manager_Contracts
begin

text \<open>
  \<open>pkg/demux/demux.go\<close>, \<open>server.go\<close> and \<open>metrics.go\<close>: the request path. A stream is routed by the pool
  in the metadata of its first message to a cell, admitted to the cell's current engine and handed
  to it together with the message already read.

  The state is the manager's, extended by the error counter. A stream is the list of the outcomes
  of its receives. The library functions that read headers and metadata (\<open>ExtractHeaderValue\<close>,
  \<open>ExtractMetadataValues\<close>) and the engine itself (\<open>Streamer().Process\<close>) are arguments; the engine's run
  is a function on the whole state, because other goroutines go on while it serves the stream, and
  it returns or panics. \<open>uuid.NewString\<close> is the string it returns. The reads of the admission are separate
  (\<open>Process_admit_with\<close>), with what the other goroutines do between them as an argument.
\<close>

section \<open>Data\<close>

definition MetadataNamespace :: string where "MetadataNamespace = ''llm-d.ai''"
definition PoolMetadataKey :: string where "PoolMetadataKey = ''inference-pool''"
definition RequestIDHeaderKey :: string where "RequestIDHeaderKey = ''x-request-id''"

definition ErrNoPoolMetadata :: go_error where
  "ErrNoPoolMetadata = ErrSentinel ''missing inference-pool metadata''"
definition ErrUnknownPool :: go_error where
  "ErrUnknownPool = ErrSentinel ''unknown inference pool''"
definition ErrCellDraining :: go_error where
  "ErrCellDraining = ErrSentinel ''cell is not serving (draining or not ready)''"

text \<open>A value of type \<open>any\<close> in the metadata, and the parts of an ext-proc message the demux reads: the
  oneof \<open>Request\<close> (\<open>None\<close>: any other message) with the header map, nil or a list.\<close>

datatype go_any = AnyMap "(string, go_any) gomap" | AnyString string | AnyOther

record HttpHeaders =
  hh_Headers :: "(string \<times> string) list option"

record ProcessingRequest =
  pr_RequestHeaders :: "HttpHeaders option option"
  pr_Metadata :: "(string, go_any) gomap"

type_synonym stream = "ProcessingRequest result list"

record demux_lib =
  ExtractHeaderValue :: "HttpHeaders \<Rightarrow> string \<Rightarrow> string"
  ExtractMetadataValues :: "ProcessingRequest \<Rightarrow> (string, go_any) gomap"

record Server =
  sv_defaultPool :: string

record DemuxState = Manager +
  dx_errors :: "string \<Rightarrow> nat"

section \<open>Streams\<close>

definition EOF :: go_error where "EOF = ErrSentinel ''EOF''"

fun stream_Recv :: "stream \<Rightarrow> ProcessingRequest result \<times> stream" where
  "stream_Recv [] = (Inl EOF, [])"
| "stream_Recv (r # rs) = (r, rs)"

record bufferedStream =
  bs_inner :: stream
  bs_first :: ProcessingRequest
  bs_ctx :: "string option"
  bs_used :: bool

definition bufferedStream_Context :: "string \<Rightarrow> bufferedStream \<Rightarrow> string" where
  "bufferedStream_Context inner_ctx b = (case bs_ctx b of Some ctx \<Rightarrow> ctx | None \<Rightarrow> inner_ctx)"

definition bufferedStream_Recv :: "bufferedStream \<Rightarrow> ProcessingRequest result \<times> bufferedStream" where
  "bufferedStream_Recv b =
     (if \<not> bs_used b then (Inr (bs_first b), b\<lparr>bs_used := True\<rparr>)
      else (let (r, s) = stream_Recv (bs_inner b) in (r, b\<lparr>bs_inner := s\<rparr>)))"

section \<open>Routing\<close>

definition ManagerRouter_Route :: "string \<Rightarrow> 'a Manager_scheme \<Rightarrow> nat result" where
  "ManagerRouter_Route pool m =
     (case Manager_Get pool m of None \<Rightarrow> Inl ErrUnknownPool | Some c \<Rightarrow> Inr c)"

fun Error_text :: "go_error \<Rightarrow> string" where
  "Error_text (ErrSentinel t) = t"
| "Error_text (ErrMsg t) = t"
| "Error_text (ErrWrap p e) = p @ '': '' @ Error_text e"
| "Error_text (ErrStatus _ t) = t"

definition toStatus :: "go_error \<Rightarrow> go_error" where
  "toStatus err =
     (if errors_Is err ErrNoPoolMetadata then ErrStatus CodeInternal (Error_text ErrNoPoolMetadata)
      else if errors_Is err ErrUnknownPool then ErrStatus CodeInternal (Error_text ErrUnknownPool)
      else if errors_Is err ErrCellDraining then ErrStatus CodeUnavailable (Error_text ErrCellDraining)
      else err)"

definition extractPool :: "demux_lib \<Rightarrow> ProcessingRequest \<Rightarrow> string" where
  "extractPool lib req =
     (case map_of (ExtractMetadataValues lib req) MetadataNamespace of
        Some (AnyMap ns) \<Rightarrow>
          (case map_of ns PoolMetadataKey of Some (AnyString v) \<Rightarrow> v | _ \<Rightarrow> '''')
      | _ \<Rightarrow> '''')"

definition demux_count :: "string \<Rightarrow> DemuxState \<Rightarrow> DemuxState" where
  "demux_count reason m = m\<lparr>dx_errors := (dx_errors m)(reason := dx_errors m reason + 1)\<rparr>"

section \<open>Process\<close>

text \<open>The request ID: read from the headers, or generated and appended to them.\<close>

definition ensure_request_id :: "demux_lib \<Rightarrow> string \<Rightarrow> HttpHeaders \<Rightarrow> string \<times> HttpHeaders" where
  "ensure_request_id lib newid hh =
     (let requestID = ExtractHeaderValue lib hh RequestIDHeaderKey
      in if requestID = '''' then
           (newid, hh\<lparr>hh_Headers := Some ((case hh_Headers hh of None \<Rightarrow> [] | Some hs \<Rightarrow> hs) @
                       [(RequestIDHeaderKey, newid)])\<rparr>)
         else (requestID, hh))"

text \<open>Everything up to the admission: the error to return, or the cell, its tracked engine and the
  stream to hand over. Between the calls of \<open>Route\<close>, \<open>Engine\<close>, \<open>Role\<close> and \<open>Track\<close> other goroutines may change the
  state: \<open>others n\<close> is what they do after the \<open>n\<close>-th of the first three. \<open>Process_admit\<close> is the case in which they do
  nothing.\<close>

definition Process_admit_with :: "(nat \<Rightarrow> DemuxState \<Rightarrow> DemuxState) \<Rightarrow> demux_lib \<Rightarrow> Server \<Rightarrow> string \<Rightarrow> stream \<Rightarrow> DemuxState \<Rightarrow>
    (nat \<times> nat \<times> bufferedStream) result \<times> DemuxState" where
  "Process_admit_with others lib s newid stream m =
     (case stream_Recv stream of
        (Inl err, _) \<Rightarrow> (Inl err, m)
      | (Inr first, rest) \<Rightarrow>
     (case pr_RequestHeaders first of
        None \<Rightarrow> (Inl (ErrStatus CodeInternal ''first ext-proc message is not RequestHeaders''), m)
      | Some None \<Rightarrow> (Inl (ErrStatus CodeInternal ''first ext-proc message is not RequestHeaders''), m)
      | Some (Some hh) \<Rightarrow>
     (let (requestID, hh') = ensure_request_id lib newid hh;
          first' = first\<lparr>pr_RequestHeaders := Some (Some hh')\<rparr>;
          pool0 = extractPool lib first';
          pool = (if pool0 = [] then sv_defaultPool s else pool0)
      in if pool = [] then (Inl (toStatus ErrNoPoolMetadata), demux_count ''no-pool'' m)
         else
     (case ManagerRouter_Route pool m of
        Inl err \<Rightarrow> (Inl (toStatus err), demux_count ''unknown-pool'' m)
      | Inr c \<Rightarrow>
     (let m1 = others 0 m in
      case Cell_Engine c m1 of
        None \<Rightarrow> (Inl (toStatus ErrCellDraining), demux_count ''cell-draining'' m1)
      | Some eng \<Rightarrow>
     (let m2 = others 1 m1 in
         if Cell_Role c m2 \<noteq> RolePrimary then (Inl (toStatus ErrCellDraining), demux_count ''cell-draining'' m2)
         else
     (let (ok, m') = Cell_Track c eng (others 2 m2)
      in if \<not> ok then (Inl (toStatus ErrCellDraining), demux_count ''cell-draining'' m')
         else (Inr (c, eng, \<lparr>bs_inner = rest, bs_first = first', bs_ctx = Some pool, bs_used = False\<rparr>), m'))))))))"

definition Process_admit :: "demux_lib \<Rightarrow> Server \<Rightarrow> string \<Rightarrow> stream \<Rightarrow> DemuxState \<Rightarrow>
    (nat \<times> nat \<times> bufferedStream) result \<times> DemuxState" where
  "Process_admit = Process_admit_with (\<lambda>_ m. m)"

lemmas admit_defs = Process_admit_def Process_admit_with_def

datatype engine_outcome = Returned "go_error option" | Panicked string

definition Process :: "demux_lib \<Rightarrow> (nat \<Rightarrow> bufferedStream \<Rightarrow> DemuxState \<Rightarrow> engine_outcome \<times> DemuxState) \<Rightarrow>
    Server \<Rightarrow> string \<Rightarrow> stream \<Rightarrow> DemuxState \<Rightarrow> go_error option \<times> DemuxState" where
  "Process lib Streamer_Process s newid stream m =
     (case Process_admit lib s newid stream m of
        (Inl err, m') \<Rightarrow> (Some err, m')
      | (Inr (c, eng, b), m') \<Rightarrow>
          (let (out, m'') = Streamer_Process eng b m'; m3 = wg_Done eng m''
           in case out of
                Returned err \<Rightarrow> (err, m3)
              | Panicked r \<Rightarrow> (Some (ErrStatus CodeInternal (''internal error: '' @ r)), m3)))"

section \<open>The stream the engine sees\<close>

text \<open>The outcomes of \<open>n\<close> receives in a row.\<close>

fun recv_n :: "('s \<Rightarrow> 'r \<times> 's) \<Rightarrow> nat \<Rightarrow> 's \<Rightarrow> 'r list" where
  "recv_n recv 0 s = []"
| "recv_n recv (Suc n) s = (let (r, s') = recv s in r # recv_n recv n s')"

lemma recv_n_used:
  "bs_used b \<Longrightarrow> recv_n bufferedStream_Recv n b = recv_n stream_Recv n (bs_inner b)"
  by (induction n arbitrary: b) (simp_all add: bufferedStream_Recv_def Let_def case_prod_unfold)

lemma buffered_stream:
  "\<not> bs_used b \<Longrightarrow> recv_n bufferedStream_Recv n b = recv_n stream_Recv n (Inr (bs_first b) # bs_inner b)"
  by (cases n) (simp_all add: bufferedStream_Recv_def recv_n_used)


section \<open>The router\<close>

locale pool_router =
  fixes route :: "string \<Rightarrow> 'm \<Rightarrow> nat result"
  assumes route_error: "route pool m = Inl err \<Longrightarrow> err = ErrUnknownPool"
begin

lemma route_status:
  "route pool m = Inl err \<Longrightarrow> toStatus err = ErrStatus CodeInternal ''unknown inference pool''"
  by (drule route_error) (simp add: toStatus_def ErrUnknownPool_def ErrNoPoolMetadata_def)

end

interpretation manager_router: pool_router ManagerRouter_Route
  by unfold_locales (auto simp: ManagerRouter_Route_def split: option.splits)

lemma toStatus_simps [simp]:
  "toStatus ErrNoPoolMetadata = ErrStatus CodeInternal ''missing inference-pool metadata''"
  "toStatus ErrCellDraining = ErrStatus CodeUnavailable ''cell is not serving (draining or not ready)''"
  by (simp_all add: toStatus_def ErrUnknownPool_def ErrNoPoolMetadata_def ErrCellDraining_def)

section \<open>Admission\<close>

text \<open>The first message with the request ID in its headers, and the pool it is for: the one in its metadata,
  or else the default.\<close>

definition with_request_id :: "demux_lib \<Rightarrow> string \<Rightarrow> ProcessingRequest \<Rightarrow> HttpHeaders \<Rightarrow> ProcessingRequest" where
  "with_request_id lib newid first hh = first\<lparr>pr_RequestHeaders := Some (Some (snd (ensure_request_id lib newid hh)))\<rparr>"

definition request_pool :: "demux_lib \<Rightarrow> Server \<Rightarrow> string \<Rightarrow> ProcessingRequest \<Rightarrow> HttpHeaders \<Rightarrow> string" where
  "request_pool lib s newid first hh =
     (if extractPool lib (with_request_id lib newid first hh) = [] then sv_defaultPool s
      else extractPool lib (with_request_id lib newid first hh))"

lemma admit_cases:
  obtains (received_error) err where "fst (stream_Recv stream) = Inl err"
      "Process_admit lib s newid stream m = (Inl err, m)"
  | (malformed) first where "fst (stream_Recv stream) = Inr first" "pr_RequestHeaders first \<in> {None, Some None}"
      "Process_admit lib s newid stream m =
         (Inl (ErrStatus CodeInternal ''first ext-proc message is not RequestHeaders''), m)"
  | (no_pool) first hh where "fst (stream_Recv stream) = Inr first" "pr_RequestHeaders first = Some (Some hh)"
      "request_pool lib s newid first hh = []" "Process_admit lib s newid stream m =
         (Inl (ErrStatus CodeInternal ''missing inference-pool metadata''), demux_count ''no-pool'' m)"
  | (unknown) first hh where "fst (stream_Recv stream) = Inr first" "pr_RequestHeaders first = Some (Some hh)"
      "request_pool lib s newid first hh \<noteq> []" "Manager_Get (request_pool lib s newid first hh) m = None"
      "Process_admit lib s newid stream m =
         (Inl (ErrStatus CodeInternal ''unknown inference pool''), demux_count ''unknown-pool'' m)"
  | (not_serving) first hh c where "fst (stream_Recv stream) = Inr first" "pr_RequestHeaders first = Some (Some hh)"
      "request_pool lib s newid first hh \<noteq> []" "Manager_Get (request_pool lib s newid first hh) m = Some c"
      "Cell_Engine c m = None \<or> Cell_Role c m \<noteq> RolePrimary" "Process_admit lib s newid stream m =
         (Inl (ErrStatus CodeUnavailable ''cell is not serving (draining or not ready)''), demux_count ''cell-draining'' m)"
  | (admitted) first hh c e where "fst (stream_Recv stream) = Inr first"
      "pr_RequestHeaders first = Some (Some hh)" "request_pool lib s newid first hh \<noteq> []"
      "Manager_Get (request_pool lib s newid first hh) m = Some c" "Cell_Engine c m = Some e" "Cell_Role c m = RolePrimary"
      "Process_admit lib s newid stream m =
         (Inr (c, e, \<lparr>bs_inner = snd (stream_Recv stream), bs_first = with_request_id lib newid first hh,
             bs_ctx = Some (request_pool lib s newid first hh), bs_used = False\<rparr>), wg_Add e m)"
proof -
  obtain r rest where recv: "stream_Recv stream = (r, rest)" by fastforce
  show thesis
  proof (cases r)
    case (Inl err)
    with recv show ?thesis by (intro received_error) (simp_all add: admit_defs)
  next
    case (Inr first)
    show ?thesis
    proof (cases "pr_RequestHeaders first = None \<or> pr_RequestHeaders first = Some None")
      case True
      with recv Inr show ?thesis by (intro malformed [of first]) (auto simp: admit_defs)
    next
      case False
      then obtain hh where hh: "pr_RequestHeaders first = Some (Some hh)" by auto
      define first' where "first' = with_request_id lib newid first hh"
      define pool where "pool = request_pool lib s newid first hh"
      have run: "Process_admit lib s newid stream m =
          (if pool = [] then (Inl (toStatus ErrNoPoolMetadata), demux_count ''no-pool'' m)
           else case ManagerRouter_Route pool m of
              Inl err \<Rightarrow> (Inl (toStatus err), demux_count ''unknown-pool'' m)
            | Inr c \<Rightarrow> (case Cell_Engine c m of
                None \<Rightarrow> (Inl (toStatus ErrCellDraining), demux_count ''cell-draining'' m)
              | Some eng \<Rightarrow>
                  if Cell_Role c m \<noteq> RolePrimary then (Inl (toStatus ErrCellDraining), demux_count ''cell-draining'' m)
                  else (let (ok, m') = Cell_Track c eng m
                        in if \<not> ok then (Inl (toStatus ErrCellDraining), demux_count ''cell-draining'' m')
                           else (Inr (c, eng, \<lparr>bs_inner = rest, bs_first = first', bs_ctx = Some pool, bs_used = False\<rparr>), m'))))"
        by (simp only: admit_defs recv Inr hh first'_def pool_def request_pool_def with_request_id_def
            Let_def case_prod_unfold prod.case sum.case option.case fst_conv snd_conv)
      note here = recv Inr hh pool_def
      consider "pool = ''''" | "pool \<noteq> ''''" "Manager_Get pool m = None"
        | c where "pool \<noteq> ''''" "Manager_Get pool m = Some c" "Cell_Engine c m = None \<or> Cell_Role c m \<noteq> RolePrimary"
        | c e where "pool \<noteq> ''''" "Manager_Get pool m = Some c" "Cell_Engine c m = Some e" "Cell_Role c m = RolePrimary"
        by (metis option.exhaust)
      then show ?thesis
      proof cases
        case 1
        with here show ?thesis by (intro no_pool [of first hh]) (simp_all add: run)
      next
        case 2
        then have "ManagerRouter_Route pool m = Inl ErrUnknownPool" by (simp add: ManagerRouter_Route_def)
        with 2 here manager_router.route_status [OF this] show ?thesis
          by (intro unknown [of first hh]) (simp_all add: run)
      next
        case (3 c)
        with here show ?thesis
          by (intro not_serving [of first hh c]) (auto simp: run ManagerRouter_Route_def split: option.split)
      next
        case (4 c e)
        then have "Cell_Track c e m = (True, wg_Add e m)"
          by (simp add: Cell_Track_def Track_check_def Cell_Engine_def)
        with 4 here show ?thesis
          by (intro admitted [of first hh c e]) (simp_all add: run ManagerRouter_Route_def first'_def)
      qed
    qed
  qed
qed

text \<open>
  C19. Only a primary cell is served, and it sees the whole stream. If the engine gets to serve a
  stream, the pool in the metadata of the first message (the default pool when there is none) names a registered cell in
  the primary role, the engine is that cell's current
  one and holds the request in its wait group; and however often the engine receives, it gets what
  it would have got from the stream itself, the first message included (with the request ID
  header present).
\<close>

theorem only_primary_served:
  assumes "Process_admit lib s newid stream m = (Inr (c, e, b), m')"
  shows "\<exists>first hh. hd stream = Inr first \<and> pr_RequestHeaders first = Some (Some hh) \<and>
    Manager_Get (request_pool lib s newid first hh) m = Some c \<and> c_engine (st_cells m c) = Some e \<and>
    c_role (st_cells m c) = RolePrimary \<and> m' = wg_Add e m \<and>
    (\<forall>n. recv_n bufferedStream_Recv n b = recv_n stream_Recv n
       (Inr (first\<lparr>pr_RequestHeaders := Some (Some (snd (ensure_request_id lib newid hh)))\<rparr>) # tl stream))"
proof (cases rule: admit_cases [of stream lib s newid m])
  case (admitted first hh c' e')
  then have s: "stream = Inr first # tl stream" "snd (stream_Recv stream) = tl stream"
    by (cases stream; simp)+
  have eqs: "c' = c" "e' = e" "m' = wg_Add e m" "b = \<lparr>bs_inner = tl stream, bs_first = with_request_id lib newid first hh,
      bs_ctx = Some (request_pool lib s newid first hh), bs_used = False\<rparr>"
    using assms admitted(7) s(2) by auto
  have "recv_n bufferedStream_Recv n b = recv_n stream_Recv n
      (Inr (first\<lparr>pr_RequestHeaders := Some (Some (snd (ensure_request_id lib newid hh)))\<rparr>) # tl stream)" for n
    using buffered_stream [of b n] by (simp add: eqs(4) with_request_id_def)
  moreover have "hd stream = Inr first" using s(1) by (metis list.sel(1))
  ultimately show ?thesis
    using admitted eqs by (intro exI [of _ first] exI [of _ hh]) (simp add: Cell_Engine_def Cell_Role_def)
qed (use assms in auto)

definition demo_lib :: demux_lib where
  "demo_lib = \<lparr>ExtractHeaderValue = (\<lambda>hh k. case hh_Headers hh of None \<Rightarrow> '''' | Some hs \<Rightarrow>
       (case map_of hs k of None \<Rightarrow> '''' | Some v \<Rightarrow> v)),
     ExtractMetadataValues = pr_Metadata\<rparr>"

definition demo_first :: ProcessingRequest where
  "demo_first = \<lparr>pr_RequestHeaders = Some (Some \<lparr>hh_Headers = None\<rparr>),
     pr_Metadata = [(''llm-d.ai'', AnyMap [(''inference-pool'', AnyString ''c1'')])]\<rparr>"

definition demo_demux :: DemuxState where
  "demo_demux = Manager.extend demo_mgr \<lparr>dx_errors = (\<lambda>_. 0)\<rparr>"

lemma demo_admit:
  "\<exists>b. Process_admit demo_lib \<lparr>sv_defaultPool = ''''\<rparr> ''id-1'' [Inr demo_first] demo_demux = (Inr (0, 0, b), wg_Add 0 demo_demux)"
  by (simp add: admit_defs demo_lib_def demo_first_def demo_demux_def ensure_request_id_def
      extractPool_def MetadataNamespace_def PoolMetadataKey_def ManagerRouter_Route_def Manager_Get_def
      smap_Load_def Cell_Engine_def Cell_Role_def Cell_Track_def Track_check_def demo_mgr_def demo_cell_def
      Manager.extend_def Let_def)

theorem only_primary_served_witness:
  "\<exists>pool. Manager_Get pool demo_demux = Some 0 \<and> c_role (st_cells demo_demux 0) = RolePrimary"
proof -
  obtain b where "Process_admit demo_lib \<lparr>sv_defaultPool = ''''\<rparr> ''id-1'' [Inr demo_first] demo_demux =
      (Inr (0, 0, b), wg_Add 0 demo_demux)" using demo_admit by blast
  from only_primary_served [OF this] show ?thesis by blast
qed

text \<open>
  C18. A request never leaks. Whatever the engine does with the stream, a panic included, and
  whatever happens to the store meanwhile, \<open>Process\<close> releases the wait group of the engine it
  tracked exactly once, at the end; a panic becomes an Internal status. A request that is not
  admitted touches no cell and no engine.
\<close>

theorem process_releases:
  "case Process_admit lib s newid stream m of
     (Inl err, m') \<Rightarrow> Process lib serve s newid stream m = (Some err, m') \<and>
       st_cells m' = st_cells m \<and> st_engines m' = st_engines m \<and> m_cells m' = m_cells m
   | (Inr (c, e, b), m') \<Rightarrow> m' = wg_Add e m \<and>
       snd (Process lib serve s newid stream m) = wg_Done e (snd (serve e b (wg_Add e m))) \<and>
       fst (Process lib serve s newid stream m) =
         (case fst (serve e b (wg_Add e m)) of Returned err \<Rightarrow> err
          | Panicked r \<Rightarrow> Some (ErrStatus CodeInternal (''internal error: '' @ r)))"
  by (cases rule: admit_cases [of stream lib s newid m])
     (simp_all add: Process_def demux_count_def case_prod_unfold Let_def split: engine_outcome.split)

lemma wg_undone: "wg_Done e (wg_Add e m) = m"
  by (simp add: wg_Done_def wg_Add_def upd_engine_def)

text \<open>
  C28. Every refusal has its status and its count, also when other goroutines change the state while the
  stream is routed. A stream whose first message arrived meets these checks in this order: the message is not request headers
  (Internal, nothing counted); it names no pool and there is no default (Internal, one error counted under
  no-pool); no cell is registered for the pool (Internal, one under unknown-pool); when the engine is loaded the
  cell has none, or when the role is read it is not primary, or when the request is tracked the engine has been swapped
  (Unavailable, one under cell-draining, and the wait group of the engine is what it was). Otherwise it is admitted.
  A refusal changes nothing else.
\<close>

theorem refusal_status:
  fixes m :: DemuxState
  assumes "stream = Inr first # rest"
  shows "let count = (\<lambda>reason (x :: DemuxState). x\<lparr>dx_errors := (dx_errors x)(reason := dx_errors x reason + 1)\<rparr>);
      admit = Process_admit_with others lib s newid stream m; m1 = others 0 m; m2 = others 1 m1; m3 = others 2 m2;
      draining = Inl (ErrStatus CodeUnavailable ''cell is not serving (draining or not ready)'')
    in case pr_RequestHeaders first of
      Some (Some hh) \<Rightarrow>
        (let pool = request_pool lib s newid first hh
         in if pool = [] then admit = (Inl (ErrStatus CodeInternal ''missing inference-pool metadata''), count ''no-pool'' m)
            else case Manager_Get pool m of
              None \<Rightarrow> admit = (Inl (ErrStatus CodeInternal ''unknown inference pool''), count ''unknown-pool'' m)
            | Some c \<Rightarrow>
                (case c_engine (st_cells m1 c) of
                   None \<Rightarrow> admit = (draining, count ''cell-draining'' m1)
                 | Some e \<Rightarrow>
                     if c_role (st_cells m2 c) \<noteq> RolePrimary then admit = (draining, count ''cell-draining'' m2)
                     else if c_engine (st_cells m3 c) \<noteq> Some e then admit = (draining, count ''cell-draining'' m3)
                     else \<exists>b. admit = (Inr (c, e, b), wg_Add e m3)))
    | _ \<Rightarrow> admit = (Inl (ErrStatus CodeInternal ''first ext-proc message is not RequestHeaders''), m)"
proof (cases "pr_RequestHeaders first")
  case (Some hh0)
  then show ?thesis
  proof (cases hh0)
    case (Some hh)
    note route = manager_router.route_status [of "request_pool lib s newid first hh" m ErrUnknownPool]
    show ?thesis
      using assms Some \<open>pr_RequestHeaders first = Some hh0\<close> route
      by (auto simp: Process_admit_with_def demux_count_def Let_def case_prod_unfold Cell_Engine_def Cell_Role_def
          request_pool_def with_request_id_def ManagerRouter_Route_def Cell_Track_def Track_check_def wg_undone
          split: option.split)
  qed (use assms in \<open>simp add: Process_admit_with_def\<close>)
qed (use assms in \<open>simp add: Process_admit_with_def\<close>)

theorem refusal_status_witness:
  "Process_admit_with (\<lambda>n x. if n = 2 then upd_cell 0 (\<lambda>y. y\<lparr>c_engine := Some 5\<rparr>) x else x) demo_lib \<lparr>sv_defaultPool = []\<rparr>
       ''id-1'' [Inr demo_first] demo_demux =
     (Inl (ErrStatus CodeUnavailable ''cell is not serving (draining or not ready)''),
      (upd_cell 0 (\<lambda>y. y\<lparr>c_engine := Some 5\<rparr>) demo_demux)\<lparr>dx_errors := (\<lambda>_. 0)(''cell-draining'' := 1)\<rparr>)"
  using refusal_status [of "[Inr demo_first]" demo_first "[]"
      "\<lambda>n x. if n = 2 then upd_cell 0 (\<lambda>y. y\<lparr>c_engine := Some 5\<rparr>) x else x" demo_lib "\<lparr>sv_defaultPool = []\<rparr>" "''id-1''" demo_demux]
  by (simp add: demo_lib_def demo_first_def request_pool_def with_request_id_def extractPool_def demo_demux_def Manager.extend_def
      MetadataNamespace_def PoolMetadataKey_def Manager_Get_def smap_Load_def demo_mgr_def demo_cell_def Let_def upd_cell_def)

text \<open>
  One request ID for the whole request. If the header function returns what was appended
  when it found nothing before, the headers handed to the engine give the ID the demux used: the
  one the gateway sent, or the generated one.
\<close>

lemma request_id_propagates:
  assumes "\<And>hh k v. ExtractHeaderValue lib hh k = '''' \<Longrightarrow>
      ExtractHeaderValue lib (hh\<lparr>hh_Headers := Some ((case hh_Headers hh of None \<Rightarrow> [] | Some hs \<Rightarrow> hs) @ [(k, v)])\<rparr>) k = v"
  shows "ExtractHeaderValue lib (snd (ensure_request_id lib newid hh)) RequestIDHeaderKey =
      fst (ensure_request_id lib newid hh) \<and>
    (ExtractHeaderValue lib hh RequestIDHeaderKey \<noteq> '''' \<longrightarrow> ensure_request_id lib newid hh =
      (ExtractHeaderValue lib hh RequestIDHeaderKey, hh))"
  using assms by (simp add: ensure_request_id_def Let_def)


lemma request_id_propagates_example:
  "ExtractHeaderValue demo_lib (snd (ensure_request_id demo_lib ''id-1'' \<lparr>hh_Headers = None\<rparr>)) RequestIDHeaderKey = ''id-1''"
proof -
  let ?last = "demo_lib\<lparr>ExtractHeaderValue := (\<lambda>hh k. case hh_Headers hh of None \<Rightarrow> '''' | Some hs \<Rightarrow>
       (case map_of (rev hs) k of None \<Rightarrow> '''' | Some v \<Rightarrow> v))\<rparr>"
  have "ExtractHeaderValue ?last (snd (ensure_request_id ?last ''id-1'' \<lparr>hh_Headers = None\<rparr>)) RequestIDHeaderKey =
      fst (ensure_request_id ?last ''id-1'' \<lparr>hh_Headers = None\<rparr>)"
    using request_id_propagates [of ?last "''id-1''" "\<lparr>hh_Headers = None\<rparr>"] by (simp split: option.split)
  then show ?thesis by (simp add: ensure_request_id_def demo_lib_def)
qed

end
