(* ===== verification/Go_Json.thy ===== *)
theory Go_Json
  imports Go_Std
begin

text \<open>
  \<open>encoding/json\<close> as far as the program decodes with it. \<open>parse_value\<close> is the grammar the scanner
  accepts; a tree keeps the literal text of every value, because \<open>json.RawMessage\<close> is a slice of the
  input and the program hashes such slices. On top of it stand the decoders of the kinds of Go types
  the program decodes into: strings, 64-bit integers, string pointers, raw messages, slices, maps and
  structs. A decoder takes the value its target already holds, since \<open>null\<close> leaves some targets as
  they are and a repeated field of map type extends the map. Errors are the two error types of the
  package; the text of a syntax error and the offset in it are not modelled. These definitions
  belong to the language and have no entry in the map.
\<close>

section \<open>Characters\<close>

abbreviation "dquote \<equiv> CHR 0x22"
abbreviation "backslash \<equiv> CHR 0x5C"

definition is_ws :: "char \<Rightarrow> bool" where
  "is_ws c \<longleftrightarrow> c = CHR '' '' \<or> c = CHR 0x09 \<or> c = CHR 0x0D \<or> c = CHR 0x0A"

definition skip_ws :: "string \<Rightarrow> string" where
  "skip_ws s = dropWhile is_ws s"

definition is_digit :: "char \<Rightarrow> bool" where
  "is_digit c \<longleftrightarrow> 48 \<le> (of_char c :: nat) \<and> (of_char c :: nat) \<le> 57"

definition hex_value :: "char \<Rightarrow> nat option" where
  "hex_value c = (let n = of_char c :: nat in
     if 48 \<le> n \<and> n \<le> 57 then Some (n - 48)
     else if 65 \<le> n \<and> n \<le> 70 then Some (n - 55)
     else if 97 \<le> n \<and> n \<le> 102 then Some (n - 87) else None)"

section \<open>Scanning literals\<close>

text \<open>The text of an escape behind its backslash, and the rest.\<close>

definition scan_escape :: "string \<Rightarrow> (string \<times> string) option" where
  "scan_escape s = (case s of
     e # r \<Rightarrow>
       if e = CHR ''u'' then
         (if length (take 4 r) = 4 \<and> list_all (\<lambda>h. hex_value h \<noteq> None) (take 4 r)
          then Some (e # take 4 r, drop 4 r) else None)
       else if e \<in> set [dquote, backslash, CHR ''/'', CHR ''b'', CHR ''f'', CHR ''n'', CHR ''r'', CHR ''t'']
       then Some ([e], r) else None
   | [] \<Rightarrow> None)"

lemma scan_escape_split: "scan_escape s = Some (e, r) \<Longrightarrow> s = e @ r \<and> e \<noteq> []"
  by (auto simp: scan_escape_def split: list.splits if_splits)

lemma scan_escape_shorter [termination_simp]: "scan_escape s = Some (e, r) \<Longrightarrow> length r < length s"
  by (auto dest: scan_escape_split)

text \<open>A string, from behind its opening quote to its closing quote: the text between them and the rest.\<close>

fun scan_string :: "string \<Rightarrow> (string \<times> string) option" where
  "scan_string [] = None"
| "scan_string (c # s) =
     (if c = dquote then Some ([], s)
      else if c = backslash then
        (case scan_escape s of None \<Rightarrow> None
         | Some (e, r) \<Rightarrow> map_option (apfst (\<lambda>b. c # e @ b)) (scan_string r))
      else if (of_char c :: nat) < 32 then None
      else map_option (apfst (\<lambda>b. c # b)) (scan_string s))"

text \<open>A number: sign, integer part without leading zeros, fraction, exponent.\<close>

definition scan_int :: "string \<Rightarrow> (string \<times> string) option" where
  "scan_int s = (case s of
     [] \<Rightarrow> None
   | c # r \<Rightarrow> if c = CHR ''0'' then Some ([c], r)
       else if is_digit c then Some (c # takeWhile is_digit r, dropWhile is_digit r)
       else None)"

definition scan_digits :: "string \<Rightarrow> (string \<times> string) option" where
  "scan_digits s = (if takeWhile is_digit s = [] then None else Some (takeWhile is_digit s, dropWhile is_digit s))"

definition scan_frac :: "string \<Rightarrow> (string \<times> string) option" where
  "scan_frac s = (case s of
     c # r \<Rightarrow> if c = CHR ''.'' then map_option (apfst (\<lambda>b. c # b)) (scan_digits r) else Some ([], s)
   | [] \<Rightarrow> Some ([], s))"

definition scan_sign :: "char set \<Rightarrow> string \<Rightarrow> string \<times> string" where
  "scan_sign signs s = (case s of c # r \<Rightarrow> if c \<in> signs then ([c], r) else ([], s) | [] \<Rightarrow> ([], s))"

definition scan_exp :: "string \<Rightarrow> (string \<times> string) option" where
  "scan_exp s = (case s of
     c # r \<Rightarrow>
       if c = CHR ''e'' \<or> c = CHR ''E'' then
         (let (sg, r') = scan_sign {CHR ''+'', CHR ''-''} r
          in map_option (apfst (\<lambda>b. c # sg @ b)) (scan_digits r'))
       else Some ([], s)
   | [] \<Rightarrow> Some ([], s))"

definition scan_number :: "string \<Rightarrow> (string \<times> string) option" where
  "scan_number s =
     (let (sg, s0) = scan_sign {CHR ''-''} s in
      case scan_int s0 of None \<Rightarrow> None | Some (a, s1) \<Rightarrow>
      (case scan_frac s1 of None \<Rightarrow> None | Some (b, s2) \<Rightarrow>
      (case scan_exp s2 of None \<Rightarrow> None | Some (c, s3) \<Rightarrow> Some (sg @ a @ b @ c, s3))))"

definition scan_literal :: "string \<Rightarrow> string \<Rightarrow> (string \<times> string) option" where
  "scan_literal w s = (if take (length w) s = w then Some (w, drop (length w) s) else None)"

lemma scan_string_split: "scan_string s = Some (b, r) \<Longrightarrow> s = b @ dquote # r"
proof (induction s arbitrary: b r rule: scan_string.induct)
  case (2 c s)
  then show ?case by (auto dest!: scan_escape_split split: if_splits option.splits)
qed simp

lemma scan_digits_split: "scan_digits s = Some (b, r) \<Longrightarrow> s = b @ r \<and> b \<noteq> []"
  by (auto simp: scan_digits_def split: if_splits)

lemma scan_int_split: "scan_int s = Some (b, r) \<Longrightarrow> s = b @ r \<and> b \<noteq> []"
  by (auto simp: scan_int_def split: list.splits if_splits)

lemma scan_frac_split: "scan_frac s = Some (b, r) \<Longrightarrow> s = b @ r"
  by (auto simp: scan_frac_def dest!: scan_digits_split split: list.splits if_splits)

lemma scan_sign_split: "scan_sign signs s = (b, r) \<Longrightarrow> s = b @ r"
  by (auto simp: scan_sign_def split: list.splits if_splits)

lemma scan_exp_split: "scan_exp s = Some (b, r) \<Longrightarrow> s = b @ r"
  by (auto simp: scan_exp_def dest!: scan_digits_split scan_sign_split split: list.splits if_splits prod.splits)

lemma scan_number_split: "scan_number s = Some (b, r) \<Longrightarrow> s = b @ r \<and> b \<noteq> []"
  unfolding scan_number_def Let_def
  by (auto dest!: scan_int_split scan_frac_split scan_exp_split scan_sign_split
      split: option.splits prod.splits)

lemma scan_literal_split: "scan_literal w s = Some (b, r) \<Longrightarrow> s = b @ r \<and> b = w"
  by (auto simp: scan_literal_def split: if_splits) (metis append_take_drop_id)

lemma skip_ws_split: "\<exists>w. s = w @ skip_ws s"
  unfolding skip_ws_def by (metis takeWhile_dropWhile_id)

lemma skip_ws_length: "length (skip_ws s) \<le> length s"
  by (simp add: skip_ws_def length_dropWhile_le)

lemma skip_ws_Cons_length: "skip_ws s = d # r \<Longrightarrow> length (skip_ws r) < length s"
  using skip_ws_length [of s] skip_ws_length [of r] by simp

section \<open>Values\<close>

text \<open>Strings and keys are kept as the text between their quotes, numbers as their literals; arrays and
  objects carry their whole text.\<close>

datatype jtree =
    JLit string
  | JNum string
  | JStr string
  | JArr string "jtree list"
  | JObj string "(string \<times> jtree) list"

fun jraw :: "jtree \<Rightarrow> string" where
  "jraw (JLit w) = w"
| "jraw (JNum n) = n"
| "jraw (JStr b) = dquote # b @ [dquote]"
| "jraw (JArr r ts) = r"
| "jraw (JObj r ms) = r"

definition consumed :: "string \<Rightarrow> string \<Rightarrow> string" where
  "consumed s r = take (length s - length r) s"

lemma consumed_append [simp]: "consumed (b @ r) r = b"
  by (simp add: consumed_def)

lemma consumed_Cons [simp]: "consumed (c # b @ r) r = c # b"
  using consumed_append [of "c # b" r] by simp

lemma consumed_suffix: "s = u @ r \<Longrightarrow> consumed s r = u"
  by simp

definition parse_scalar :: "string \<Rightarrow> (jtree \<times> string) option" where
  "parse_scalar s =
     (if take 1 s = ''t'' then map_option (apfst JLit) (scan_literal ''true'' s)
      else if take 1 s = ''f'' then map_option (apfst JLit) (scan_literal ''false'' s)
      else if take 1 s = ''n'' then map_option (apfst JLit) (scan_literal ''null'' s)
      else map_option (apfst JNum) (scan_number s))"

lemma parse_scalar_split: "parse_scalar s = Some (t, r) \<Longrightarrow> s = jraw t @ r \<and> jraw t \<noteq> []"
  by (auto simp: parse_scalar_def dest!: scan_literal_split scan_number_split split: if_splits)

function (sequential) parse_value :: "string \<Rightarrow> (jtree \<times> string) option"
  and parse_elems :: "string \<Rightarrow> (jtree list \<times> string) option"
  and parse_members :: "string \<Rightarrow> ((string \<times> jtree) list \<times> string) option"
where
  "parse_value [] = None"
| "parse_value (c # s) =
     (if c = dquote then map_option (\<lambda>(b, r). (JStr b, r)) (scan_string s)
      else if c = CHR ''['' then
        (case skip_ws s of
           [] \<Rightarrow> None
         | d # r \<Rightarrow>
             if d = CHR '']'' then Some (JArr (consumed (c # s) r) [], r)
             else map_option (\<lambda>(ts, r'). (JArr (consumed (c # s) r') ts, r')) (parse_elems (skip_ws s)))
      else if c = CHR ''{'' then
        (case skip_ws s of
           [] \<Rightarrow> None
         | d # r \<Rightarrow>
             if d = CHR ''}'' then Some (JObj (consumed (c # s) r) [], r)
             else map_option (\<lambda>(ms, r'). (JObj (consumed (c # s) r') ms, r')) (parse_members (skip_ws s)))
      else parse_scalar (c # s))"
| "parse_elems s =
     (case parse_value s of
        None \<Rightarrow> None
      | Some (t, r) \<Rightarrow>
          (case skip_ws r of
             [] \<Rightarrow> None
           | d # r' \<Rightarrow>
               if d = CHR '','' then map_option (apfst (\<lambda>ts. t # ts)) (parse_elems (skip_ws r'))
               else if d = CHR '']'' then Some ([t], r')
               else None))"
| "parse_members [] = None"
| "parse_members (c # s) =
     (if c \<noteq> dquote then None else
      case scan_string s of
        None \<Rightarrow> None
      | Some (k, r) \<Rightarrow>
          (case skip_ws r of
             [] \<Rightarrow> None
           | d # r' \<Rightarrow>
               if d \<noteq> CHR '':'' then None else
               (case parse_value (skip_ws r') of
                  None \<Rightarrow> None
                | Some (t, r2) \<Rightarrow>
                    (case skip_ws r2 of
                       [] \<Rightarrow> None
                     | e # r3 \<Rightarrow>
                         if e = CHR '','' then map_option (apfst (\<lambda>ms. (k, t) # ms)) (parse_members (skip_ws r3))
                         else if e = CHR ''}'' then Some ([(k, t)], r3)
                         else None))))"
  by pat_completeness auto

text \<open>What a parser returns is a proper suffix of its input, and the text of the tree is what lies
  before it; with that, every recursive call is on a shorter text.\<close>

lemma parse_split_dom:
  "parse_value_parse_elems_parse_members_dom (Inl s) \<Longrightarrow>
     (\<forall>t r. parse_value s = Some (t, r) \<longrightarrow> s = jraw t @ r \<and> jraw t \<noteq> [])"
  "parse_value_parse_elems_parse_members_dom (Inr (Inl s)) \<Longrightarrow>
     (\<forall>ts r. parse_elems s = Some (ts, r) \<longrightarrow> (\<exists>u. s = u @ r \<and> u \<noteq> []))"
  "parse_value_parse_elems_parse_members_dom (Inr (Inr s)) \<Longrightarrow>
     (\<forall>ms r. parse_members s = Some (ms, r) \<longrightarrow> (\<exists>u. s = u @ r \<and> u \<noteq> []))"
proof (induction s and s and s rule: parse_value_parse_elems_parse_members.pinduct)
  case 1
  then show ?case by (simp add: parse_value.psimps)
next
  case (2 c s)
  obtain w where w: "s = w @ skip_ws s" using skip_ws_split by blast
  show ?case
  proof (intro allI impI)
    fix t r assume "parse_value (c # s) = Some (t, r)"
    note p = this [unfolded parse_value.psimps(2) [OF 2(1)]]
    consider "c = dquote" | "c = CHR ''[''" | "c = CHR ''{''" | "c \<notin> {dquote, CHR ''['', CHR ''{''}" by blast
    then show "c # s = jraw t @ r \<and> jraw t \<noteq> []"
    proof cases
      case 1
      with p show ?thesis by (auto dest!: scan_string_split)
    next
      case arr: 2
      show ?thesis
      proof (cases "skip_ws s")
        case (Cons d r0)
        with arr p w "2.IH"(1) show ?thesis
          by (auto simp: consumed_suffix split: if_splits)
      qed (use arr p in simp)
    next
      case obj: 3
      show ?thesis
      proof (cases "skip_ws s")
        case (Cons d r0)
        with obj p w "2.IH"(2) show ?thesis
          by (auto simp: consumed_suffix split: if_splits)
      qed (use obj p in simp)
    next
      case 4
      with p show ?thesis using parse_scalar_split by auto
    qed
  qed
next
  case (3 s)
  obtain w where w: "r = w r @ skip_ws r" for r using skip_ws_split by metis
  show ?case
  proof (intro allI impI)
    fix ts r assume "parse_elems s = Some (ts, r)"
    then obtain t r1 d r2 where v: "parse_value s = Some (t, r1)" "skip_ws r1 = d # r2"
      "d = CHR '','' \<and> (\<exists>ts'. parse_elems (skip_ws r2) = Some (ts', r)) \<or> r = r2"
      unfolding parse_elems.psimps [OF 3(1)] by (auto split: option.splits list.splits if_splits)
    then have s: "s = jraw t @ w r1 @ d # w r2 @ skip_ws r2" using 3(2) w by metis
    have "\<exists>u. d # w r2 @ skip_ws r2 = u @ r"
      using v "3.IH"(2) [OF v(1) refl v(2)] w [of r2] by auto (metis append.assoc append_Cons)
    then show "\<exists>u. s = u @ r \<and> u \<noteq> []" using s 3(2) v(1) by (metis append.assoc append_is_Nil_conv)
  qed
next
  case 4
  then show ?case by (simp add: parse_members.psimps)
next
  case (5 c s)
  obtain w where w: "r = w r @ skip_ws r" for r using skip_ws_split by metis
  show ?case
  proof (intro allI impI)
    fix ms r assume "parse_members (c # s) = Some (ms, r)"
    then obtain k r1 d r2 t r3 e r4 where v: "c = dquote" "scan_string s = Some (k, r1)" "skip_ws r1 = d # r2"
      "d = CHR '':''" "parse_value (skip_ws r2) = Some (t, r3)" "skip_ws r3 = e # r4"
      "e = CHR '','' \<and> (\<exists>ms'. parse_members (skip_ws r4) = Some (ms', r)) \<or> r = r4"
      unfolding parse_members.psimps(2) [OF 5(1)] by (auto split: option.splits list.splits if_splits)
    note IH = 5(2,3) [OF _ v(2) refl v(3)]
    have "skip_ws r2 = jraw t @ r3" using IH(1) v(1,4,5) by simp
    then have s: "c # s = (c # k @ dquote # w r1 @ d # w r2 @ jraw t @ w r3) @ e # w r4 @ skip_ws r4"
      using scan_string_split [OF v(2)] v(3,6) w by (metis append.assoc append_Cons)
    have "\<exists>u. e # w r4 @ skip_ws r4 = u @ r"
      using v IH(2) w [of r4] by auto (metis append.assoc append_Cons)
    then obtain u where u: "e # w r4 @ skip_ws r4 = u @ r" by blast
    show "\<exists>u. c # s = u @ r \<and> u \<noteq> []"
      by (rule exI [of _ "(c # k @ dquote # w r1 @ d # w r2 @ jraw t @ w r3) @ u"]) (simp only: s u append.assoc, simp)
  qed
qed

lemma parse_value_shorter_dom:
  assumes "parse_value_parse_elems_parse_members_dom (Inl s)" "parse_value s = Some (t, r)"
  shows "length r < length s"
proof -
  have "s = jraw t @ r" "jraw t \<noteq> []" using parse_split_dom(1) assms by blast+
  then show ?thesis by (metis length_append length_greater_0_conv less_add_same_cancel2)
qed

lemma scan_string_length: "scan_string s = Some (b, r) \<Longrightarrow> length r < length s"
  by (auto dest: scan_string_split)

lemma parse_total: "All parse_value_parse_elems_parse_members_dom"
proof (relation "measure (\<lambda>x. case x of Inl s \<Rightarrow> 2 * length s
        | Inr (Inl s) \<Rightarrow> 2 * length s + 1 | Inr (Inr s) \<Rightarrow> 2 * length s + 1)", goal_cases)
  case (2 c s d r)
  then show ?case using skip_ws_length [of s] by simp
next
  case (3 c s d r)
  then show ?case using skip_ws_length [of s] by simp
qed (auto simp: less_Suc_eq_le dest!: parse_value_shorter_dom scan_string_length skip_ws_Cons_length)

termination parse_value by (rule parse_total)

declare parse_value.simps(2) [simp del] parse_elems.simps [simp del] parse_members.simps(2) [simp del]

lemma parse_value_split: "parse_value s = Some (t, r) \<Longrightarrow> s = jraw t @ r \<and> jraw t \<noteq> []"
  using parse_split_dom(1) parse_total by blast

lemma parse_value_no_ws: "parse_value s = Some (t, r) \<Longrightarrow> skip_ws s = s"
proof (cases s)
  case (Cons c s')
  moreover assume "parse_value s = Some (t, r)"
  ultimately have "\<not> is_ws c"
    by (auto simp: parse_value.simps parse_scalar_def is_ws_def scan_number_def scan_sign_def scan_int_def is_digit_def)
  with Cons show ?thesis by (simp add: skip_ws_def)
qed simp

section \<open>Locality\<close>

text \<open>A parser looks at nothing behind the value it returns, except that a number ends where the next
  character cannot continue it.\<close>

definition num_stop :: "string \<Rightarrow> bool" where
  "num_stop q \<longleftrightarrow> (case q of [] \<Rightarrow> True | c # _ \<Rightarrow> \<not> is_digit c \<and> c \<notin> {CHR ''.'', CHR ''e'', CHR ''E''})"

lemma skip_ws_append: "skip_ws r = d # r' \<Longrightarrow> skip_ws (r @ q) = d # r' @ q"
proof -
  assume a: "skip_ws r = d # r'"
  then have "\<not> is_ws d" by (metis hd_dropWhile list.sel(1) list.simps(3) skip_ws_def)
  then have "\<exists>x \<in> set r. \<not> is_ws x"
    using skip_ws_split [of r] a by (metis Un_iff list.set_intros(1) set_append)
  with a show ?thesis by (auto simp: skip_ws_def dropWhile_append)
qed

lemma skip_ws_append_ne: "skip_ws r \<noteq> [] \<Longrightarrow> skip_ws (r @ q) = skip_ws r @ q"
  by (metis append_Cons neq_Nil_conv skip_ws_append)

lemma consumed_extend [simp]: "consumed (s @ q) (r @ q) = consumed s r"
  by (simp add: consumed_def)

lemma consumed_extend_Cons [simp]: "consumed (c # s @ q) (r @ q) = consumed (c # s) r"
  using consumed_extend [of "c # s" q r] by simp

lemma scan_escape_extend: "scan_escape s = Some (e, r) \<Longrightarrow> scan_escape (s @ q) = Some (e, r @ q)"
  by (cases s) (auto simp: scan_escape_def min_def split: if_splits)

lemma scan_string_extend: "scan_string s = Some (b, r) \<Longrightarrow> scan_string (s @ q) = Some (b, r @ q)"
proof (induction s arbitrary: b r rule: scan_string.induct)
  case (2 c s)
  show ?case
  proof (cases "c = backslash")
    case True
    with 2(3) obtain e r1 b1 where e: "scan_escape s = Some (e, r1)" "scan_string r1 = Some (b1, r)" "b = c # e @ b1"
      by (auto split: option.splits)
    from 2(1) [OF _ True e(1) refl e(2)] scan_escape_extend [OF e(1), of q] True e(3) show ?thesis by simp
  next
    case False
    with 2 show ?thesis by (auto split: if_splits)
  qed
qed simp

lemma scan_literal_extend: "scan_literal w s = Some (b, r) \<Longrightarrow> scan_literal w (s @ q) = Some (b, r @ q)"
proof -
  assume a: "scan_literal w s = Some (b, r)"
  then have "s = w @ r" "b = w" using scan_literal_split by blast+
  then show ?thesis by (simp add: scan_literal_def)
qed

lemma digits_extend:
  assumes "dropWhile is_digit s \<noteq> [] \<or> num_stop q"
  shows "takeWhile is_digit (s @ q) = takeWhile is_digit s \<and> dropWhile is_digit (s @ q) = dropWhile is_digit s @ q"
proof (cases "dropWhile is_digit s")
  case Nil
  then have "\<forall>x \<in> set s. is_digit x" by simp
  moreover from Nil assms have "takeWhile is_digit q = [] \<and> dropWhile is_digit q = q"
    by (auto simp: num_stop_def split: list.splits)
  ultimately show ?thesis using Nil by (simp add: takeWhile_append dropWhile_append takeWhile_eq_all_conv [THEN iffD2])
next
  case (Cons c r)
  then have "\<not> is_digit c" "c \<in> set s"
    by (metis hd_dropWhile list.sel(1) list.simps(3), metis list.set_intros(1) set_dropWhileD)
  then show ?thesis by (auto simp: takeWhile_append dropWhile_append)
qed

lemma scan_digits_extend:
  "scan_digits s = Some (b, r) \<Longrightarrow> r \<noteq> [] \<or> num_stop q \<Longrightarrow> scan_digits (s @ q) = Some (b, r @ q)"
  using digits_extend [of s q] by (auto simp: scan_digits_def split: if_splits)

lemma scan_int_extend:
  "scan_int s = Some (b, r) \<Longrightarrow> r \<noteq> [] \<or> num_stop q \<Longrightarrow> scan_int (s @ q) = Some (b, r @ q)"
  using digits_extend [of "tl s" q] by (cases s) (auto simp: scan_int_def split: if_splits)

lemma scan_frac_extend:
  "scan_frac s = Some (b, r) \<Longrightarrow> r \<noteq> [] \<or> num_stop q \<Longrightarrow> scan_frac (s @ q) = Some (b, r @ q)"
  by (cases s) (auto simp: scan_frac_def num_stop_def scan_digits_extend split: list.splits if_splits)

lemma scan_sign_extend: "scan_sign signs s = (b, r) \<Longrightarrow> r \<noteq> [] \<Longrightarrow> scan_sign signs (s @ q) = (b, r @ q)"
  by (cases s) (auto simp: scan_sign_def split: if_splits)

lemma scan_exp_extend:
  assumes "scan_exp s = Some (b, r)" "r \<noteq> [] \<or> num_stop q"
  shows "scan_exp (s @ q) = Some (b, r @ q)"
proof (cases s)
  case Nil
  with assms show ?thesis by (auto simp: scan_exp_def num_stop_def split: list.splits)
next
  case (Cons c s')
  show ?thesis
  proof (cases "c = CHR ''e'' \<or> c = CHR ''E''")
    case True
    obtain sg r' where sg: "scan_sign {CHR ''+'', CHR ''-''} s' = (sg, r')" by fastforce
    with assms(1) Cons True obtain b' where d: "scan_digits r' = Some (b', r)" "b = c # sg @ b'"
      by (auto simp: scan_exp_def)
    then have "r' \<noteq> []" using scan_digits_split by blast
    with scan_digits_extend [OF d(1) assms(2)] scan_sign_extend [OF sg] Cons True d(2) show ?thesis
      by (simp add: scan_exp_def)
  next
    case False
    with Cons assms(1) show ?thesis by (auto simp: scan_exp_def)
  qed
qed

lemma scan_number_extend:
  assumes "scan_number s = Some (b, r)" "r \<noteq> [] \<or> num_stop q"
  shows "scan_number (s @ q) = Some (b, r @ q)"
proof -
  obtain sg s0 where sg: "scan_sign {CHR ''-''} s = (sg, s0)" by fastforce
  with assms(1) obtain b1 s1 b2 s2 b3 where n: "scan_int s0 = Some (b1, s1)" "scan_frac s1 = Some (b2, s2)"
    "scan_exp s2 = Some (b3, r)" "b = sg @ b1 @ b2 @ b3"
    by (auto simp: scan_number_def split: option.splits)
  have "s1 \<noteq> [] \<or> num_stop q" "s2 \<noteq> [] \<or> num_stop q"
    using assms(2) scan_frac_split [OF n(2)] scan_exp_split [OF n(3)] by auto
  moreover have "s0 \<noteq> []" using scan_int_split [OF n(1)] by auto
  ultimately show ?thesis
    using scan_sign_extend [OF sg] scan_int_extend [OF n(1)] scan_frac_extend [OF n(2)] scan_exp_extend [OF n(3) assms(2)] n(4)
    by (simp add: scan_number_def)
qed

lemma parse_scalar_extend:
  assumes "parse_scalar s = Some (t, r)" "r \<noteq> [] \<or> num_stop q \<or> (\<forall>n. t \<noteq> JNum n)"
  shows "parse_scalar (s @ q) = Some (t, r @ q)"
proof -
  have "take 1 (s @ q) = take 1 s" using parse_scalar_split [OF assms(1)] by (cases "jraw t") auto
  with assms show ?thesis
    by (auto simp: parse_scalar_def intro: scan_literal_extend scan_number_extend split: if_splits)
qed

lemma parse_extend:
  "parse_value s = Some (t, r) \<Longrightarrow> r \<noteq> [] \<or> num_stop q \<or> (\<forall>n. t \<noteq> JNum n) \<Longrightarrow> parse_value (s @ q) = Some (t, r @ q)"
  "parse_elems s = Some (ts, r') \<Longrightarrow> parse_elems (s @ q) = Some (ts, r' @ q)"
  "parse_members s = Some (ms, r'') \<Longrightarrow> parse_members (s @ q) = Some (ms, r'' @ q)"
proof (induction s and s and s arbitrary: t r and ts r' and ms r'' rule: parse_value_parse_elems_parse_members.induct)
  case (2 c s)
  consider "c = dquote" | "c = CHR ''[''" | "c = CHR ''{''" | "c \<notin> {dquote, CHR ''['', CHR ''{''}" by blast
  then show ?case
  proof cases
    case 1
    with 2(3) show ?thesis by (auto simp: parse_value.simps scan_string_extend)
  next
    case arr: 2
    show ?thesis
    proof (cases "skip_ws s")
      case (Cons d r0)
      with arr 2 show ?thesis using skip_ws_append [OF Cons, of q]
        by (auto simp: parse_value.simps split: if_splits)
    qed (use arr 2 in \<open>simp add: parse_value.simps\<close>)
  next
    case obj: 3
    show ?thesis
    proof (cases "skip_ws s")
      case (Cons d r0)
      with obj 2 show ?thesis using skip_ws_append [OF Cons, of q]
        by (auto simp: parse_value.simps split: if_splits)
    qed (use obj 2 in \<open>simp add: parse_value.simps\<close>)
  next
    case 4
    with 2(3,4) show ?thesis using parse_scalar_extend [of "c # s"] by (simp add: parse_value.simps)
  qed
next
  case (3 s)
  then obtain t r1 d r2 where v: "parse_value s = Some (t, r1)" "skip_ws r1 = d # r2"
    by (auto simp: parse_elems.simps [of s] split: option.splits list.splits)
  have "r1 \<noteq> []" using v(2) by (auto simp: skip_ws_def)
  then have "parse_value (s @ q) = Some (t, r1 @ q)" using 3(1) v(1) by blast
  moreover have "skip_ws r2 \<noteq> []" if "parse_elems (skip_ws r2) \<noteq> None"
    using that by (auto simp: parse_elems.simps [of "[]"])
  ultimately show ?case using 3(2,3) v skip_ws_append [OF v(2), of q]
    by (auto simp: skip_ws_append_ne parse_elems.simps [of s] parse_elems.simps [of "s @ q"] split: if_splits)
next
  case (5 c s)
  then obtain k r1 d r2 t r3 e r4 where v: "c = dquote" "scan_string s = Some (k, r1)" "skip_ws r1 = d # r2"
    "d = CHR '':''" "parse_value (skip_ws r2) = Some (t, r3)" "skip_ws r3 = e # r4"
    by (auto simp: parse_members.simps split: option.splits list.splits if_splits)
  have "r3 \<noteq> []" using v(6) by (auto simp: skip_ws_def)
  then have t: "parse_value (skip_ws r2 @ q) = Some (t, r3 @ q)"
    using 5(1) [OF _ v(2) refl v(3)] v(1,4,5) by simp
  have "skip_ws r2 \<noteq> []" using parse_value_split [OF v(5)] by auto
  then have ws: "skip_ws (r2 @ q) = skip_ws r2 @ q" by (rule skip_ws_append_ne)
  have "skip_ws r4 \<noteq> []" if "parse_members (skip_ws r4) \<noteq> None" using that by auto
  then show ?case
    using 5(2) [OF _ v(2) refl v(3) _ v(5) refl v(6)] 5(3) v t ws
      scan_string_extend [OF v(2), of q] skip_ws_append [OF v(3), of q] skip_ws_append [OF v(6), of q]
    by (auto simp: parse_members.simps(2) skip_ws_append_ne split: if_splits)
qed simp_all

section \<open>Strings\<close>

text \<open>\<open>utf8.DecodeRune\<close>: the number of bytes that continue the well-formed sequence that starts with \<open>c\<close>,
  zero if there is none.\<close>

definition utf8_ranges :: "nat \<Rightarrow> (nat \<times> nat) list" where
  "utf8_ranges n =
     (if 0xC2 \<le> n \<and> n \<le> 0xDF then [(0x80, 0xBF)]
      else if 0xE0 \<le> n \<and> n \<le> 0xEF then
        [(if n = 0xE0 then 0xA0 else 0x80, if n = 0xED then 0x9F else 0xBF), (0x80, 0xBF)]
      else if 0xF0 \<le> n \<and> n \<le> 0xF4 then
        [(if n = 0xF0 then 0x90 else 0x80, if n = 0xF4 then 0x8F else 0xBF), (0x80, 0xBF), (0x80, 0xBF)]
      else [])"

definition utf8_tail :: "char \<Rightarrow> string \<Rightarrow> nat" where
  "utf8_tail c s =
     (let rs = utf8_ranges (of_char c); bs = take (length rs) s
      in if list_all2 (\<lambda>b (lo, hi). lo \<le> (of_char b :: nat) \<and> (of_char b :: nat) \<le> hi) bs rs
         then length rs else 0)"

definition EncodeRune :: "nat \<Rightarrow> string" where
  "EncodeRune r =
     (if r < 0x80 then [char_of r]
      else if r < 0x800 then [char_of (0xC0 + r div 64), char_of (0x80 + r mod 64)]
      else if r < 0x10000 then
        [char_of (0xE0 + r div 4096), char_of (0x80 + r div 64 mod 64), char_of (0x80 + r mod 64)]
      else [char_of (0xF0 + r div 262144), char_of (0x80 + r div 4096 mod 64),
            char_of (0x80 + r div 64 mod 64), char_of (0x80 + r mod 64)])"

definition ReplacementChar :: nat where "ReplacementChar = 0xFFFD"

definition getu4 :: "string \<Rightarrow> nat option" where
  "getu4 s =
     (case s of
        b # u # h1 # h2 # h3 # h4 # _ \<Rightarrow>
          if b = backslash \<and> u = CHR ''u'' then
            (case (hex_value h1, hex_value h2, hex_value h3, hex_value h4) of
               (Some a, Some b, Some c, Some d) \<Rightarrow> Some (4096 * a + 256 * b + 16 * c + d)
             | _ \<Rightarrow> None)
          else None
      | _ \<Rightarrow> None)"

definition unescape :: "char \<Rightarrow> char" where
  "unescape e =
     (if e = CHR ''b'' then CHR 0x08 else if e = CHR ''f'' then CHR 0x0C else if e = CHR ''n'' then CHR 0x0A
      else if e = CHR ''r'' then CHR 0x0D else if e = CHR ''t'' then CHR 0x09 else e)"

definition is_surrogate :: "nat \<Rightarrow> bool" where "is_surrogate r \<longleftrightarrow> 0xD800 \<le> r \<and> r < 0xE000"

text \<open>\<open>utf16.DecodeRune\<close>\<close>

definition surrogate_pair :: "nat \<Rightarrow> nat option \<Rightarrow> nat option" where
  "surrogate_pair r low = (case low of
     Some r1 \<Rightarrow> if 0xD800 \<le> r \<and> r < 0xDC00 \<and> 0xDC00 \<le> r1 \<and> r1 < 0xE000
       then Some (1024 * (r - 0xD800) + (r1 - 0xDC00) + 0x10000) else None
   | None \<Rightarrow> None)"

text \<open>\<open>unquoteBytes\<close> on the text between the quotes of a scanned string.\<close>

fun unquote :: "string \<Rightarrow> string" where
  "unquote [] = []"
| "unquote (c # s) =
     (if c = backslash then
        (case getu4 (c # s) of
           Some r \<Rightarrow>
             if is_surrogate r then
               (case surrogate_pair r (getu4 (drop 5 s)) of
                  Some rr \<Rightarrow> EncodeRune rr @ unquote (drop 11 s)
                | None \<Rightarrow> EncodeRune ReplacementChar @ unquote (drop 5 s))
             else EncodeRune r @ unquote (drop 5 s)
         | None \<Rightarrow> (case s of [] \<Rightarrow> [] | e # s' \<Rightarrow> unescape e # unquote s'))
      else if (of_char c :: nat) < 128 then c # unquote s
      else if utf8_tail c s = 0 then EncodeRune ReplacementChar @ unquote s
      else c # take (utf8_tail c s) s @ unquote (drop (utf8_tail c s) s))"

fun utf8_valid :: "string \<Rightarrow> bool" where
  "utf8_valid [] = True"
| "utf8_valid (c # s) =
     (if (of_char c :: nat) < 128 then utf8_valid s
      else utf8_tail c s \<noteq> 0 \<and> utf8_valid (drop (utf8_tail c s) s))"

text \<open>A way to write a string: quotes, backslashes and control characters are escaped.\<close>

definition quote_char :: "char \<Rightarrow> string" where
  "quote_char c =
     (if c = dquote \<or> c = backslash then [backslash, c]
      else if (of_char c :: nat) < 32 then
        [backslash, CHR ''u'', CHR ''0'', CHR ''0'', lower_hex (of_char c div 16), lower_hex (of_char c)]
      else [c])"

definition quote :: "string \<Rightarrow> string" where
  "quote s = concat (map quote_char s)"

lemma quote_simps [simp]: "quote [] = []" "quote (c # s) = quote_char c @ quote s"
  by (simp_all add: quote_def)

lemma hex_value_lower_hex: "hex_value (lower_hex n) = Some (n mod 16)"
proof -
  have "\<forall>m \<in> set [0..<16]. hex_value (lower_hex m) = Some m" by code_simp
  then have "hex_value (lower_hex (n mod 16)) = Some (n mod 16)" by simp
  then show ?thesis by (simp add: lower_hex_def)
qed

lemma hex_value_0 [simp]: "hex_value (CHR ''0'') = Some 0"
  by code_simp

lemma scan_string_quote: "scan_string (quote s @ dquote # r) = Some (quote s, r)"
proof (induction s)
  case (Cons c s)
  then show ?case
    by (simp add: quote_char_def scan_escape_def hex_value_lower_hex)
qed simp

lemma list_all2_member: "list_all2 P xs ys \<Longrightarrow> x \<in> set xs \<Longrightarrow> \<exists>y \<in> set ys. P x y"
  by (induction rule: list_all2_induct) auto

lemma utf8_ranges_high: "(lo, hi) \<in> set (utf8_ranges n) \<Longrightarrow> 128 \<le> lo"
  by (auto simp: utf8_ranges_def split: if_splits)

lemma utf8_tail_high:
  "utf8_tail c s \<le> length s" "x \<in> set (take (utf8_tail c s) s) \<Longrightarrow> 128 \<le> (of_char x :: nat)"
proof -
  show "utf8_tail c s \<le> length s" by (auto simp: utf8_tail_def Let_def dest: list_all2_lengthD)
  assume x: "x \<in> set (take (utf8_tail c s) s)"
  define rs where "rs = utf8_ranges (of_char c)"
  with x have "list_all2 (\<lambda>b (lo, hi). lo \<le> (of_char b :: nat) \<and> (of_char b :: nat) \<le> hi) (take (length rs) s) rs"
    "x \<in> set (take (length rs) s)"
    by (auto simp: utf8_tail_def Let_def split: if_splits)
  from list_all2_member [OF this] obtain lo hi where "(lo, hi) \<in> set rs" "lo \<le> (of_char x :: nat)" by auto
  then show "128 \<le> (of_char x :: nat)" using utf8_ranges_high unfolding rs_def by fastforce
qed

lemma utf8_tail_local:
  assumes "utf8_tail c s \<noteq> 0"
  shows "utf8_tail c (take (utf8_tail c s) s @ q) = utf8_tail c s"
proof -
  have "utf8_tail c s = length (utf8_ranges (of_char c))"
    using assms by (simp add: utf8_tail_def Let_def split: if_splits)
  moreover have "min (length s) (length (utf8_ranges (of_char c))) = length (utf8_ranges (of_char c))"
    using utf8_tail_high(1) [of c s] calculation by simp
  ultimately show ?thesis using assms by (simp add: utf8_tail_def Let_def split: if_splits)
qed

lemma quote_char_high: "128 \<le> (of_char c :: nat) \<Longrightarrow> quote_char c = [c]"
  by (auto simp: quote_char_def)

lemma quote_high: "\<forall>x \<in> set u. 128 \<le> (of_char x :: nat) \<Longrightarrow> quote (u @ v) = u @ quote v"
  by (induction u) (simp_all add: quote_char_high)

lemma getu4_control:
  assumes "n < 256"
  shows "getu4 (backslash # CHR ''u'' # CHR ''0'' # CHR ''0'' # lower_hex (n div 16) # lower_hex n # q) = Some n"
proof -
  have "n div 16 mod 16 = n div 16" using assms by simp
  then show ?thesis by (simp add: getu4_def hex_value_lower_hex)
qed

lemma getu4_other: "e \<noteq> CHR ''u'' \<Longrightarrow> getu4 (backslash # e # q) = None"
  by (simp add: getu4_def split: list.split)

lemma unquote_quote: "utf8_valid s \<Longrightarrow> unquote (quote s) = s"
proof (induction s rule: utf8_valid.induct)
  case (2 c s)
  show ?case
  proof (cases "(of_char c :: nat) < 128")
    case True
    then have "utf8_valid s" using 2(3) by simp
    note IH = 2(1) [OF True this]
    show ?thesis
    proof (cases "c = dquote \<or> c = backslash")
      case True
      with IH show ?thesis by (auto simp: quote_char_def getu4_other unescape_def)
    next
      case other: False
      show ?thesis
      proof (cases "(of_char c :: nat) < 32")
        case True
        with IH other show ?thesis
          by (simp add: quote_char_def getu4_control is_surrogate_def EncodeRune_def)
      next
        case False
        with IH True other show ?thesis by (simp add: quote_char_def)
      qed
    qed
  next
    case False
    let ?k = "utf8_tail c s"
    from False 2(3) have k: "?k \<noteq> 0" and v: "utf8_valid (drop ?k s)" by auto
    have q: "quote s = take ?k s @ quote (drop ?k s)"
      using quote_high [of "take ?k s" "drop ?k s"] utf8_tail_high(2) [of _ c s] by simp
    have "utf8_tail c (quote s) = ?k" unfolding q by (rule utf8_tail_local [OF k])
    moreover have "length (take ?k s) = ?k" using utf8_tail_high(1) [of c s] by simp
    moreover have "quote_char c = [c]" "c \<noteq> backslash" using False by (auto simp: quote_char_high)
    ultimately show ?thesis using False k 2(2) [OF False v] q by simp
  qed
qed simp

declare quote_simps [simp del] unquote.simps(2) [simp del]

end
