(* ===== verification/Json_Decode.thy ===== *)
theory Json_Decode
  imports Go_Json
begin

text \<open>
  \<open>json.Unmarshal\<close>: decoders from parsed values into Go types, and writers for the same types. A
  decoder takes the value and what its target holds. \<open>null\<close> empties a pointer, a slice or a map and
  leaves a string, an integer or a struct unchanged; a raw message receives the text of any value,
  \<open>null\<close> included. Fields are matched by exact name first, then without regard to case; unknown fields
  are skipped; a repeated field is decoded again into the same target. The writers produce compact
  texts; decoding what they write gives the value back. These definitions belong to the language
  and have no entry in the map.
\<close>

section \<open>Decoders\<close>

type_synonym 'a decoder = "jtree \<Rightarrow> 'a \<Rightarrow> 'a result"

definition is_null :: "jtree \<Rightarrow> bool" where "is_null t \<longleftrightarrow> t = JLit ''null''"

definition dec_string :: "string decoder" where
  "dec_string t cur = (case t of JStr b \<Rightarrow> Inr (unquote b)
     | _ \<Rightarrow> if is_null t then Inr cur else Inl ErrUnmarshalType)"

text \<open>\<open>strconv.ParseInt\<close> in base 10 with 64 bits, on a number literal.\<close>

definition ParseInt :: "string \<Rightarrow> int option" where
  "ParseInt n =
     (let (sg, ds) = scan_sign {CHR ''-''} n; v = int (read_nat ds); i = (if sg = [] then v else - v)
      in if ds \<noteq> [] \<and> list_all is_digit ds \<and> - (2 ^ 63) \<le> i \<and> i < 2 ^ 63 then Some i else None)"

definition dec_int :: "int decoder" where
  "dec_int t cur = (case t of
       JNum n \<Rightarrow> (case ParseInt n of Some i \<Rightarrow> Inr i | None \<Rightarrow> Inl ErrUnmarshalType)
     | _ \<Rightarrow> if is_null t then Inr cur else Inl ErrUnmarshalType)"

definition dec_ptr :: "'a decoder \<Rightarrow> 'a \<Rightarrow> 'a option decoder" where
  "dec_ptr dec zero t cur =
     (if is_null t then Inr None
      else (case dec t (case cur of Some v \<Rightarrow> v | None \<Rightarrow> zero) of Inl e \<Rightarrow> Inl e | Inr v \<Rightarrow> Inr (Some v)))"

definition dec_raw :: "string decoder" where
  "dec_raw t cur = Inr (jraw t)"

fun dec_elems :: "'a decoder \<Rightarrow> 'a \<Rightarrow> jtree list \<Rightarrow> 'a list result" where
  "dec_elems dec zero [] = Inr []"
| "dec_elems dec zero (t # ts) =
     (case dec t zero of Inl e \<Rightarrow> Inl e
      | Inr v \<Rightarrow> (case dec_elems dec zero ts of Inl e \<Rightarrow> Inl e | Inr vs \<Rightarrow> Inr (v # vs)))"

text \<open>A slice whose target is empty, as all targets of slice type are here.\<close>

definition dec_slice :: "'a decoder \<Rightarrow> 'a \<Rightarrow> 'a list decoder" where
  "dec_slice dec zero t cur = (case t of JArr _ ts \<Rightarrow> dec_elems dec zero ts
     | _ \<Rightarrow> if is_null t then Inr [] else Inl ErrUnmarshalType)"

fun dec_entries :: "'a decoder \<Rightarrow> 'a \<Rightarrow> (string \<times> jtree) list \<Rightarrow> (string, 'a) gomap \<Rightarrow> (string, 'a) gomap result" where
  "dec_entries dec zero [] m = Inr m"
| "dec_entries dec zero ((k, t) # ms) m =
     (case dec t zero of Inl e \<Rightarrow> Inl e
      | Inr v \<Rightarrow> dec_entries dec zero ms (AList.update (unquote k) v m))"

definition dec_map :: "'a decoder \<Rightarrow> 'a \<Rightarrow> (string, 'a) gomap decoder" where
  "dec_map dec zero t cur = (case t of JObj _ ms \<Rightarrow> dec_entries dec zero ms cur
     | _ \<Rightarrow> if is_null t then Inr [] else Inl ErrUnmarshalType)"

text \<open>Two names match without regard to case if they fold alike. The only runes beyond ASCII that fold
  to ASCII letters are the long s and the Kelvin sign.\<close>

fun fold_name :: "string \<Rightarrow> string" where
  "fold_name [] = []"
| "fold_name (c # s) =
     (if c = CHR 0xC5 \<and> take 1 s = [CHR 0xBF] then CHR ''S'' # fold_name (drop 1 s)
      else if c = CHR 0xE2 \<and> take 2 s = [CHR 0x84, CHR 0xAA] then CHR ''K'' # fold_name (drop 2 s)
      else (if 97 \<le> (of_char c :: nat) \<and> (of_char c :: nat) \<le> 122 then char_of (of_char c - 32 :: nat) else c) # fold_name s)"

definition find_field :: "(string \<times> 's decoder) list \<Rightarrow> string \<Rightarrow> 's decoder option" where
  "find_field fields key =
     (case map_of fields key of Some f \<Rightarrow> Some f
      | None \<Rightarrow> map_of (map (apfst fold_name) fields) (fold_name key))"

definition field :: "'a decoder \<Rightarrow> ('s \<Rightarrow> 'a) \<Rightarrow> ('a \<Rightarrow> 's \<Rightarrow> 's) \<Rightarrow> 's decoder" where
  "field dec get put t s = (case dec t (get s) of Inl e \<Rightarrow> Inl e | Inr v \<Rightarrow> Inr (put v s))"

fun dec_members :: "(string \<times> 's decoder) list \<Rightarrow> (string \<times> jtree) list \<Rightarrow> 's \<Rightarrow> 's result" where
  "dec_members fields [] s = Inr s"
| "dec_members fields ((k, t) # ms) s =
     (case find_field fields (unquote k) of
        None \<Rightarrow> dec_members fields ms s
      | Some f \<Rightarrow> (case f t s of Inl e \<Rightarrow> Inl e | Inr s' \<Rightarrow> dec_members fields ms s'))"

definition dec_struct :: "(string \<times> 's decoder) list \<Rightarrow> 's decoder" where
  "dec_struct fields t cur = (case t of JObj _ ms \<Rightarrow> dec_members fields ms cur
     | _ \<Rightarrow> if is_null t then Inr cur else Inl ErrUnmarshalType)"

section \<open>Unmarshal\<close>

fun jdepth :: "jtree \<Rightarrow> int" where
  "jdepth (JArr _ ts) = 1 + foldr max (map jdepth ts) 0"
| "jdepth (JObj _ ms) = 1 + foldr max (map (\<lambda>m. jdepth (snd m)) ms) 0"
| "jdepth _ = 0"

definition maxNestingDepth :: int where "maxNestingDepth = 10000"

text \<open>The text is checked as a whole before anything is decoded.\<close>

definition checkValid :: "string \<Rightarrow> jtree result" where
  "checkValid data =
     (case parse_value (skip_ws data) of
        None \<Rightarrow> Inl ErrSyntax
      | Some (t, r) \<Rightarrow> if skip_ws r \<noteq> [] \<or> maxNestingDepth < jdepth t then Inl ErrSyntax else Inr t)"

definition Unmarshal :: "'a decoder \<Rightarrow> 'a \<Rightarrow> string \<Rightarrow> 'a result" where
  "Unmarshal dec zero data = (case checkValid data of Inl e \<Rightarrow> Inl e | Inr t \<Rightarrow> dec t zero)"

section \<open>Facts\<close>

lemma dec_entries_wf:
  "dec_entries dec zero ms m = Inr m' \<Longrightarrow> gomap_wf m \<Longrightarrow> gomap_wf m'"
  by (induction dec zero ms m rule: dec_entries.induct) (auto simp: distinct_update split: sum.splits)

lemma dec_map_wf: "dec_map dec zero t cur = Inr m \<Longrightarrow> gomap_wf cur \<Longrightarrow> gomap_wf m"
  by (auto simp: dec_map_def dec_entries_wf split: jtree.splits if_splits)

lemma find_field_in: "find_field fields k = Some f \<Longrightarrow> \<exists>n. (n, f) \<in> set fields"
proof -
  assume "find_field fields k = Some f"
  then consider "map_of fields k = Some f" | "map_of (map (apfst fold_name) fields) (fold_name k) = Some f"
    by (auto simp: find_field_def split: option.splits)
  then show ?thesis
  proof cases
    case 2
    then have "(fold_name k, f) \<in> set (map (apfst fold_name) fields)" by (rule map_of_SomeD)
    then obtain n g where "(n, g) \<in> set fields" "(fold_name k, f) = apfst fold_name (n, g)" by fastforce
    then show ?thesis by auto
  qed (auto dest: map_of_SomeD)
qed

lemma dec_members_inv:
  assumes "dec_members fields ms s = Inr s'" "P s"
    and "\<And>n f t x y. (n, f) \<in> set fields \<Longrightarrow> P x \<Longrightarrow> f t x = Inr y \<Longrightarrow> P y"
  shows "P s'"
  using assms(1,2)
proof (induction ms arbitrary: s)
  case (Cons m ms)
  obtain k t where m: "m = (k, t)" by fastforce
  show ?case
  proof (cases "find_field fields (unquote k)")
    case None
    with Cons m show ?thesis by simp
  next
    case (Some f)
    with Cons.prems(1) m obtain y where "f t s = Inr y" "dec_members fields ms y = Inr s'" by (auto split: sum.splits)
    moreover obtain n where "(n, f) \<in> set fields" using find_field_in [OF Some] by blast
    ultimately show ?thesis using Cons.IH assms(3) Cons.prems(2) by blast
  qed
qed simp

lemma dec_struct_inv:
  assumes "dec_struct fields t s = Inr s'" "P s"
    and "\<And>n f t x y. (n, f) \<in> set fields \<Longrightarrow> P x \<Longrightarrow> f t x = Inr y \<Longrightarrow> P y"
  shows "P s'"
proof (cases t)
  case (JObj r ms)
  then have "dec_members fields ms s = Inr s'" using assms(1) by (simp add: dec_struct_def)
  then show ?thesis using assms(2) by (rule dec_members_inv) (rule assms(3))
qed (use assms(1,2) in \<open>simp_all add: dec_struct_def split: if_splits\<close>)

text \<open>A text and a longer one cannot both be accepted, unless the longer one is a number or only adds white
  space: decoding never mistakes the beginning of an array or object for the whole.\<close>

lemma skip_ws_idem [simp]: "skip_ws (skip_ws s) = skip_ws s"
  by (simp add: skip_ws_def dropWhile_idem)

lemma skip_ws_all: "skip_ws (r @ q) = [] \<longleftrightarrow> skip_ws r = [] \<and> skip_ws q = []"
  by (auto simp: skip_ws_def)

lemma checkValid_prefix:
  assumes "checkValid s = Inr t" "checkValid (s @ q) = Inr t'" "\<forall>n. t \<noteq> JNum n"
  shows "t' = t \<and> skip_ws q = []"
proof -
  obtain r where r: "parse_value (skip_ws s) = Some (t, r)" "skip_ws r = []"
    using assms(1) by (auto simp: checkValid_def split: option.splits if_splits)
  obtain r' where r': "parse_value (skip_ws (s @ q)) = Some (t', r')" "skip_ws r' = []"
    using assms(2) by (auto simp: checkValid_def split: option.splits if_splits)
  have "skip_ws s \<noteq> []" using parse_value_split [OF r(1)] by auto
  then have "parse_value (skip_ws (s @ q)) = Some (t, r @ q)"
    using parse_extend(1) [OF r(1), of q] assms(3) by (simp add: skip_ws_append_ne)
  with r' show ?thesis using skip_ws_all [of r q] by auto
qed

section \<open>Writers\<close>

fun commas :: "string list \<Rightarrow> string" where
  "commas [] = []"
| "commas [s] = s"
| "commas (s # ss) = s @ CHR '','' # commas ss"

definition member_text :: "string \<Rightarrow> jtree \<Rightarrow> string" where
  "member_text k t = dquote # quote k @ dquote # CHR '':'' # jraw t"

definition enc_arr :: "jtree list \<Rightarrow> jtree" where
  "enc_arr ts = JArr (CHR ''['' # commas (map jraw ts) @ '']'') ts"

definition enc_obj :: "(string \<times> jtree) list \<Rightarrow> jtree" where
  "enc_obj ms = JObj (CHR ''{'' # commas (map (\<lambda>(k, t). member_text k t) ms) @ ''}'') (map (apfst quote) ms)"

definition enc_string :: "string \<Rightarrow> jtree" where "enc_string s = JStr (quote s)"
definition enc_int :: "int \<Rightarrow> jtree" where "enc_int i = JNum (Itoa i)"
definition enc_null :: jtree where "enc_null = JLit ''null''"

definition enc_ptr :: "('a \<Rightarrow> jtree) \<Rightarrow> 'a option \<Rightarrow> jtree" where
  "enc_ptr enc v = (case v of None \<Rightarrow> enc_null | Some x \<Rightarrow> enc x)"

definition enc_map :: "('a \<Rightarrow> jtree) \<Rightarrow> (string, 'a) gomap \<Rightarrow> jtree" where
  "enc_map enc m = enc_obj (map (apsnd enc) m)"

definition enc_slice :: "('a \<Rightarrow> jtree) \<Rightarrow> 'a list \<Rightarrow> jtree" where
  "enc_slice enc vs = enc_arr (map enc vs)"

text \<open>A tree is well formed if its text parses to it.\<close>

definition jwf :: "jtree \<Rightarrow> bool" where
  "jwf t \<longleftrightarrow> parse_value (jraw t) = Some (t, [])"

lemma jwf_text: "jwf t \<Longrightarrow> num_stop q \<Longrightarrow> parse_value (jraw t @ q) = Some (t, q)"
  unfolding jwf_def using parse_extend(1) [of "jraw t" t "[]" q] by simp

lemma jwf_no_ws: "jwf t \<Longrightarrow> skip_ws (jraw t @ q) = jraw t @ q"
proof -
  assume t: "jwf t"
  then have ws: "skip_ws (jraw t) = jraw t" by (simp add: jwf_def parse_value_no_ws)
  moreover have "jraw t \<noteq> []" using t parse_value_split unfolding jwf_def by blast
  ultimately show ?thesis using skip_ws_append_ne [of "jraw t" q] by simp
qed

lemma skip_ws_simps [simp]:
  "skip_ws (CHR '','' # s) = CHR '','' # s" "skip_ws (CHR '']'' # s) = CHR '']'' # s"
  "skip_ws (CHR ''}'' # s) = CHR ''}'' # s" "skip_ws (CHR '':'' # s) = CHR '':'' # s"
  "skip_ws (dquote # s) = dquote # s"
  by (simp_all add: skip_ws_def is_ws_def)

lemma num_stop_simps [simp]:
  "num_stop []" "num_stop (CHR '','' # s)" "num_stop (CHR '']'' # s)" "num_stop (CHR ''}'' # s)"
  by (simp_all add: num_stop_def is_digit_def)

lemma parse_elems_text:
  "ts \<noteq> [] \<Longrightarrow> \<forall>t \<in> set ts. jwf t \<Longrightarrow> parse_elems (commas (map jraw ts) @ CHR '']'' # q) = Some (ts, q)"
proof (induction ts rule: induct_list012)
  case (2 t)
  then show ?case by (simp add: parse_elems.simps jwf_text)
next
  case (3 t t' ts)
  let ?rest = "commas (map jraw (t' # ts))"
  have "parse_value (jraw t @ CHR '','' # ?rest @ CHR '']'' # q) = Some (t, CHR '','' # ?rest @ CHR '']'' # q)"
    using 3 by (simp add: jwf_text)
  moreover have "skip_ws (?rest @ CHR '']'' # q) = ?rest @ CHR '']'' # q"
    using 3 jwf_no_ws [of t'] by (cases ts) simp_all
  ultimately show ?case using 3(2) 3(4) by (simp add: parse_elems.simps [of "jraw t @ _"])
qed simp

lemma parse_members_text:
  "ms \<noteq> [] \<Longrightarrow> \<forall>(k, t) \<in> set ms. jwf t \<Longrightarrow>
     parse_members (commas (map (\<lambda>(k, t). member_text k t) ms) @ CHR ''}'' # q) = Some (map (apfst quote) ms, q)"
proof (induction ms rule: induct_list012)
  case (2 m)
  obtain k t where m: "m = (k, t)" by fastforce
  with 2 have "jwf t" by simp
  with m show ?case by (simp add: member_text_def parse_members.simps scan_string_quote jwf_text jwf_no_ws)
next
  case (3 m m' ms)
  obtain k t k' t' where m: "m = (k, t)" "m' = (k', t')" by fastforce
  let ?rest = "commas (map (\<lambda>(k, t). member_text k t) (m' # ms)) @ CHR ''}'' # q"
  have t: "jwf t" "jwf t'" using 3(4) m by auto
  have "skip_ws ?rest = ?rest" using m by (cases ms) (simp_all add: member_text_def)
  moreover have "parse_members ?rest = Some (map (apfst quote) (m' # ms), q)" using 3(2) 3(4) by simp
  ultimately show ?case
    using t m by (simp add: member_text_def parse_members.simps scan_string_quote jwf_text jwf_no_ws)
qed simp

named_theorems jwf_intros \<open>well-formed trees\<close>

lemma jwf_obj [jwf_intros]: "\<forall>(k, t) \<in> set ms. jwf t \<Longrightarrow> jwf (enc_obj ms)"
proof (cases "ms = []")
  case True
  then show ?thesis by (simp add: jwf_def enc_obj_def parse_value.simps consumed_def)
next
  case False
  assume a: "\<forall>(k, t) \<in> set ms. jwf t"
  let ?body = "commas (map (\<lambda>(k, t). member_text k t) ms)"
  have p: "parse_members (?body @ CHR ''}'' # []) = Some (map (apfst quote) ms, [])"
    using False a by (rule parse_members_text)
  obtain b where b: "?body @ ''}'' = dquote # b"
    using False by (cases "map (\<lambda>(k, t). member_text k t) ms" rule: commas.cases) (auto simp: member_text_def)
  then show ?thesis using p by (simp add: jwf_def enc_obj_def parse_value.simps b consumed_def)
qed

lemma jwf_arr [jwf_intros]: "\<forall>t \<in> set ts. jwf t \<Longrightarrow> jwf (enc_arr ts)"
proof (cases ts)
  case Nil
  then show ?thesis by (simp add: jwf_def enc_arr_def parse_value.simps consumed_def)
next
  case (Cons t ts')
  assume a: "\<forall>t \<in> set ts. jwf t"
  let ?body = "commas (map jraw ts)"
  have p: "parse_elems (?body @ CHR '']'' # []) = Some (ts, [])"
    using a Cons by (intro parse_elems_text) simp_all
  have t: "jwf t" using a Cons by simp
  obtain q where q: "?body @ '']'' = jraw t @ q" using Cons by (cases ts') auto
  have ws: "skip_ws (?body @ '']'') = ?body @ '']''" unfolding q by (rule jwf_no_ws [OF t])
  obtain d b where b: "jraw t @ q = d # b" "d \<noteq> CHR '']''"
  proof -
    have "parse_value (jraw t) = Some (t, [])" using t by (simp add: jwf_def)
    then show thesis
      by (cases "jraw t")
         (auto simp: parse_value.simps parse_scalar_def scan_number_def scan_sign_def scan_int_def is_digit_def intro: that)
  qed
  show ?thesis using p ws b by (simp add: jwf_def enc_arr_def parse_value.simps q consumed_def)
qed

lemma jwf_string [jwf_intros]: "jwf (enc_string s)"
  by (simp add: jwf_def enc_string_def parse_value.simps scan_string_quote)

lemma jwf_null [jwf_intros]: "jwf enc_null"
  by (simp add: jwf_def enc_null_def parse_value.simps parse_scalar_def scan_literal_def)

lemma show_nat_digits: "list_all is_digit (show_nat n)"
  using show_nat_chars [of _ n] by (fastforce simp: list_all_iff is_digit_def)

lemma show_nat_nonempty: "show_nat n \<noteq> []"
  by (subst show_nat.simps) simp

lemma show_nat_head: "0 < n \<Longrightarrow> hd (show_nat n) \<noteq> CHR ''0''"
proof (induction n rule: show_nat.induct)
  case (1 n)
  show ?case
  proof (cases "n < 10")
    case True
    with 1(2) digit_char_eq [of n "CHR ''0''"] show ?thesis by (auto simp: show_nat.simps [of n])
  next
    case False
    with 1(1) show ?thesis by (simp add: show_nat.simps [of n] show_nat_nonempty)
  qed
qed

lemma scan_int_show_nat: "scan_int (show_nat n) = Some (show_nat n, [])"
proof (cases "n = 0")
  case True
  then show ?thesis using of_char_digit [of 0] digit_char_def [of 0] by (simp add: scan_int_def show_nat.simps) code_simp
next
  case False
  obtain c r where s: "show_nat n = c # r" using show_nat_nonempty by (metis list.exhaust)
  then have "is_digit c" "\<forall>x \<in> set r. is_digit x" "c \<noteq> CHR ''0''"
    using show_nat_digits [of n] show_nat_head [of n] False by (simp_all add: list_all_iff)
  then show ?thesis by (simp add: s scan_int_def takeWhile_eq_all_conv [THEN iffD2])
qed

lemma scan_sign_Itoa:
  "scan_sign {CHR ''-''} (Itoa i) = (if i < 0 then ''-'' else [], show_nat (nat \<bar>i\<bar>))"
proof -
  have "show_nat n \<noteq> CHR ''-'' # r" for n r by (rule show_nat_neq_minus)
  then show ?thesis by (auto simp: Itoa_def scan_sign_def split: list.split)
qed

lemma jwf_int [jwf_intros]: "jwf (enc_int i)"
proof -
  have n: "scan_number (Itoa i) = Some (Itoa i, [])"
    by (simp add: scan_number_def scan_sign_Itoa scan_int_show_nat scan_frac_def scan_exp_def) (simp add: Itoa_def)
  obtain c r where s: "Itoa i = c # r" "c = CHR ''-'' \<or> is_digit c"
    using show_nat_digits [of "nat i"] show_nat_nonempty [of "nat i"]
    by (cases "i < 0"; cases "show_nat (nat i)") (auto simp: Itoa_def)
  then have "c \<notin> {dquote, CHR ''['', CHR ''{'', CHR ''t'', CHR ''f'', CHR ''n''}" by (auto simp: is_digit_def)
  with n s show ?thesis by (simp add: jwf_def enc_int_def parse_value.simps parse_scalar_def)
qed

lemma jwf_ptr [jwf_intros]: "(\<And>x. v = Some x \<Longrightarrow> jwf (enc x)) \<Longrightarrow> jwf (enc_ptr enc v)"
  by (cases v) (simp_all add: enc_ptr_def jwf_null)

lemma jwf_map [jwf_intros]: "(\<And>k v. (k, v) \<in> set m \<Longrightarrow> jwf (enc v)) \<Longrightarrow> jwf (enc_map enc m)"
  unfolding enc_map_def by (rule jwf_obj) auto

lemma jwf_slice [jwf_intros]: "(\<And>v. v \<in> set vs \<Longrightarrow> jwf (enc v)) \<Longrightarrow> jwf (enc_slice enc vs)"
  unfolding enc_slice_def by (rule jwf_arr) auto

section \<open>Round trips\<close>

lemma dec_enc_string: "utf8_valid s \<Longrightarrow> dec_string (enc_string s) cur = Inr s"
  by (simp add: dec_string_def enc_string_def unquote_quote)

lemma ParseInt_Itoa: "- (2 ^ 63) \<le> i \<Longrightarrow> i < 2 ^ 63 \<Longrightarrow> ParseInt (Itoa i) = Some i"
  using show_nat_digits [of "nat \<bar>i\<bar>"] show_nat_nonempty [of "nat \<bar>i\<bar>"]
  by (auto simp: ParseInt_def scan_sign_Itoa read_show_nat simp del: read_nat.simps)

lemma dec_enc_int: "- (2 ^ 63) \<le> i \<Longrightarrow> i < 2 ^ 63 \<Longrightarrow> dec_int (enc_int i) cur = Inr i"
  by (simp add: dec_int_def enc_int_def ParseInt_Itoa)

lemma dec_enc_ptr_string: "pred_option utf8_valid v \<Longrightarrow> dec_ptr dec_string zero (enc_ptr enc_string v) cur = Inr v"
  by (cases v) (simp_all add: dec_ptr_def enc_ptr_def is_null_def enc_null_def dec_enc_string, simp add: enc_string_def)

lemma dec_enc_elems: "(\<And>v. v \<in> set vs \<Longrightarrow> dec (enc v) zero = Inr v) \<Longrightarrow> dec_elems dec zero (map enc vs) = Inr vs"
  by (induction vs) simp_all

lemma dec_enc_slice:
  "(\<And>v. v \<in> set vs \<Longrightarrow> dec (enc v) zero = Inr v) \<Longrightarrow> dec_slice dec zero (enc_slice enc vs) cur = Inr vs"
  by (simp add: dec_slice_def enc_slice_def enc_arr_def dec_enc_elems)

lemma update_fresh: "k \<notin> fst ` set m \<Longrightarrow> AList.update k v m = m @ [(k, v)]"
  by (induction m) auto

lemma dec_enc_entries:
  assumes "gomap_wf (acc @ m)" "\<forall>(k, v) \<in> set m. utf8_valid k \<and> dec (enc v) zero = Inr v"
  shows "dec_entries dec zero (map (apfst quote) (map (apsnd enc) m)) acc = Inr (acc @ m)"
  using assms
proof (induction m arbitrary: acc)
  case (Cons x m)
  obtain k v where x: "x = (k, v)" by fastforce
  have "k \<notin> fst ` set acc" using Cons.prems(1) x by auto
  then have "AList.update k v acc = acc @ [(k, v)]" by (rule update_fresh)
  moreover have "utf8_valid k" "dec (enc v) zero = Inr v" using Cons.prems(2) x by auto
  ultimately show ?case using Cons.IH [of "acc @ [(k, v)]"] Cons.prems x by (simp add: unquote_quote)
qed simp

lemma dec_enc_map:
  assumes "gomap_wf m" "\<And>k v. (k, v) \<in> set m \<Longrightarrow> utf8_valid k \<and> dec (enc v) zero = Inr v"
  shows "dec_map dec zero (enc_map enc m) [] = Inr m"
  using dec_enc_entries [of "[]" m dec enc zero] assms by (auto simp add: dec_map_def enc_map_def enc_obj_def)

lemma find_field_exact: "map_of fields k = Some f \<Longrightarrow> find_field fields k = Some f"
  by (simp add: find_field_def)

lemma dec_members_Cons:
  "utf8_valid k \<Longrightarrow> dec_members fields ((quote k, t) # ms) s =
     (case find_field fields k of None \<Rightarrow> dec_members fields ms s
      | Some f \<Rightarrow> (case f t s of Inl e \<Rightarrow> Inl e | Inr s' \<Rightarrow> dec_members fields ms s'))"
  by (simp add: unquote_quote)

lemma Unmarshal_text: "jwf t \<Longrightarrow> jdepth t \<le> maxNestingDepth \<Longrightarrow> Unmarshal dec zero (jraw t) = dec t zero"
  using jwf_no_ws [of t "[]"] by (simp add: Unmarshal_def checkValid_def jwf_def skip_ws_def)

lemma jdepth_nonneg [simp]: "0 \<le> jdepth t"
proof -
  have m: "0 \<le> foldr max (xs :: int list) 0" for xs by (induction xs) auto
  show ?thesis by (cases t) (auto intro: add_nonneg_nonneg m)
qed

lemma jdepth_leaf [simp]: "jdepth (enc_string s) = 0" "jdepth (enc_int i) = 0" "jdepth enc_null = 0"
  by (simp_all add: enc_string_def enc_int_def enc_null_def)

lemma foldr_max_le: "0 \<le> n \<Longrightarrow> \<forall>x \<in> set xs. x \<le> n \<Longrightarrow> foldr max xs 0 \<le> (n :: int)"
  by (induction xs) auto

lemma jdepth_obj: "0 \<le> n \<Longrightarrow> \<forall>(k, t) \<in> set ms. jdepth t \<le> n \<Longrightarrow> jdepth (enc_obj ms) \<le> 1 + n"
  unfolding enc_obj_def by (auto simp: apfst_def map_prod_def case_prod_unfold intro!: foldr_max_le)

lemma jdepth_map: "0 \<le> n \<Longrightarrow> \<forall>(k, v) \<in> set m. jdepth (enc v) \<le> n \<Longrightarrow> jdepth (enc_map enc m) \<le> 1 + n"
  unfolding enc_map_def by (rule jdepth_obj) auto

lemma jdepth_slice: "0 \<le> n \<Longrightarrow> \<forall>v \<in> set vs. jdepth (enc v) \<le> n \<Longrightarrow> jdepth (enc_slice enc vs) \<le> 1 + n"
  unfolding enc_slice_def enc_arr_def by (auto intro!: foldr_max_le)

lemma jdepth_ptr [simp]: "jdepth (enc_ptr enc_string v) = 0"
  by (cases v) (simp_all add: enc_ptr_def)

end
