(* ===== verification/Inner_API.thy ===== *)
theory Inner_API
  imports Json_Decode
begin

text \<open>
  \<open>pkg/innerapi/client.go\<close>: the HTTP client of the control plane. A request is its URL and its
  authorization header; the transport (\<open>net/http\<close> and the network behind it) is a function from
  requests to responses, one more argument of \<open>Client_Get\<close>, and so is the validity check of
  \<open>http.NewRequest\<close>. Everything else is computed: URL, size limit, status, the decoding of envelope,
  payload and configuration with the field names of the source, error number, absent data, and the
  texts of the client's own errors.
\<close>

section \<open>Data\<close>

definition errNumOK :: int where "errNumOK = 200"
definition StatusOK :: int where "StatusOK = 200"

record envelope =
  env_ErrNum :: int
  env_ErrMsg :: string
  env_Data :: string
  env_WorkMode :: string

record Versioned =
  pl_Version :: string
  pl_Config :: string

definition EppDataConfigPath :: string where "EppDataConfigPath = ''/configs/epp_data/config''"

record AssignmentEntry =
  ae_Primary :: "string option"
  ae_Standby :: "string option"

record EppDataConfig =
  ed_EppConfig :: "(string, string) gomap"
  ed_Assignment :: "(string, AssignmentEntry) gomap"

record Client =
  cl_baseURL :: string
  cl_token :: string
  cl_timeout :: Duration

definition NewClient :: "string \<Rightarrow> string \<Rightarrow> Duration \<Rightarrow> Client" where
  "NewClient baseURL token timeout =
     \<lparr>cl_baseURL = TrimRight baseURL CHR ''/'', cl_token = token,
      cl_timeout = (if sint timeout \<le> 0 then 3 * Second else timeout)\<rparr>"

record http_request =
  rq_URL :: string
  rq_Authorization :: "string option"

record http_response =
  rs_StatusCode :: int
  rs_Body :: "string result"

record http =
  NewRequest :: "string \<Rightarrow> go_error option"
  Do :: "http_request \<Rightarrow> http_response result"

section \<open>Decoding\<close>

text \<open>The struct tags: name, decoder and target of every field.\<close>

definition dec_envelope :: "envelope decoder" where
  "dec_envelope = dec_struct
     [(''ErrNum'', field dec_int env_ErrNum (\<lambda>v s. s\<lparr>env_ErrNum := v\<rparr>)),
      (''ErrMsg'', field dec_string env_ErrMsg (\<lambda>v s. s\<lparr>env_ErrMsg := v\<rparr>)),
      (''Data'', field dec_raw env_Data (\<lambda>v s. s\<lparr>env_Data := v\<rparr>)),
      (''WorkMode'', field dec_string env_WorkMode (\<lambda>v s. s\<lparr>env_WorkMode := v\<rparr>))]"

definition zero_envelope :: envelope where
  "zero_envelope = \<lparr>env_ErrNum = 0, env_ErrMsg = [], env_Data = [], env_WorkMode = []\<rparr>"

definition dec_payload :: "Versioned decoder" where
  "dec_payload = dec_struct
     [(''Version'', field dec_string pl_Version (\<lambda>v s. s\<lparr>pl_Version := v\<rparr>)),
      (''Config'', field dec_raw pl_Config (\<lambda>v s. s\<lparr>pl_Config := v\<rparr>))]"

definition zero_payload :: Versioned where
  "zero_payload = \<lparr>pl_Version = [], pl_Config = []\<rparr>"

definition dec_AssignmentEntry :: "AssignmentEntry decoder" where
  "dec_AssignmentEntry = dec_struct
     [(''primary'', field (dec_ptr dec_string []) ae_Primary (\<lambda>v s. s\<lparr>ae_Primary := v\<rparr>)),
      (''standby'', field (dec_ptr dec_string []) ae_Standby (\<lambda>v s. s\<lparr>ae_Standby := v\<rparr>))]"

definition zero_AssignmentEntry :: AssignmentEntry where
  "zero_AssignmentEntry = \<lparr>ae_Primary = None, ae_Standby = None\<rparr>"

definition dec_EppDataConfig :: "EppDataConfig decoder" where
  "dec_EppDataConfig = dec_struct
     [(''epp_config'', field (dec_map dec_raw []) ed_EppConfig (\<lambda>v s. s\<lparr>ed_EppConfig := v\<rparr>)),
      (''assignment'', field (dec_map dec_AssignmentEntry zero_AssignmentEntry) ed_Assignment
         (\<lambda>v s. s\<lparr>ed_Assignment := v\<rparr>))]"

definition zero_EppDataConfig :: EppDataConfig where
  "zero_EppDataConfig = \<lparr>ed_EppConfig = [], ed_Assignment = []\<rparr>"

section \<open>Operations\<close>

definition truncate_str :: "string \<Rightarrow> nat \<Rightarrow> string" where
  "truncate_str s n = (if length s \<le> n then s else take n s @ ''...'')"

text \<open>\<open>bytes.TrimSpace\<close> on ASCII white space.\<close>

definition is_space :: "char \<Rightarrow> bool" where
  "is_space c \<longleftrightarrow> (of_char c :: nat) \<in> {9, 10, 11, 12, 13, 32}"

definition TrimSpace :: "string \<Rightarrow> string" where
  "TrimSpace s = rev (dropWhile is_space (rev (dropWhile is_space s)))"

definition setAuth :: "Client \<Rightarrow> http_request \<Rightarrow> http_request" where
  "setAuth c req = (if cl_token c \<noteq> [] then req\<lparr>rq_Authorization := Some (''Token '' @ cl_token c)\<rparr> else req)"

definition request_url :: "Client \<Rightarrow> string \<Rightarrow> string \<Rightarrow> string" where
  "request_url c path version =
     (let u = cl_baseURL c @ path
      in if version \<noteq> [] then
           u @ (if CHR ''?'' \<in> set u then ''&'' else ''?'') @ ''version='' @ QueryEscape version
         else u)"

text \<open>\<open>Get\<close> with a non-nil \<open>out\<close>: \<open>dec\<close> is the decoder of the type \<open>out\<close> points to and \<open>zero\<close> the value it
  holds before the call; the last component of the result is what it holds after.\<close>

definition Client_Get :: "http \<Rightarrow> 'd decoder \<Rightarrow> 'd \<Rightarrow> Client \<Rightarrow> string \<Rightarrow> string \<Rightarrow>
    (bool \<times> string \<times> 'd) result" where
  "Client_Get net dec zero c path version =
     (let u = request_url c path version in
      case NewRequest net u of Some err \<Rightarrow> Inl err | None \<Rightarrow>
      (case Do net (setAuth c \<lparr>rq_URL = u, rq_Authorization = None\<rparr>) of
         Inl err \<Rightarrow> Inl (ErrWrap (''innerapi get '' @ path) err)
       | Inr resp \<Rightarrow>
      (case rs_Body resp of
         Inl err \<Rightarrow> Inl (ErrWrap (''innerapi read '' @ path) err)
       | Inr full \<Rightarrow>
      (let body = take (32 * 2 ^ 20) full in
       if rs_StatusCode resp \<noteq> StatusOK then
         Inl (ErrMsg (''innerapi get '' @ path @ '': status '' @ Itoa (rs_StatusCode resp) @ '': '' @ truncate_str body 200))
       else
      (case Unmarshal dec_envelope zero_envelope body of
         Inl err \<Rightarrow> Inl (ErrWrap (''innerapi decode '' @ path) err)
       | Inr env \<Rightarrow>
       if env_ErrNum env \<noteq> errNumOK then
         Inl (ErrMsg (''innerapi get '' @ path @ '': errnum '' @ Itoa (env_ErrNum env) @ '': '' @ env_ErrMsg env))
       else if env_Data env = [] \<or> TrimSpace (env_Data env) = ''null'' then Inr (False, version, zero)
       else
      (case Unmarshal dec_payload zero_payload (env_Data env) of
         Inl err \<Rightarrow> Inl (ErrWrap (''innerapi decode data '' @ path) err)
       | Inr payload \<Rightarrow>
      (case Unmarshal dec zero (pl_Config payload) of
         Inl err \<Rightarrow> Inl (ErrWrap (''innerapi decode config '' @ path) err)
       | Inr d \<Rightarrow> Inr (True, pl_Version payload, d))))))))"

section \<open>Properties\<close>

lemma truncate_bound: "length (truncate_str s n) \<le> n + 3"
  by (simp add: truncate_str_def)

lemma upper_hex_unreserved: "unreserved (upper_hex n)"
proof -
  have "\<forall>n \<in> set [0..<16]. unreserved (upper_hex n)" by code_simp
  then have "unreserved (upper_hex (n mod 16))" by simp
  then show ?thesis by (simp add: upper_hex_def)
qed

lemma QueryEscape_safe: "c \<in> set (QueryEscape s) \<Longrightarrow> unreserved c \<or> c = CHR ''%'' \<or> c = CHR ''+''"
  using upper_hex_unreserved by (auto simp: QueryEscape_def escape_char_def split: if_splits)

lemma QueryEscape_no_equals: "CHR ''='' \<notin> set (QueryEscape s)"
  using QueryEscape_safe [of "CHR ''=''" s] by (auto simp: unreserved_def)

text \<open>The last query parameter of a URL, as a server reads it: the text behind the last \<open>=\<close>.\<close>

definition last_query_value :: "string \<Rightarrow> string" where
  "last_query_value u = rev (takeWhile (\<lambda>c. c \<noteq> CHR ''='') (rev u))"

lemma last_query_value_append:
  "CHR ''='' \<notin> set v \<Longrightarrow> last_query_value (u @ CHR ''='' # v) = v"
proof -
  assume "CHR ''='' \<notin> set v"
  then have "takeWhile (\<lambda>c. c \<noteq> CHR ''='') (rev v) = rev v" by (auto simp: takeWhile_eq_all_conv)
  then show ?thesis using \<open>CHR ''='' \<notin> set v\<close> by (simp add: last_query_value_def takeWhile_append)
qed

text \<open>
  The version reaches the server intact. Whatever bytes a version consists of, the request
  carries it as its last query parameter, and decoding that parameter gives the version back; its
  encoding contains no character that ends the parameter (\<open>&\<close>, \<open>=\<close>, \<open>#\<close>, \<open>?\<close>) and no space.
\<close>

lemma version_reaches_server:
  assumes "version \<noteq> []"
  shows "QueryUnescape (last_query_value (request_url c path version)) = version \<and>
    set (last_query_value (request_url c path version)) \<inter> set ''&=#? '' = {}"
proof -
  have url: "request_url c path version =
      (cl_baseURL c @ path @ (if CHR ''?'' \<in> set (cl_baseURL c @ path) then ''&'' else ''?'') @ ''version'') @
        CHR ''='' # QueryEscape version"
    using assms by (simp add: request_url_def Let_def)
  have "last_query_value (request_url c path version) = QueryEscape version"
    unfolding url by (rule last_query_value_append) (rule QueryEscape_no_equals)
  moreover have "set (QueryEscape version) \<inter> set ''&=#? '' = {}"
  proof -
    have "\<forall>x \<in> set ''&=#? ''. \<not> unreserved x \<and> x \<noteq> CHR ''%'' \<and> x \<noteq> CHR ''+''"
      by (simp add: unreserved_def)
    then show ?thesis using QueryEscape_safe [of _ version] unfolding disjoint_iff by metis
  qed
  ultimately show ?thesis by (simp add: QueryUnescape_Escape)
qed

lemma version_reaches_server_example:
  "QueryUnescape (last_query_value (request_url (NewClient ''http://api/v1/'' '''' 0) EppDataConfigPath ''a&b=1'')) = ''a&b=1''"
  using version_reaches_server [of "''a&b=1''" "NewClient ''http://api/v1/'' '''' 0" EppDataConfigPath] by simp

text \<open>
  When \<open>Get\<close> reports a change, everything on the way succeeded: the response has status 200,
  its (size-limited) body is an envelope with error number 200 and with data, and version and
  configuration are decoded from that data. When it reports no change, it returns the version it
  was asked with. In every other case it returns an error.
\<close>

lemma get_outcome:
  "(case Client_Get net dec zero c path version of
      Inl err \<Rightarrow> True
    | Inr (changed, ver, d) \<Rightarrow>
        (\<exists>resp full env. Do net (setAuth c \<lparr>rq_URL = request_url c path version, rq_Authorization = None\<rparr>) = Inr resp \<and>
           rs_Body resp = Inr full \<and> rs_StatusCode resp = 200 \<and>
           Unmarshal dec_envelope zero_envelope (take (32 * 2 ^ 20) full) = Inr env \<and> env_ErrNum env = 200 \<and>
           (if changed then TrimSpace (env_Data env) \<noteq> ''null'' \<and> env_Data env \<noteq> [] \<and>
              (\<exists>payload. Unmarshal dec_payload zero_payload (env_Data env) = Inr payload \<and> ver = pl_Version payload \<and>
                 Unmarshal dec zero (pl_Config payload) = Inr d)
            else ver = version \<and> d = zero \<and>
              (env_Data env = [] \<or> TrimSpace (env_Data env) = ''null''))))"
  by (auto simp: Client_Get_def Let_def StatusOK_def errNumOK_def split: option.split sum.split)

section \<open>Answers of the control plane\<close>

text \<open>An answer as the control plane writes it, for a configuration given as a tree.\<close>

definition data_tree :: "string \<Rightarrow> jtree \<Rightarrow> jtree" where
  "data_tree ver conf = enc_obj [(''Version'', enc_string ver), (''Config'', conf)]"

definition answer_tree :: "string \<Rightarrow> jtree \<Rightarrow> jtree" where
  "answer_tree ver conf =
     enc_obj [(''ErrNum'', enc_int 200), (''ErrMsg'', enc_string ''success''), (''Data'', data_tree ver conf)]"

lemma jwf_answer: "jwf conf \<Longrightarrow> jwf (data_tree ver conf) \<and> jwf (answer_tree ver conf)"
  by (auto simp: data_tree_def answer_tree_def intro!: jwf_intros)

lemma jdepth_answer:
  "jdepth (data_tree ver conf) = 1 + jdepth conf" "jdepth (answer_tree ver conf) = 2 + jdepth conf"
  using jdepth_nonneg [of conf] by (simp_all add: data_tree_def answer_tree_def enc_obj_def max_absorb1 max_absorb2)

lemma TrimSpace_object: "TrimSpace (CHR ''{'' # s @ ''}'') \<noteq> ''null''"
proof -
  have "TrimSpace (CHR ''{'' # s @ ''}'') = CHR ''{'' # s @ ''}''"
    by (simp add: TrimSpace_def is_space_def)
  then show ?thesis by simp
qed

lemma decode_answer:
  assumes "utf8_valid ver"
  shows "dec_envelope (answer_tree ver conf) zero_envelope =
      Inr \<lparr>env_ErrNum = 200, env_ErrMsg = ''success'', env_Data = jraw (data_tree ver conf), env_WorkMode = []\<rparr>"
    and "dec_payload (data_tree ver conf) zero_payload = Inr \<lparr>pl_Version = ver, pl_Config = jraw conf\<rparr>"
  using assms
  by (simp_all add: dec_envelope_def answer_tree_def enc_obj_def dec_struct_def find_field_exact field_def zero_envelope_def
      unquote_quote dec_enc_int dec_enc_string dec_raw_def dec_payload_def data_tree_def zero_payload_def)

text \<open>The server answers a request with a text.\<close>

definition answers :: "http \<Rightarrow> Client \<Rightarrow> string \<Rightarrow> string \<Rightarrow> string \<Rightarrow> bool" where
  "answers net c path version body \<longleftrightarrow>
     NewRequest net (request_url c path version) = None \<and>
     Do net (setAuth c \<lparr>rq_URL = request_url c path version, rq_Authorization = None\<rparr>) =
       Inr \<lparr>rs_StatusCode = 200, rs_Body = Inr body\<rparr>"

definition body_limit :: nat where "body_limit = 32 * 2 ^ 20"

lemma get_answer:
  assumes "answers net c path version (jraw (answer_tree ver conf))" "length (jraw (answer_tree ver conf)) \<le> body_limit"
    and "jwf conf" "jdepth conf \<le> 9998" "utf8_valid ver"
  shows "Client_Get net dec zero c path version =
    (case dec conf zero of Inl err \<Rightarrow> Inl (ErrWrap (''innerapi decode config '' @ path) err) | Inr d \<Rightarrow> Inr (True, ver, d))"
proof -
  have wf: "jwf (data_tree ver conf)" "jwf (answer_tree ver conf)" using jwf_answer assms(3) by blast+
  have un: "Unmarshal dec_envelope zero_envelope (jraw (answer_tree ver conf)) =
      Inr \<lparr>env_ErrNum = 200, env_ErrMsg = ''success'', env_Data = jraw (data_tree ver conf), env_WorkMode = []\<rparr>"
    "Unmarshal dec_payload zero_payload (jraw (data_tree ver conf)) = Inr \<lparr>pl_Version = ver, pl_Config = jraw conf\<rparr>"
    "Unmarshal dec zero (jraw conf) = dec conf zero"
    using assms(3-5) wf by (simp_all add: Unmarshal_text jdepth_answer maxNestingDepth_def decode_answer)
  obtain b where d: "jraw (data_tree ver conf) = CHR ''{'' # b @ ''}''" by (simp add: data_tree_def enc_obj_def)
  have data: "TrimSpace (jraw (data_tree ver conf)) \<noteq> ''null''" "jraw (data_tree ver conf) \<noteq> []"
    unfolding d by (rule TrimSpace_object) simp
  have lim: "take (32 * 2 ^ 20) (jraw (answer_tree ver conf)) = jraw (answer_tree ver conf)"
    using assms(2) by (simp add: body_limit_def)
  show ?thesis
    using assms(1) un data lim
    by (simp add: Client_Get_def Let_def answers_def StatusOK_def errNumOK_def split: sum.split)
qed

text \<open>A text that the grammar reads as an object is not a number to any of its prefixes.\<close>

lemma object_prefix:
  assumes "checkValid s = Inr t" "checkValid (s @ q) = Inr (JObj raw ms)"
  shows "\<forall>n. t \<noteq> JNum n"
proof (intro allI notI)
  fix n assume t: "t = JNum n"
  obtain r where r: "parse_value (skip_ws s) = Some (JNum n, r)"
    using assms(1) t by (auto simp: checkValid_def split: option.splits if_splits)
  have ne: "skip_ws s \<noteq> []" using parse_value_split [OF r] by auto
  obtain r' where r': "parse_value (skip_ws s @ q) = Some (JObj raw ms, r')"
    using assms(2) ne by (auto simp: checkValid_def skip_ws_append_ne split: option.splits if_splits)
  obtain c w where "skip_ws s = c # w" using ne by (cases "skip_ws s") auto
  with r r' show False
    by (auto simp: parse_value.simps parse_scalar_def split: if_splits list.splits)
qed

text \<open>
  C31. Oversized answers are rejected, not applied in part. The client reads at most 32 MiB of a
  body. If a longer body is a JSON object and what lies beyond the limit is more than white space,
  the part that was read is not taken for the answer: \<open>Get\<close> returns a decoding error.
\<close>

theorem truncated_answer_rejected:
  assumes "answers net c path version body" and "checkValid body = Inr (JObj raw ms)"
    and "skip_ws (drop body_limit body) \<noteq> []"
  shows "Client_Get net dec zero c path version = Inl (ErrWrap (''innerapi decode '' @ path) ErrSyntax)"
proof -
  let ?b = "take body_limit body"
  have split: "body = ?b @ drop body_limit body" by simp
  have "checkValid ?b \<noteq> Inr t" for t
  proof
    assume t: "checkValid ?b = Inr t"
    have whole: "checkValid (?b @ drop body_limit body) = Inr (JObj raw ms)" using assms(2) by simp
    from checkValid_prefix [OF t whole object_prefix [OF t whole]] assms(3) show False by simp
  qed
  moreover have "checkValid s = Inl ErrSyntax \<or> (\<exists>t. checkValid s = Inr t)" for s
    by (auto simp: checkValid_def split: option.split)
  ultimately have "Unmarshal dec_envelope zero_envelope ?b = Inl ErrSyntax"
    by (metis (no_types, lifting) Unmarshal_def sum.case(1))
  then show ?thesis
    using assms(1) by (simp add: Client_Get_def Let_def answers_def StatusOK_def body_limit_def)
qed

definition padded_body :: string where
  "padded_body = CHR ''{'' # replicate body_limit (CHR '' '') @ ''}''"

definition padded_net :: http where
  "padded_net = \<lparr>NewRequest = (\<lambda>_. None), Do = (\<lambda>_. Inr \<lparr>rs_StatusCode = 200, rs_Body = Inr padded_body\<rparr>)\<rparr>"

theorem truncated_answer_rejected_witness:
  "Client_Get padded_net dec_EppDataConfig zero_EppDataConfig (NewClient ''http://api'' '''' 0) EppDataConfigPath '''' =
     Inl (ErrWrap (''innerapi decode '' @ EppDataConfigPath) ErrSyntax)"
proof (rule truncated_answer_rejected)
  show "answers padded_net (NewClient ''http://api'' '''' 0) EppDataConfigPath '''' padded_body"
    by (simp add: answers_def padded_net_def)
  have ws: "skip_ws (replicate n (CHR '' '') @ ''}'') = ''}''" for n
    by (simp add: skip_ws_def dropWhile_append is_ws_def)
  show "checkValid padded_body = Inr (JObj padded_body [])"
    by (simp add: checkValid_def padded_body_def skip_ws_def [of "CHR ''{'' # _"] is_ws_def parse_value.simps ws
        consumed_def maxNestingDepth_def) (simp add: skip_ws_def)
  have "drop body_limit padded_body = drop (body_limit - 1) (replicate body_limit (CHR '' '')) @ ''}''"
    by (simp add: padded_body_def drop_Cons' body_limit_def)
  also have "drop (body_limit - 1) (replicate body_limit (CHR '' '')) = replicate 1 (CHR '' '')"
    by (simp add: body_limit_def drop_replicate)
  finally show "skip_ws (drop body_limit padded_body) \<noteq> []"
    by (simp add: skip_ws_def is_ws_def)
qed

section \<open>Snapshots\<close>

text \<open>Whatever text a snapshot is decoded from, its two sections are maps: no cluster occurs twice.\<close>

lemma EppDataConfig_wf:
  assumes "Unmarshal dec_EppDataConfig zero_EppDataConfig s = Inr conf"
  shows "gomap_wf (ed_EppConfig conf)" "gomap_wf (ed_Assignment conf)"
proof -
  let ?P = "\<lambda>x. gomap_wf (ed_EppConfig x) \<and> gomap_wf (ed_Assignment x)"
  obtain t where t: "dec_EppDataConfig t zero_EppDataConfig = Inr conf"
    using assms by (auto simp: Unmarshal_def split: sum.splits)
  have "?P conf"
    using t unfolding dec_EppDataConfig_def
    by (rule dec_struct_inv) (auto simp: zero_EppDataConfig_def field_def split: sum.splits elim!: dec_map_wf)
  then show "gomap_wf (ed_EppConfig conf)" "gomap_wf (ed_Assignment conf)" by blast+
qed

text \<open>A snapshot as the control plane writes it. The configurations are texts of their own; a text can be
  embedded if it is one JSON value without white space around it, nested no deeper than the limit
  of the decoder leaves room for.\<close>

definition raw_ok :: "string \<Rightarrow> bool" where
  "raw_ok raw \<longleftrightarrow> (case parse_value raw of Some (t, r) \<Rightarrow> r = [] \<and> jdepth t \<le> 9996 | None \<Rightarrow> False)"

definition raw_tree :: "string \<Rightarrow> jtree" where
  "raw_tree raw = (case parse_value raw of Some (t, r) \<Rightarrow> t | None \<Rightarrow> enc_null)"

definition enc_AssignmentEntry :: "AssignmentEntry \<Rightarrow> jtree" where
  "enc_AssignmentEntry e =
     enc_obj [(''primary'', enc_ptr enc_string (ae_Primary e)), (''standby'', enc_ptr enc_string (ae_Standby e))]"

definition enc_EppDataConfig :: "EppDataConfig \<Rightarrow> jtree" where
  "enc_EppDataConfig conf =
     enc_obj [(''epp_config'', enc_map raw_tree (ed_EppConfig conf)),
              (''assignment'', enc_map enc_AssignmentEntry (ed_Assignment conf))]"

definition entry_ok :: "AssignmentEntry \<Rightarrow> bool" where
  "entry_ok e \<longleftrightarrow> pred_option utf8_valid (ae_Primary e) \<and> pred_option utf8_valid (ae_Standby e)"

definition snapshot_ok :: "EppDataConfig \<Rightarrow> bool" where
  "snapshot_ok conf \<longleftrightarrow> gomap_wf (ed_EppConfig conf) \<and> gomap_wf (ed_Assignment conf) \<and>
     list_all (\<lambda>(k, raw). utf8_valid k \<and> raw_ok raw) (ed_EppConfig conf) \<and>
     list_all (\<lambda>(k, e). utf8_valid k \<and> entry_ok e) (ed_Assignment conf)"

lemma raw_tree:
  assumes "raw_ok raw"
  shows "jraw (raw_tree raw) = raw" "jwf (raw_tree raw)" "jdepth (raw_tree raw) \<le> 9996"
proof -
  obtain t where t: "parse_value raw = Some (t, [])" "jdepth t \<le> 9996"
    using assms by (auto simp: raw_ok_def split: option.splits)
  with parse_value_split [OF t(1)] show "jraw (raw_tree raw) = raw" "jwf (raw_tree raw)" "jdepth (raw_tree raw) \<le> 9996"
    by (simp_all add: raw_tree_def jwf_def)
qed

lemma dec_enc_AssignmentEntry:
  "entry_ok e \<Longrightarrow> dec_AssignmentEntry (enc_AssignmentEntry e) zero_AssignmentEntry = Inr e"
  by (simp add: dec_AssignmentEntry_def enc_AssignmentEntry_def enc_obj_def dec_struct_def find_field_exact field_def
      zero_AssignmentEntry_def unquote_quote dec_enc_ptr_string entry_ok_def)

lemma dec_enc_EppDataConfig:
  assumes "snapshot_ok conf"
  shows "dec_EppDataConfig (enc_EppDataConfig conf) zero_EppDataConfig = Inr conf"
proof -
  have "dec_map dec_raw [] (enc_map raw_tree (ed_EppConfig conf)) [] = Inr (ed_EppConfig conf)"
    using assms by (intro dec_enc_map) (auto simp: snapshot_ok_def list_all_iff dec_raw_def raw_tree)
  moreover have "dec_map dec_AssignmentEntry zero_AssignmentEntry (enc_map enc_AssignmentEntry (ed_Assignment conf)) [] =
      Inr (ed_Assignment conf)"
    using assms by (intro dec_enc_map) (auto simp: snapshot_ok_def list_all_iff dec_enc_AssignmentEntry)
  ultimately show ?thesis
    by (simp add: dec_EppDataConfig_def enc_EppDataConfig_def enc_obj_def dec_struct_def find_field_exact field_def
        zero_EppDataConfig_def unquote_quote)
qed

lemma enc_EppDataConfig_ok:
  assumes "snapshot_ok conf"
  shows "jwf (enc_EppDataConfig conf)" "jdepth (enc_EppDataConfig conf) \<le> 9998"
proof -
  have e: "jwf (enc_AssignmentEntry e)" "jdepth (enc_AssignmentEntry e) \<le> 1 + 0" for e
    unfolding enc_AssignmentEntry_def by (auto intro!: jwf_intros) (simp add: enc_obj_def)
  have c: "jwf (enc_map raw_tree (ed_EppConfig conf))"
    by (rule jwf_map) (use assms in \<open>auto simp: snapshot_ok_def list_all_iff raw_tree\<close>)
  have d: "jdepth (enc_map raw_tree (ed_EppConfig conf)) \<le> 1 + 9996"
    by (rule jdepth_map) (use assms in \<open>auto simp: snapshot_ok_def list_all_iff raw_tree\<close>)
  have a: "jwf (enc_map enc_AssignmentEntry (ed_Assignment conf))"
    by (rule jwf_map) (rule e)
  have "jdepth (enc_map enc_AssignmentEntry (ed_Assignment conf)) \<le> 1 + (1 + 0)"
    by (rule jdepth_map) (use e in auto)
  with d have "jdepth (enc_EppDataConfig conf) \<le> 1 + 9997"
    unfolding enc_EppDataConfig_def by (intro jdepth_obj) auto
  with c a show "jwf (enc_EppDataConfig conf)" "jdepth (enc_EppDataConfig conf) \<le> 9998"
    unfolding enc_EppDataConfig_def by (auto intro!: jwf_obj)
qed

end
