(* ===== verification/Poller_Loop.thy ===== *)
theory Poller_Loop
  imports Go_Std
begin

text \<open>
  \<open>pkg/poller/helpers.go\<close> and \<open>poller.go\<close>: the version-increment polling loop, its exponential
  backoff, its first-sync signal and its metrics. A poller is generic in its source and its
  handler. The model is too: a round takes what the source answers for the version it is asked
  with (the server may answer differently in every round), and the handler is a function on the
  consumer's state. \<open>Poller_Start\<close> runs the loop over the rounds that happen before its context is
  cancelled, and records the delay it waited before each.

  A channel that is closed is counted (\<open>p_firstSync\<close> is the number of \<open>close\<close> calls): a second
  \<open>close\<close> would panic. Metrics are labelled with the poller's name; the record holds the values
  of its own label.
\<close>

section \<open>Once and backoff\<close>

definition syncOnce_do :: "('s \<Rightarrow> 's) \<Rightarrow> bool \<times> 's \<Rightarrow> bool \<times> 's" where
  "syncOnce_do f os = (if \<not> fst os then (True, f (snd os)) else os)"

record backoff =
  b_current :: Duration
  b_max :: Duration

definition backoff_next :: "backoff \<Rightarrow> Duration \<times> backoff" where
  "backoff_next b =
     (if sint (b_current b) \<le> 0 then (Second, b\<lparr>b_current := Second\<rparr>)
      else (let b1 = b\<lparr>b_current := b_current b * 2\<rparr>;
                b2 = (if sint (b_max b1) \<le> 0 then b1\<lparr>b_max := 30 * Second\<rparr> else b1);
                b3 = (if sint (b_current b2) > sint (b_max b2) then b2\<lparr>b_current := b_max b2\<rparr> else b2)
            in (b_current b3, b3)))"

definition backoff_reset :: "backoff \<Rightarrow> backoff" where
  "backoff_reset b = b\<lparr>b_current := 0\<rparr>"

section \<open>The loop\<close>

type_synonym 'd fetched = "(bool \<times> string \<times> 'd) result"
type_synonym 'd Source = "string \<Rightarrow> 'd fetched"
type_synonym ('d, 's) Handle = "'d \<Rightarrow> 's \<Rightarrow> unit result \<times> 's"

record PollerOptions =
  po_Interval :: Duration
  po_Timeout :: Duration

record Poller =
  p_name :: string
  p_opts :: PollerOptions
  p_version :: string
  p_firstSync :: nat
  p_once :: bool
  p_backoff :: backoff
  p_lastSyncTimestamp :: "int option"
  p_failuresTotal :: nat
  p_backoffState :: nat

definition Poller_New :: "string \<Rightarrow> PollerOptions \<Rightarrow> Poller" where
  "Poller_New name opts = \<lparr>p_name = name, p_opts = opts, p_version = '''', p_firstSync = 0,
     p_once = False, p_backoff = \<lparr>b_current = 0, b_max = 0\<rparr>, p_lastSyncTimestamp = None,
     p_failuresTotal = 0, p_backoffState = 0\<rparr>"

definition Poller_Version :: "Poller \<Rightarrow> string" where
  "Poller_Version p = p_version p"

text \<open>\<open>FirstSync\<close>: whether a receive on the channel returns.\<close>

definition Poller_FirstSync :: "Poller \<Rightarrow> bool" where
  "Poller_FirstSync p \<longleftrightarrow> p_firstSync p > 0"

definition Poller_fail :: "Poller \<Rightarrow> Poller" where
  "Poller_fail p = p\<lparr>p_failuresTotal := p_failuresTotal p + 1\<rparr>"

definition poll_interval :: "Poller \<Rightarrow> Duration" where
  "poll_interval p =
     (if sint (po_Interval (p_opts p)) \<le> 0 then 5 * Second else po_Interval (p_opts p))"

text \<open>The end of a clean round: the timestamp and the first-sync signal.\<close>

definition Poller_synced :: "int \<Rightarrow> Poller \<Rightarrow> Poller" where
  "Poller_synced now p =
     (let p1 = p\<lparr>p_lastSyncTimestamp := Some now\<rparr>;
          (done, p2) = syncOnce_do (\<lambda>q. q\<lparr>p_firstSync := p_firstSync q + 1\<rparr>) (p_once p1, p1)
      in p2\<lparr>p_once := done\<rparr>)"

definition Poller_round :: "('d, 's) Handle \<Rightarrow> 'd Source \<Rightarrow> int \<Rightarrow> Poller \<times> 's \<Rightarrow>
    Duration \<times> Poller \<times> 's" where
  "Poller_round handle fetch now ps =
     (let (p, s) = ps in
      case fetch (p_version p) of
        Inl err \<Rightarrow>
          (let p1 = Poller_fail p; (delay, b) = backoff_next (p_backoff p1)
           in (delay, p1\<lparr>p_backoff := b, p_backoffState := 1\<rparr>, s))
      | Inr (changed, ver, data) \<Rightarrow>
          (let p1 = p\<lparr>p_backoff := backoff_reset (p_backoff p), p_backoffState := 0\<rparr>
           in if changed then
                (case handle data s of
                   (Inl err, s') \<Rightarrow> (poll_interval p, Poller_fail p1, s')
                 | (Inr _, s') \<Rightarrow> (poll_interval p, Poller_synced now (p1\<lparr>p_version := ver\<rparr>), s'))
              else (poll_interval p, Poller_synced now p1, s)))"

text \<open>\<open>Start\<close>: the delays waited before the rounds (the first is 0), the delay it is waiting when the
  context ends, and the final states.\<close>

fun Poller_loop :: "('d, 's) Handle \<Rightarrow> ('d Source \<times> int) list \<Rightarrow> Duration \<Rightarrow> Poller \<times> 's \<Rightarrow>
    Duration list \<times> Poller \<times> 's" where
  "Poller_loop handle [] delay ps = ([delay], ps)"
| "Poller_loop handle ((fetch, now) # rounds) delay ps =
     (let (delay', ps') = Poller_round handle fetch now ps;
          (delays, ps'') = Poller_loop handle rounds delay' ps'
      in (delay # delays, ps''))"

definition Poller_Start :: "('d, 's) Handle \<Rightarrow> ('d Source \<times> int) list \<Rightarrow> Poller \<times> 's \<Rightarrow>
    Duration list \<times> Poller \<times> 's" where
  "Poller_Start handle rounds ps = Poller_loop handle rounds 0 ps"

section \<open>What a round does\<close>

lemma round_cases:
  obtains (fetch_failed) err where "fetch (p_version p) = Inl err"
      "Poller_round handle fetch now (p, s) =
         (fst (backoff_next (p_backoff p)),
          (Poller_fail p)\<lparr>p_backoff := snd (backoff_next (p_backoff p)), p_backoffState := 1\<rparr>, s)"
  | (unchanged) ver data where "fetch (p_version p) = Inr (False, ver, data)"
      "Poller_round handle fetch now (p, s) =
         (poll_interval p, Poller_synced now
            (p\<lparr>p_backoff := backoff_reset (p_backoff p), p_backoffState := 0\<rparr>), s)"
  | (handle_failed) ver data err s' where "fetch (p_version p) = Inr (True, ver, data)"
      "handle data s = (Inl err, s')"
      "Poller_round handle fetch now (p, s) =
         (poll_interval p, Poller_fail
            (p\<lparr>p_backoff := backoff_reset (p_backoff p), p_backoffState := 0\<rparr>), s')"
  | (applied) ver data s' where "fetch (p_version p) = Inr (True, ver, data)"
      "handle data s = (Inr (), s')"
      "Poller_round handle fetch now (p, s) =
         (poll_interval p, Poller_synced now
            (p\<lparr>p_backoff := backoff_reset (p_backoff p), p_backoffState := 0, p_version := ver\<rparr>), s')"
proof (cases "fetch (p_version p)")
  case (Inl err)
  then show ?thesis
    by (intro that(1)) (auto simp: Poller_round_def Poller_fail_def Let_def case_prod_unfold)
next
  case (Inr r)
  obtain changed ver data where r: "r = (changed, ver, data)" by (cases r)
  show ?thesis
  proof (cases changed)
    case False
    with Inr r that(2) [of ver data] show ?thesis by (simp add: Poller_round_def Let_def)
  next
    case True
    obtain e s' where h: "handle data s = (e, s')" by fastforce
    show ?thesis
    proof (cases e)
      case (Inl err)
      with Inr r h True that(3) [of ver data err s'] show ?thesis
        by (simp add: Poller_round_def Let_def)
    next
      case u: (Inr u)
      with Inr r h True that(4) [of ver data s'] show ?thesis
        by (simp add: Poller_round_def Let_def)
    qed
  qed
qed

lemma synced_fields [simp]:
  "p_version (Poller_synced now p) = p_version p" "p_backoff (Poller_synced now p) = p_backoff p"
  "p_opts (Poller_synced now p) = p_opts p" "p_once (Poller_synced now p)"
  "p_firstSync (Poller_synced now p) = (if p_once p then p_firstSync p else p_firstSync p + 1)"
  "p_failuresTotal (Poller_synced now p) = p_failuresTotal p"
  "p_backoffState (Poller_synced now p) = p_backoffState p"
  "p_lastSyncTimestamp (Poller_synced now p) = Some now"
  by (simp_all add: Poller_synced_def syncOnce_do_def Let_def)

lemma fail_fields [simp]:
  "p_version (Poller_fail p) = p_version p" "p_backoff (Poller_fail p) = p_backoff p"
  "p_opts (Poller_fail p) = p_opts p" "p_once (Poller_fail p) = p_once p"
  "p_firstSync (Poller_fail p) = p_firstSync p" "p_backoffState (Poller_fail p) = p_backoffState p"
  "p_failuresTotal (Poller_fail p) = p_failuresTotal p + 1"
  by (simp_all add: Poller_fail_def)

section \<open>Backoff\<close>

definition backoff_secs :: "nat \<Rightarrow> nat" where
  "backoff_secs i = min (2 ^ i) 30"

text \<open>The backoff after \<open>i + 1\<close> failures in a row.\<close>

definition backoff_at :: "nat \<Rightarrow> backoff \<Rightarrow> bool" where
  "backoff_at i b \<longleftrightarrow> b_current b = of_nat (backoff_secs i) * Second \<and> b_max b \<in> {0, 30 * Second}"

lemma backoff_first:
  assumes "b_current b = 0" "b_max b \<in> {0, 30 * Second}"
  shows "fst (backoff_next b) = of_nat (backoff_secs 0) * Second" "backoff_at 0 (snd (backoff_next b))"
  using assms by (simp_all add: backoff_next_def backoff_at_def backoff_secs_def)

lemma backoff_secs_step: "backoff_secs (Suc i) = min (2 * backoff_secs i) 30"
  by (simp add: backoff_secs_def)

lemma backoff_secs_bounds: "1 \<le> backoff_secs i" "backoff_secs i \<le> 30"
  by (simp_all add: backoff_secs_def)

lemma sint_seconds:
  assumes "n \<le> 60"
  shows "sint (of_nat n * Second :: 64 word) = int n * 1000000000"
proof -
  have w: "of_nat n * Second = (word_of_int (int n * 1000000000) :: 64 word)"
    by (simp add: Second_def)
  have "signed_take_bit 63 (int n * 1000000000) = int n * 1000000000"
    using assms by (intro signed_take_bit_int_eq_self) simp_all
  then show ?thesis unfolding w by (simp only: sint_sbintrunc' len_bit1 len_bit0 len_num1) simp
qed

lemma backoff_step:
  assumes "backoff_at i b"
  shows "fst (backoff_next b) = of_nat (backoff_secs (Suc i)) * Second" "backoff_at (Suc i) (snd (backoff_next b))"
proof -
  let ?k = "backoff_secs i"
  have k: "1 \<le> ?k" "?k \<le> 30" by (rule backoff_secs_bounds)+
  have cur: "sint (b_current b) = int ?k * 1000000000"
    using assms k sint_seconds [of ?k] by (simp add: backoff_at_def)
  define D :: Duration where "D = of_nat (2 * ?k) * Second"
  have dbl: "b_current b * 2 = D"
    using assms by (simp add: backoff_at_def D_def)
  have two: "sint D = int (2 * ?k) * 1000000000"
    unfolding D_def using k by (intro sint_seconds) simp
  have thirty: "sint (30 * Second) = 30 * 1000000000" using sint_seconds [of 30] by simp
  have max: "b_max b = 0 \<or> b_max b = 30 * Second" using assms by (simp add: backoff_at_def)
  have cap: "of_nat (min (2 * ?k) 30) * Second = (if sint D > sint (30 * Second) then 30 * Second else D)"
    unfolding two thirty by (auto simp: min_def D_def)
  have "backoff_next b = (of_nat (min (2 * ?k) 30) * Second,
      b\<lparr>b_current := of_nat (min (2 * ?k) 30) * Second, b_max := 30 * Second\<rparr>)"
    using max k unfolding backoff_next_def Let_def cur dbl cap by (auto simp: dbl two thirty)
  then show "fst (backoff_next b) = of_nat (backoff_secs (Suc i)) * Second"
    "backoff_at (Suc i) (snd (backoff_next b))"
    by (simp_all add: backoff_at_def backoff_secs_step)
qed


section \<open>Runs\<close>

text \<open>A source that is down: it fails whatever it is asked.\<close>

definition down :: "'d Source \<Rightarrow> bool" where
  "down fetch \<longleftrightarrow> (\<forall>v. \<exists>err. fetch v = Inl err)"

lemma down_round:
  assumes "down fetch"
  shows "Poller_round handle fetch now (p, s) =
    (fst (backoff_next (p_backoff p)),
     (Poller_fail p)\<lparr>p_backoff := snd (backoff_next (p_backoff p)), p_backoffState := 1\<rparr>, s)"
  using assms by (cases rule: round_cases [of fetch p handle now s]) (auto simp: down_def, (metis Inl_Inr_False)+)

lemma outage_from:
  assumes "backoff_at i (p_backoff p)" "\<forall>(fetch, now) \<in> set rounds. down fetch"
  shows "\<exists>p'. Poller_loop handle rounds d (p, s) =
      (d # map (\<lambda>j. of_nat (backoff_secs j) * Second) [Suc i..<Suc i + length rounds], p', s) \<and>
    p_version p' = p_version p \<and> p_firstSync p' = p_firstSync p \<and>
    p_failuresTotal p' = p_failuresTotal p + length rounds"
  using assms
proof (induction rounds arbitrary: i p d)
  case (Cons r rounds)
  obtain fetch now where r: "r = (fetch, now)" by fastforce
  let ?b = "backoff_next (p_backoff p)"
  let ?p = "(Poller_fail p)\<lparr>p_backoff := snd ?b, p_backoffState := 1\<rparr>"
  have "backoff_at (Suc i) (p_backoff ?p)" using backoff_step(2) [OF Cons.prems(1)] by simp
  then obtain p' where p': "Poller_loop handle rounds (fst ?b) (?p, s) =
      (fst ?b # map (\<lambda>j. of_nat (backoff_secs j) * Second) [Suc (Suc i)..<Suc (Suc i) + length rounds], p', s)"
    "p_version p' = p_version ?p" "p_firstSync p' = p_firstSync ?p"
    "p_failuresTotal p' = p_failuresTotal ?p + length rounds"
    using Cons.IH [of "Suc i" ?p "fst ?b"] Cons.prems(2) by auto
  have "[Suc i..<Suc i + length (r # rounds)] = Suc i # [Suc (Suc i)..<Suc (Suc i) + length rounds]"
    by (simp add: upt_rec)
  moreover have "down fetch" using Cons.prems(2) r by simp
  ultimately show ?case
    using p' backoff_step(1) [OF Cons.prems(1)] by (simp add: r down_round del: upt.simps)
qed simp

text \<open>
  C24. During an outage the poller backs off and the consumer keeps its state. When the first
  fetch and all the following ones fail, the loop waits 1, 2, 4, 8, 16 seconds and then 30 seconds
  before each next attempt, for ever (the 64-bit duration never overflows); version, first-sync
  signal and the consumer's state are what they were, and every failure is counted.
\<close>

theorem outage_backoff:
  assumes "b_current (p_backoff p) = 0" and "b_max (p_backoff p) \<in> {0, 30 * Second}"
    and "rounds \<noteq> []" and "\<forall>(fetch, now) \<in> set rounds. down fetch"
  shows "\<exists>p'. Poller_Start handle rounds (p, s) =
      (0 # map (\<lambda>j. of_nat (min (2 ^ j) 30) * Second) [0..<length rounds], p', s) \<and>
    p_version p' = p_version p \<and> p_firstSync p' = p_firstSync p \<and>
    p_failuresTotal p' = p_failuresTotal p + length rounds"
proof -
  obtain fetch now rest where r: "rounds = (fetch, now) # rest"
    using assms(3) by (metis neq_Nil_conv surj_pair)
  let ?b = "backoff_next (p_backoff p)"
  let ?p = "(Poller_fail p)\<lparr>p_backoff := snd ?b, p_backoffState := 1\<rparr>"
  have "backoff_at 0 (p_backoff ?p)" using backoff_first(2) [OF assms(1,2)] by simp
  then obtain p' where p': "Poller_loop handle rest (fst ?b) (?p, s) =
      (fst ?b # map (\<lambda>j. of_nat (backoff_secs j) * Second) [Suc 0..<Suc 0 + length rest], p', s)"
    "p_version p' = p_version ?p" "p_firstSync p' = p_firstSync ?p"
    "p_failuresTotal p' = p_failuresTotal ?p + length rest"
    using outage_from [of 0 ?p rest handle "fst ?b" s] assms(4) r by auto
  have "[0..<length rounds] = 0 # [Suc 0..<Suc 0 + length rest]" by (simp add: r upt_rec)
  moreover have "down fetch" using assms(4) r by simp
  ultimately show ?thesis
    using p' backoff_first(1) [OF assms(1,2)]
    by (simp add: r Poller_Start_def down_round backoff_secs_def [symmetric] del: upt.simps)
qed

theorem outage_backoff_witness:
  "fst (Poller_Start (\<lambda>d s. (Inr (), d)) (replicate 7 (\<lambda>v. Inl (ErrMsg ''down''), 0))
     (Poller_New ''epp_data'' \<lparr>po_Interval = 0, po_Timeout = 0\<rparr>, (0::nat))) =
   0 # map (\<lambda>j. of_nat (min (2 ^ j) 30) * Second) [0, 1, 2, 3, 4, 5, 6]"
  using outage_backoff [of "Poller_New ''epp_data'' \<lparr>po_Interval = 0, po_Timeout = 0\<rparr>"
      "replicate 7 (\<lambda>v. Inl (ErrMsg ''down''), 0)" "\<lambda>d s. (Inr (), d)" "0::nat"]
  by (auto simp: Poller_New_def down_def upt_rec numeral_nat)


text \<open>The backoff is idle or within its ladder in every state of a poller that started fresh.\<close>

definition poller_wf :: "Poller \<Rightarrow> bool" where
  "poller_wf p \<longleftrightarrow> b_max (p_backoff p) \<in> {0, 30 * Second} \<and>
     (b_current (p_backoff p) = 0 \<or> (\<exists>i. backoff_at i (p_backoff p))) \<and>
     p_firstSync p = (if p_once p then 1 else 0) \<and> (p_once p \<longleftrightarrow> p_lastSyncTimestamp p \<noteq> None)"

lemma poller_wf_New [simp]: "poller_wf (Poller_New name opts)"
  by (simp add: poller_wf_def Poller_New_def)

lemma poll_interval_pos: "0 < sint (poll_interval p)"
  using sint_seconds [of 5] by (simp add: poll_interval_def)

lemma seconds_pos: "0 < sint (of_nat (backoff_secs i) * Second :: 64 word)"
  "sint (of_nat (backoff_secs i) * Second :: 64 word) \<le> sint (30 * Second :: 64 word)"
  using backoff_secs_bounds [of i] sint_seconds [of "backoff_secs i"] sint_seconds [of 30] by simp_all

lemma next_in_ladder:
  assumes "poller_wf p"
  obtains i where "fst (backoff_next (p_backoff p)) = of_nat (backoff_secs i) * Second"
    "backoff_at i (snd (backoff_next (p_backoff p)))"
  using assms backoff_first [of "p_backoff p"] backoff_step [of _ "p_backoff p"]
  unfolding poller_wf_def by blast

lemma round_wf:
  assumes "poller_wf p" "Poller_round handle fetch now (p, s) = (d, p', s')"
  shows "poller_wf p'" "p_opts p' = p_opts p"
    "0 < sint d \<and> (d = poll_interval p \<or> sint d \<le> sint (30 * Second))"
proof -
  have "poller_wf p' \<and> p_opts p' = p_opts p \<and>
    0 < sint d \<and> (d = poll_interval p \<or> sint d \<le> sint (30 * Second))"
  proof (cases rule: round_cases [of fetch p handle now s])
    case (fetch_failed err)
    obtain i where "fst (backoff_next (p_backoff p)) = of_nat (backoff_secs i) * Second"
      "backoff_at i (snd (backoff_next (p_backoff p)))"
      using next_in_ladder [OF assms(1)] .
    with fetch_failed assms seconds_pos [of i] show ?thesis
      by (auto simp: poller_wf_def backoff_at_def Poller_fail_def)
  qed (use assms poll_interval_pos [of p] in
      \<open>auto simp: poller_wf_def backoff_reset_def Poller_fail_def\<close>)
  then show "poller_wf p'" "p_opts p' = p_opts p"
    "0 < sint d \<and> (d = poll_interval p \<or> sint d \<le> sint (30 * Second))" by blast+
qed

lemma loop_wf:
  assumes "poller_wf p" "Poller_loop handle rounds d (p, s) = (ds, p', s')"
  shows "poller_wf p' \<and> length ds = Suc (length rounds) \<and>
    (\<forall>x \<in> set (tl ds). 0 < sint x \<and> (x = poll_interval p \<or> sint x \<le> sint (30 * Second)))"
  using assms
proof (induction rounds arbitrary: p s d ds)
  case (Cons r rounds)
  obtain fetch now where r: "r = (fetch, now)" by fastforce
  obtain d1 p1 s1 where round: "Poller_round handle fetch now (p, s) = (d1, p1, s1)"
    by (metis surj_pair)
  obtain ds1 where rest: "Poller_loop handle rounds d1 (p1, s1) = (ds1, p', s')" and ds: "ds = d # ds1"
    using Cons.prems(2) by (auto simp: r round split: prod.splits)
  note wf = round_wf [OF Cons.prems(1) round]
  have iv: "poll_interval p1 = poll_interval p" using wf(2) by (simp add: poll_interval_def)
  from Cons.IH [OF wf(1) rest]
  have IH: "poller_wf p'" "length ds1 = Suc (length rounds)"
    "\<forall>x \<in> set (tl ds1). 0 < sint x \<and> (x = poll_interval p \<or> sint x \<le> sint (30 * Second))"
    by (simp_all add: iv)
  have "hd ds1 = d1" using rest by (cases rounds) (auto split: prod.splits)
  then have "set ds1 = insert d1 (set (tl ds1))" using IH(2) by (cases ds1) simp_all
  with IH wf(3) ds show ?case by simp
qed (auto simp: poller_wf_def)

section \<open>The abstract specification\<close>

text \<open>What a round does to the pair of version and consumer state, without timing and metrics: the
  version moves only together with a successful handle of the data it belongs to.\<close>

fun spec_round :: "('d, 's) Handle \<Rightarrow> 'd Source \<Rightarrow> string \<times> 's \<Rightarrow> string \<times> 's" where
  "spec_round handle fetch (v, s) =
     (case fetch v of
        Inr (True, ver, data) \<Rightarrow>
          (case handle data s of (Inr _, s') \<Rightarrow> (ver, s') | (Inl _, s') \<Rightarrow> (v, s'))
      | _ \<Rightarrow> (v, s))"

lemma spec_round_cases:
  obtains (skipped) "spec_round handle fetch (v, s) = (v, s)"
  | (rejected) ver data err s' where "fetch v = Inr (True, ver, data)" "handle data s = (Inl err, s')"
      "spec_round handle fetch (v, s) = (v, s')"
  | (accepted) ver data s' where "fetch v = Inr (True, ver, data)" "handle data s = (Inr (), s')"
      "spec_round handle fetch (v, s) = (ver, s')"
proof (cases "\<exists>ver data. fetch v = Inr (True, ver, data)")
  case False
  then have "spec_round handle fetch (v, s) = (v, s)" by (auto split: sum.split bool.split)
  then show ?thesis by (rule that(1))
next
  case True
  then obtain ver data where f: "fetch v = Inr (True, ver, data)" by blast
  obtain e s' where h: "handle data s = (e, s')" by fastforce
  show ?thesis using f h that(2,3) by (cases e) auto
qed

abbreviation poller_abs :: "Poller \<times> 's \<Rightarrow> string \<times> 's" where
  "poller_abs ps \<equiv> (p_version (fst ps), snd ps)"

lemma round_refines:
  "poller_abs (snd (Poller_round handle fetch now (p, s))) = spec_round handle fetch (p_version p, s)"
  by (cases rule: round_cases [of fetch p handle now s]) simp_all

lemma refines_run:
  "poller_abs (snd (Poller_Start handle rounds (p, s))) =
     fold (\<lambda>(fetch, now). spec_round handle fetch) rounds (p_version p, s)"
proof -
  have "poller_abs (snd (Poller_loop handle rounds d (p, s))) =
     fold (\<lambda>(fetch, now). spec_round handle fetch) rounds (p_version p, s)" for d
  proof (induction rounds arbitrary: p s d)
    case (Cons r rounds)
    obtain fetch now where r: "r = (fetch, now)" by fastforce
    obtain d1 p1 s1 where round: "Poller_round handle fetch now (p, s) = (d1, p1, s1)"
      by (metis surj_pair)
    with round_refines [of handle fetch now p s] Cons.IH [of d1 p1 s1] show ?case
      by (simp add: r case_prod_unfold Let_def)
  qed simp
  then show ?thesis by (simp add: Poller_Start_def)
qed

text \<open>
  C20. The polling loop refines its specification. Seen through the version and the consumer's
  state, a run is the fold of the specified rounds: failed fetches and unchanged answers change
  nothing, a failed handle keeps the version (so the same version is fetched again), a successful
  one advances it.
\<close>

theorem poller_refines_spec:
  "poller_abs (snd (Poller_Start handle rounds (p, s))) =
     fold (\<lambda>(fetch, now). spec_round handle fetch) rounds (p_version p, s)"
  by (rule refines_run)

text \<open>A clean round: the fetch succeeded, and the data, if there was any, was handled without an error.
  \<open>clean_times\<close> are the times of the clean rounds of a run, told from the specification alone.\<close>

fun clean_round :: "('d, 's) Handle \<Rightarrow> 'd Source \<Rightarrow> string \<times> 's \<Rightarrow> bool" where
  "clean_round handle fetch (v, s) =
     (case fetch v of Inl _ \<Rightarrow> False | Inr (changed, ver, data) \<Rightarrow> changed \<longrightarrow> fst (handle data s) = Inr ())"

fun clean_times :: "('d, 's) Handle \<Rightarrow> ('d Source \<times> int) list \<Rightarrow> string \<times> 's \<Rightarrow> int list" where
  "clean_times handle [] vs = []"
| "clean_times handle ((fetch, now) # rounds) vs =
     (if clean_round handle fetch vs then [now] else []) @ clean_times handle rounds (spec_round handle fetch vs)"

lemma round_signal:
  assumes "poller_wf p" "Poller_round handle fetch now (p, s) = (d, p', s')"
  shows "p_lastSyncTimestamp p' = (if clean_round handle fetch (p_version p, s) then Some now else p_lastSyncTimestamp p)"
  using assms by (cases rule: round_cases [of fetch p handle now s])
    (auto simp: Poller_fail_def Poller_synced_def syncOnce_do_def Let_def)

lemma loop_signal:
  assumes "poller_wf p" "Poller_loop handle rounds d (p, s) = (ds, p', s')"
  shows "p_lastSyncTimestamp p' = (if clean_times handle rounds (p_version p, s) = [] then p_lastSyncTimestamp p
    else Some (last (clean_times handle rounds (p_version p, s))))"
  using assms
proof (induction rounds arbitrary: p s d ds)
  case (Cons r rounds)
  obtain fetch now where r: "r = (fetch, now)" by fastforce
  obtain d1 p1 s1 where round: "Poller_round handle fetch now (p, s) = (d1, p1, s1)"
    by (metis surj_pair)
  obtain ds1 where rest: "Poller_loop handle rounds d1 (p1, s1) = (ds1, p', s')"
    using Cons.prems(2) by (auto simp: r round split: prod.splits)
  have "spec_round handle fetch (p_version p, s) = (p_version p1, s1)"
    using round_refines [of handle fetch now p s] round by simp
  with Cons.IH [OF round_wf(1) [OF Cons.prems(1) round] rest] round_signal [OF Cons.prems(1) round]
  show ?case by (simp add: r del: clean_round.simps spec_round.simps)
qed simp

text \<open>
  C25. The loop never spins and signals its first sync once. In every run of a new poller, each
  wait after the first is a positive duration: the configured interval, or a backoff of at most 30
  seconds. The first-sync channel is closed exactly when some round of the run was clean (the fetch succeeded and
  what it brought was handled without an error), and never twice, since a second close would panic; the
  timestamp is that of the last clean round.
\<close>

theorem poller_run_sane:
  assumes "Poller_Start handle rounds (Poller_New name opts, s) = (delays, p, s')"
  shows "length delays = Suc (length rounds) \<and>
    (\<forall>d \<in> set (tl delays). 0 < sint d \<and>
       (d = poll_interval (Poller_New name opts) \<or> sint d \<le> sint (30 * Second))) \<and>
    p_firstSync p = (if clean_times handle rounds ([], s) = [] then 0 else 1) \<and>
    p_lastSyncTimestamp p = (if clean_times handle rounds ([], s) = [] then None
      else Some (last (clean_times handle rounds ([], s))))"
proof -
  note run = assms [unfolded Poller_Start_def]
  have "p_version (Poller_New name opts) = []" "p_lastSyncTimestamp (Poller_New name opts) = None"
    by (simp_all add: Poller_New_def)
  with loop_signal [OF poller_wf_New run] loop_wf [OF poller_wf_New run] show ?thesis
    by (auto simp: poller_wf_def split: if_splits)
qed

theorem poller_run_sane_witness:
  "p_firstSync (fst (snd (Poller_Start (\<lambda>d s. (Inr (), d))
     [(\<lambda>v. Inr (True, ''v1'', 7::nat), 5), (\<lambda>v. Inr (False, [], 0), 6)]
     (Poller_New ''epp_data'' \<lparr>po_Interval = 0, po_Timeout = 0\<rparr>, 0)))) = 1"
proof -
  let ?h = "\<lambda>d s. (Inr (), d)" and ?rounds = "[(\<lambda>v. Inr (True, ''v1'', 7::nat), 5), (\<lambda>v. Inr (False, [], 0), 6)]"
  let ?new = "Poller_New ''epp_data'' \<lparr>po_Interval = 0, po_Timeout = 0\<rparr>"
  obtain delays p s where run: "Poller_Start ?h ?rounds (?new, 0) = (delays, p, s)" by (metis surj_pair)
  with poller_run_sane [OF run] show ?thesis by simp
qed

section \<open>Consumers\<close>

text \<open>
  What a consumer of a poller promises: its handler keeps its invariant, also when it fails; a
  consumer whose handler cannot fail reflects, after a round, the data it was given.
\<close>

locale poll_consumer =
  fixes handle :: "('d, 's) Handle"
    and inv :: "'s \<Rightarrow> bool"
  assumes handle_inv: "inv s \<Longrightarrow> inv (snd (handle d s))"
begin

lemma spec_inv: "inv s \<Longrightarrow> inv (snd (spec_round handle fetch (v, s)))"
  using handle_inv [of s] by (cases rule: spec_round_cases [of handle fetch v s]) (simp, (metis snd_conv)+)

lemma run_inv: "inv (snd vs) \<Longrightarrow> inv (snd (fold (\<lambda>(fetch, now). spec_round handle fetch) rounds vs))"
proof (induction rounds arbitrary: vs)
  case (Cons r rounds)
  then show ?case using spec_inv [of "snd vs" "fst r" "fst vs"] by (simp add: case_prod_unfold)
qed simp

end

locale total_consumer = poll_consumer +
  fixes reflects :: "'a \<Rightarrow> 'b \<Rightarrow> bool"
  assumes handle_total: "inv s \<Longrightarrow> \<exists>s'. handle d s = (Inr (), s') \<and> reflects d s'"
begin

lemma run_reflects:
  assumes "inv s"
  shows "fold (\<lambda>(fetch, now). spec_round handle fetch) rounds (v, s) = (v', s') \<Longrightarrow>
    (v', s') = (v, s) \<or>
    (\<exists>fetch now w d. (fetch, now) \<in> set rounds \<and> fetch w = Inr (True, v', d) \<and> reflects d s')"
  using assms
proof (induction rounds arbitrary: v s)
  case (Cons r rounds)
  obtain fetch now where r: "r = (fetch, now)" by fastforce
  obtain v1 s1 where one: "spec_round handle fetch (v, s) = (v1, s1)" by fastforce
  have "inv s1" using spec_inv [OF Cons.prems(2), of fetch v] one by simp
  with Cons.IH [of v1 s1] Cons.prems(1) one r
  have "(v', s') = (v1, s1) \<or>
    (\<exists>fetch now w d. (fetch, now) \<in> set rounds \<and> fetch w = Inr (True, v', d) \<and> reflects d s')" by simp
  moreover have "(v1, s1) = (v, s) \<or> (\<exists>d. fetch v = Inr (True, v1, d) \<and> reflects d s1)"
  proof (cases rule: spec_round_cases [of handle fetch v s])
    case (rejected ver data err t)
    with handle_total [OF Cons.prems(2), of data] show ?thesis by auto
  next
    case (accepted ver data t)
    with handle_total [OF Cons.prems(2), of data] one show ?thesis by auto
  qed (use one in simp)
  moreover have "(fetch, now) \<in> set (r # rounds)" "set rounds \<subseteq> set (r # rounds)" using r by auto
  ultimately show ?case by blast
qed simp

end

end
