(* ===== verification/Cluster_Table.thy ===== *)
theory Cluster_Table
  imports Cluster_Hub Inner_API Poller_Loop
begin

text \<open>
  \<open>pkg/poller/discovery.go\<close>: the cluster table, its decoding and its conversion to endpoints, the
  source that reads it from the control plane and the handler that replaces the content of the hub. Go maps are association lists (their order is any order); an \<open>int\<close> port or
  weight is an \<open>int\<close> (the decoder bounds it).
\<close>

definition ClusterTablePath :: string where "ClusterTablePath = ''/configs/gslb_data/cluster_table''"

record BackendConf =
  be_Name :: string
  be_Addr :: string
  be_Port :: int
  be_Weight :: int

type_synonym ClusterTableConfig = "(string, (string, BackendConf list) gomap) gomap"

definition dec_BackendConf :: "BackendConf decoder" where
  "dec_BackendConf = dec_struct
     [(''Name'', field dec_string be_Name (\<lambda>v s. s\<lparr>be_Name := v\<rparr>)),
      (''Addr'', field dec_string be_Addr (\<lambda>v s. s\<lparr>be_Addr := v\<rparr>)),
      (''Port'', field dec_int be_Port (\<lambda>v s. s\<lparr>be_Port := v\<rparr>)),
      (''Weight'', field dec_int be_Weight (\<lambda>v s. s\<lparr>be_Weight := v\<rparr>))]"

definition zero_BackendConf :: BackendConf where
  "zero_BackendConf = \<lparr>be_Name = [], be_Addr = [], be_Port = 0, be_Weight = 0\<rparr>"

definition dec_ClusterTableConfig :: "ClusterTableConfig decoder" where
  "dec_ClusterTableConfig = dec_map (dec_map (dec_slice dec_BackendConf zero_BackendConf) []) []"

definition unwrapIPv6 :: "string \<Rightarrow> string" where
  "unwrapIPv6 addr =
     (if length addr > 2 \<and> addr ! 0 = CHR ''['' \<and> addr ! (length addr - 1) = CHR '']''
      then take (length addr - 1 - 1) (drop 1 addr) else addr)"

definition backendID :: "BackendConf \<Rightarrow> string" where
  "backendID b =
     (if be_Name b \<noteq> [] then be_Name b
      else JoinHostPort (unwrapIPv6 (be_Addr b)) (Itoa (be_Port b)))"

fun convert_backends :: "string \<Rightarrow> BackendConf list \<Rightarrow> EndpointMetadata list \<Rightarrow> EndpointMetadata list" where
  "convert_backends cluster [] eps = eps"
| "convert_backends cluster (b # bs) eps =
     (if be_Weight b = 0 then convert_backends cluster bs eps
      else convert_backends cluster bs (eps @
        [\<lparr>ep_ID = NamespacedName cluster (backendID b), ep_Name = be_Name b,
          ep_Address = unwrapIPv6 (be_Addr b), ep_Port = Itoa (be_Port b),
          ep_MetricsHost = JoinHostPort (unwrapIPv6 (be_Addr b)) (Itoa (be_Port b))\<rparr>]))"

fun convert_subClusters :: "string \<Rightarrow> (string, BackendConf list) gomap \<Rightarrow> EndpointMetadata list \<Rightarrow>
    EndpointMetadata list" where
  "convert_subClusters cluster [] eps = eps"
| "convert_subClusters cluster ((_, bs) # subs) eps =
     convert_subClusters cluster subs (convert_backends cluster bs eps)"

fun convert_clusters :: "ClusterTableConfig \<Rightarrow> desired_table \<Rightarrow> desired_table" where
  "convert_clusters [] desired = desired"
| "convert_clusters ((cluster, subs) # table) desired =
     convert_clusters table (AList.update cluster (convert_subClusters cluster subs []) desired)"

definition ConvertClusterTableToEndpoints :: "ClusterTableConfig \<Rightarrow> desired_table" where
  "ConvertClusterTableToEndpoints table = convert_clusters table []"

section \<open>The poller's source and handler\<close>

text \<open>\<open>assigned\<close> and \<open>unassigned\<close> may be nil; \<open>cd_unassigned\<close> is the counter behind the latter.\<close>

record ClusterDiscovery =
  cd_hub :: Hub
  cd_unassigned :: "nat option"

definition NewClusterDiscovery :: "Hub \<Rightarrow> nat option \<Rightarrow> ClusterDiscovery" where
  "NewClusterDiscovery hub unassigned = \<lparr>cd_hub = hub, cd_unassigned = unassigned\<rparr>"

definition ClusterDiscovery_Fetch :: "http \<Rightarrow> Client \<Rightarrow> desired_table Source" where
  "ClusterDiscovery_Fetch net client version =
     (case Client_Get net dec_ClusterTableConfig [] client ClusterTablePath version of
        Inl err \<Rightarrow> Inl err
      | Inr (changed, ver, table) \<Rightarrow>
          if \<not> changed then Inr (changed, ver, [])
          else Inr (True, ver, ConvertClusterTableToEndpoints table))"

fun handle_clusters :: "(string \<Rightarrow> bool) option \<Rightarrow> desired_table \<Rightarrow> desired_table \<times> nat option \<Rightarrow>
    desired_table \<times> nat option" where
  "handle_clusters assigned [] acc = acc"
| "handle_clusters assigned ((cluster, eps) # desired) (filtered, unassigned) =
     handle_clusters assigned desired
       (AList.update cluster eps filtered,
        (case assigned of
           Some f \<Rightarrow> if \<not> f cluster then map_option Suc unassigned else unassigned
         | None \<Rightarrow> unassigned))"

definition ClusterDiscovery_Handle :: "(string \<Rightarrow> bool) option \<Rightarrow> (desired_table, ClusterDiscovery) Handle" where
  "ClusterDiscovery_Handle assigned desired d =
     (let (filtered, n) = handle_clusters assigned desired ([], cd_unassigned d)
      in (Inr (), d\<lparr>cd_hub := Hub_ReplaceAll filtered (cd_hub d), cd_unassigned := n\<rparr>))"

section \<open>The conversion as a comprehension\<close>

definition endpoint_of :: "string \<Rightarrow> BackendConf \<Rightarrow> EndpointMetadata" where
  "endpoint_of cluster b =
     \<lparr>ep_ID = NamespacedName cluster (backendID b), ep_Name = be_Name b,
      ep_Address = unwrapIPv6 (be_Addr b), ep_Port = Itoa (be_Port b),
      ep_MetricsHost = JoinHostPort (unwrapIPv6 (be_Addr b)) (Itoa (be_Port b))\<rparr>"

definition live_backends :: "(string, BackendConf list) gomap \<Rightarrow> BackendConf list" where
  "live_backends subs = filter (\<lambda>b. be_Weight b \<noteq> 0) (concat (map snd subs))"

lemma convert_backends_eq:
  "convert_backends cluster bs eps = eps @ map (endpoint_of cluster) (filter (\<lambda>b. be_Weight b \<noteq> 0) bs)"
  by (induction cluster bs eps rule: convert_backends.induct) (simp_all add: endpoint_of_def)

lemma convert_subClusters_eq:
  "convert_subClusters cluster subs eps = eps @ map (endpoint_of cluster) (live_backends subs)"
  by (induction cluster subs eps rule: convert_subClusters.induct)
     (simp_all add: live_backends_def convert_backends_eq)

lemma convert_clusters_eq:
  assumes "gomap_wf table"
  shows "map_of (convert_clusters table desired) k =
    (case map_of table k of
       Some subs \<Rightarrow> Some (map (endpoint_of k) (live_backends subs)) | None \<Rightarrow> map_of desired k)"
  using assms
proof (induction table arbitrary: desired)
  case (Cons entry table)
  obtain cluster subs where e: "entry = (cluster, subs)" by fastforce
  with Cons.prems have "map_of table cluster = None" by (simp add: map_of_eq_None_iff)
  with Cons e show ?case
    by (auto simp: update_conv' convert_subClusters_eq split: option.split)
qed simp

lemma convert_clusters_wf: "gomap_wf desired \<Longrightarrow> gomap_wf (convert_clusters table desired)"
  by (induction table desired rule: convert_clusters.induct) (simp_all add: distinct_update)

lemma table_exact:
  assumes "gomap_wf table"
  shows "map_of (ConvertClusterTableToEndpoints table) cluster =
    (case map_of table cluster of
       Some subs \<Rightarrow> Some (map (endpoint_of cluster) (live_backends subs)) | None \<Rightarrow> None)"
  using convert_clusters_eq [OF assms, of "[]" cluster]
  by (simp add: ConvertClusterTableToEndpoints_def split: option.split)

text \<open>
  C26. The conversion of the cluster table. Every cluster of the table, and no other, has an entry,
  also when all its backends are drained; the entry holds exactly the backends of nonzero weight of
  all its subclusters, in order, each with the cluster as its namespace.
\<close>

theorem table_conversion_exact:
  assumes "gomap_wf table"
  shows "map_of (ConvertClusterTableToEndpoints table) cluster =
    map_option (\<lambda>subs. map (endpoint_of cluster) (live_backends subs)) (map_of table cluster)"
  using table_exact [OF assms] by (simp split: option.split)

definition demo_table :: ClusterTableConfig where
  "demo_table = [(''c1'', [(''s1'', [\<lparr>be_Name = ''a'', be_Addr = ''10.0.0.1'', be_Port = 80, be_Weight = 1\<rparr>,
     \<lparr>be_Name = [], be_Addr = ''[fd00::1]'', be_Port = 8080, be_Weight = 2\<rparr>,
     \<lparr>be_Name = ''b'', be_Addr = ''10.0.0.2'', be_Port = 80, be_Weight = 0\<rparr>])]), (''c2'', [])]"

theorem table_conversion_exact_witness:
  "map_option (map (\<lambda>e. (NName (ep_ID e), ep_Address e, ep_Port e)))
     (map_of (ConvertClusterTableToEndpoints demo_table) ''c1'') =
   Some [(''a'', ''10.0.0.1'', ''80''), (''[fd00::1]:8080'', ''fd00::1'', ''8080'')]"
proof -
  have "gomap_wf demo_table" by (simp add: demo_table_def)
  from table_conversion_exact [OF this, of "''c1''"]
  have *: "map_of (ConvertClusterTableToEndpoints demo_table) ''c1'' =
    map_option (\<lambda>subs. map (endpoint_of ''c1'') (live_backends subs)) (map_of demo_table ''c1'')" .
  have digits: "digit_char 8 = CHR ''8''" "digit_char 0 = CHR ''0''" by code_simp+
  show ?thesis unfolding *
    by (simp add: demo_table_def live_backends_def endpoint_of_def backendID_def unwrapIPv6_def
        JoinHostPort_def Itoa_def show_nat.simps digits)
qed


text \<open>
  Endpoint identity. Two endpoints of the converted table that share an ID belong to the same
  cluster and either have the same name, or are both unnamed and have the same address, port and
  metrics host, or one is named by the other's address and port.
\<close>

lemma endpoint_ids_sound:
  assumes "gomap_wf table"
    and "map_of (ConvertClusterTableToEndpoints table) k = Some eps" and "e \<in> set eps"
    and "map_of (ConvertClusterTableToEndpoints table) k' = Some eps'" and "e' \<in> set eps'"
    and "ep_ID e = ep_ID e'"
  shows "k = k' \<and>
    (if ep_Name e = [] \<and> ep_Name e' = [] then
       ep_Address e = ep_Address e' \<and> ep_Port e = ep_Port e' \<and> ep_MetricsHost e = ep_MetricsHost e'
     else if ep_Name e = [] then ep_Name e' = ep_MetricsHost e
     else if ep_Name e' = [] then ep_Name e = ep_MetricsHost e' else ep_Name e = ep_Name e')"
proof -
  obtain b where b: "e = endpoint_of k b"
    using assms(2,3) table_exact [OF assms(1), of k] by (auto split: option.splits)
  obtain b' where b': "e' = endpoint_of k' b'"
    using assms(4,5) table_exact [OF assms(1), of k'] by (auto split: option.splits)
  have "JoinHostPort (unwrapIPv6 (be_Addr b)) (Itoa (be_Port b)) =
      JoinHostPort (unwrapIPv6 (be_Addr b')) (Itoa (be_Port b')) \<Longrightarrow>
      unwrapIPv6 (be_Addr b) = unwrapIPv6 (be_Addr b') \<and> Itoa (be_Port b) = Itoa (be_Port b')"
    by (erule JoinHostPort_inj) simp_all
  with assms(6) show ?thesis by (auto simp: b b' endpoint_of_def backendID_def split: if_splits)
qed

definition twin :: "string \<Rightarrow> BackendConf" where
  "twin addr = \<lparr>be_Name = [], be_Addr = addr, be_Port = 8080, be_Weight = 1\<rparr>"

definition twin_table :: ClusterTableConfig where
  "twin_table = [(''c1'', [(''s1'', [twin ''[fd00::1]'']), (''s2'', [twin ''fd00::1''])])]"

lemma endpoint_ids_sound_example:
  "ep_Address (endpoint_of ''c1'' (twin ''[fd00::1]'')) = ep_Address (endpoint_of ''c1'' (twin ''fd00::1''))"
proof -
  have wf: "gomap_wf twin_table" by (simp add: twin_table_def)
  have c1: "map_of (ConvertClusterTableToEndpoints twin_table) ''c1'' =
      Some [endpoint_of ''c1'' (twin ''[fd00::1]''), endpoint_of ''c1'' (twin ''fd00::1'')]"
    unfolding table_exact [OF wf] by (simp add: twin_table_def live_backends_def twin_def)
  show ?thesis
    using endpoint_ids_sound [OF wf c1 _ c1, of "endpoint_of ''c1'' (twin ''[fd00::1]'')"
        "endpoint_of ''c1'' (twin ''fd00::1'')"]
    by (simp add: endpoint_of_def twin_def backendID_def unwrapIPv6_def)
qed

section \<open>The hub as a consumer of the poller\<close>

lemma handle_clusters_data:
  "gomap_wf desired \<Longrightarrow> map_of (fst (handle_clusters assigned desired (acc, n))) k =
     (case map_of desired k of Some eps \<Rightarrow> Some eps | None \<Rightarrow> map_of acc k)"
proof (induction desired arbitrary: acc n)
  case (Cons entry desired)
  obtain cluster eps where e: "entry = (cluster, eps)" by fastforce
  with Cons.prems have "map_of desired cluster = None" by (simp add: map_of_eq_None_iff)
  with Cons e show ?case by (auto simp: update_conv' split: option.split)
qed simp

definition hub_reflects :: "desired_table \<Rightarrow> ClusterDiscovery \<Rightarrow> bool" where
  "hub_reflects desired d \<longleftrightarrow> (gomap_wf desired \<longrightarrow> (\<forall>k. fst (Hub_Snapshot k (cd_hub d)) =
     (case map_of desired k of None \<Rightarrow> [] | Some eps \<Rightarrow> eps)))"

interpretation hub_consumer: total_consumer "ClusterDiscovery_Handle assigned"
  "\<lambda>d. hub_inv (cd_hub d)" hub_reflects for assigned
proof unfold_locales
  fix d :: ClusterDiscovery and desired
  assume inv: "hub_inv (cd_hub d)"
  obtain filtered n where h: "handle_clusters assigned desired ([], cd_unassigned d) = (filtered, n)"
    by fastforce
  show "hub_inv (cd_hub (snd (ClusterDiscovery_Handle assigned desired d)))"
    using inv by (simp add: ClusterDiscovery_Handle_def h keeps)
  have "gomap_wf desired \<Longrightarrow> map_of filtered k = map_of desired k" for k
    using handle_clusters_data [of desired assigned "[]" "cd_unassigned d" k] h by (simp split: option.splits)
  then have "hub_reflects desired (d\<lparr>cd_hub := Hub_ReplaceAll filtered (cd_hub d), cd_unassigned := n\<rparr>)"
    by (simp add: hub_reflects_def hub.snapshot_after)
  then show "\<exists>d'. ClusterDiscovery_Handle assigned desired d = (Inr (), d') \<and> hub_reflects desired d'"
    by (simp add: ClusterDiscovery_Handle_def h)
qed

lemma ClusterTableConfig_wf: "Unmarshal dec_ClusterTableConfig [] s = Inr table \<Longrightarrow> gomap_wf table"
  by (auto simp: Unmarshal_def dec_ClusterTableConfig_def split: sum.splits elim!: dec_map_wf)

lemma fetched_table_wf:
  assumes "Client_Get net dec_ClusterTableConfig [] client path w = Inr (True, ver, table)"
  shows "gomap_wf table"
  using get_outcome [where net = net and dec = dec_ClusterTableConfig and zero = "[]" and c = client and path = path and version = w] assms ClusterTableConfig_wf by auto

lemma run_holds_last_table:
  assumes "hub_inv (cd_hub d)"
    and "snd (Poller_Start (ClusterDiscovery_Handle assigned)
           (map (\<lambda>(net, now). (ClusterDiscovery_Fetch net client, now)) nets) (p, d)) = (p', d')"
  shows "(p_version p', d') = (p_version p, d) \<or>
    (\<exists>net now w table. (net, now) \<in> set nets \<and>
       Client_Get net dec_ClusterTableConfig [] client ClusterTablePath w = Inr (True, p_version p', table) \<and>
       (\<forall>k. fst (Hub_Snapshot k (cd_hub d')) =
          (case map_of table k of None \<Rightarrow> [] | Some subs \<Rightarrow> map (endpoint_of k) (live_backends subs))))"
proof -
  let ?rounds = "map (\<lambda>(net, now). (ClusterDiscovery_Fetch net client, now)) nets"
  have "fold (\<lambda>(fetch, now). spec_round (ClusterDiscovery_Handle assigned) fetch) ?rounds (p_version p, d) =
      (p_version p', d')"
    using refines_run [of "ClusterDiscovery_Handle assigned" ?rounds p d] assms(2) by simp
  from hub_consumer.run_reflects [OF assms(1) this]
  consider "(p_version p', d') = (p_version p, d)"
    | fetch now w desired where "(fetch, now) \<in> set ?rounds" "fetch w = Inr (True, p_version p', desired)"
        "hub_reflects desired d'"
    by blast
  then show ?thesis
  proof cases
    case (2 fetch now w desired)
    then obtain net where net: "(net, now) \<in> set nets"
      "ClusterDiscovery_Fetch net client w = Inr (True, p_version p', desired)" by auto
    then obtain table where t: "Client_Get net dec_ClusterTableConfig [] client ClusterTablePath w = Inr (True, p_version p', table)"
      "desired = ConvertClusterTableToEndpoints table"
      by (auto simp: ClusterDiscovery_Fetch_def split: sum.splits prod.splits if_splits)
    have "gomap_wf desired"
      using convert_clusters_wf [of "[]" table] by (simp add: t(2) ConvertClusterTableToEndpoints_def)
    with 2(3) t(2) fetched_table_wf [OF t(1)] have "fst (Hub_Snapshot k (cd_hub d')) =
        (case map_of table k of None \<Rightarrow> [] | Some subs \<Rightarrow> map (endpoint_of k) (live_backends subs))" for k
      by (simp add: hub_reflects_def table_exact split: option.splits)
    with net(1) t(1) show ?thesis by blast
  qed simp
qed

section \<open>Round trip\<close>

definition enc_BackendConf :: "BackendConf \<Rightarrow> jtree" where
  "enc_BackendConf b = enc_obj [(''Name'', enc_string (be_Name b)), (''Addr'', enc_string (be_Addr b)),
     (''Port'', enc_int (be_Port b)), (''Weight'', enc_int (be_Weight b))]"

definition enc_ClusterTableConfig :: "ClusterTableConfig \<Rightarrow> jtree" where
  "enc_ClusterTableConfig = enc_map (enc_map (enc_slice enc_BackendConf))"

definition int64_ok :: "int \<Rightarrow> bool" where "int64_ok i \<longleftrightarrow> - (2 ^ 63) \<le> i \<and> i < 2 ^ 63"

definition backend_ok :: "BackendConf \<Rightarrow> bool" where
  "backend_ok b \<longleftrightarrow> utf8_valid (be_Name b) \<and> utf8_valid (be_Addr b) \<and> int64_ok (be_Port b) \<and> int64_ok (be_Weight b)"

definition subs_ok :: "(string, BackendConf list) gomap \<Rightarrow> bool" where
  "subs_ok subs \<longleftrightarrow> gomap_wf subs \<and> list_all (\<lambda>(s, bs). utf8_valid s \<and> list_all backend_ok bs) subs"

definition table_ok :: "ClusterTableConfig \<Rightarrow> bool" where
  "table_ok table \<longleftrightarrow> gomap_wf table \<and> list_all (\<lambda>(k, subs). utf8_valid k \<and> subs_ok subs) table"

lemma dec_enc_BackendConf: "backend_ok b \<Longrightarrow> dec_BackendConf (enc_BackendConf b) zero_BackendConf = Inr b"
  by (simp add: dec_BackendConf_def enc_BackendConf_def enc_obj_def dec_struct_def find_field_exact field_def
      zero_BackendConf_def unquote_quote dec_enc_string dec_enc_int backend_ok_def int64_ok_def)

lemma dec_enc_subs:
  "subs_ok subs \<Longrightarrow> dec_map (dec_slice dec_BackendConf zero_BackendConf) [] (enc_map (enc_slice enc_BackendConf) subs) [] = Inr subs"
  by (rule dec_enc_map) (auto simp: subs_ok_def list_all_iff dec_enc_BackendConf intro!: dec_enc_slice)

lemma dec_enc_ClusterTableConfig:
  "table_ok table \<Longrightarrow> dec_ClusterTableConfig (enc_ClusterTableConfig table) [] = Inr table"
  unfolding dec_ClusterTableConfig_def enc_ClusterTableConfig_def
  by (rule dec_enc_map) (auto simp: table_ok_def list_all_iff dec_enc_subs)

lemma enc_ClusterTableConfig_ok:
  "jwf (enc_ClusterTableConfig table)" "jdepth (enc_ClusterTableConfig table) \<le> 9998"
proof -
  have b: "jwf (enc_BackendConf b)" "jdepth (enc_BackendConf b) \<le> 1" for b
    unfolding enc_BackendConf_def by (auto intro!: jwf_intros) (simp add: enc_obj_def)
  then show "jwf (enc_ClusterTableConfig table)"
    unfolding enc_ClusterTableConfig_def by (auto intro!: jwf_intros)
  have bs: "jdepth (enc_slice enc_BackendConf bs) \<le> 1 + 1" for bs by (rule jdepth_slice) (use b in auto)
  have subs: "jdepth (enc_map (enc_slice enc_BackendConf) subs) \<le> 1 + (1 + 1)" for subs
    by (rule jdepth_map) (use bs in auto)
  have "jdepth (enc_ClusterTableConfig table) \<le> 1 + (1 + (1 + 1))"
    unfolding enc_ClusterTableConfig_def by (rule jdepth_map) (use subs in auto)
  then show "jdepth (enc_ClusterTableConfig table) \<le> 9998" by simp
qed

definition demo_net :: http where
  "demo_net = \<lparr>NewRequest = (\<lambda>_. None),
     Do = (\<lambda>_. Inr \<lparr>rs_StatusCode = 200, rs_Body = Inr (jraw (answer_tree ''v1'' (enc_ClusterTableConfig demo_table)))\<rparr>)\<rparr>"

lemma demo_table_ok: "table_ok demo_table"
  by code_simp

lemmas text_size = answer_tree_def data_tree_def enc_obj_def enc_arr_def enc_map_def enc_slice_def enc_string_def
  enc_int_def member_text_def quote_simps quote_char_def Itoa_def show_nat.simps body_limit_def

lemma demo_table_size: "length (jraw (answer_tree ''v1'' (enc_ClusterTableConfig demo_table))) \<le> body_limit"
  by (simp add: text_size enc_ClusterTableConfig_def enc_BackendConf_def demo_table_def)

lemma demo_answers:
  "answers demo_net c path w (jraw (answer_tree ''v1'' (enc_ClusterTableConfig demo_table)))"
  by (simp add: answers_def demo_net_def)

lemma demo_get: "Client_Get demo_net dec_ClusterTableConfig [] c path w = Inr (True, ''v1'', demo_table)"
  using get_answer [OF demo_answers demo_table_size enc_ClusterTableConfig_ok, of dec_ClusterTableConfig "[]"]
  by (simp add: dec_enc_ClusterTableConfig [OF demo_table_ok])

text \<open>
  C21. The hub holds the last table. After any run of the discovery poller against the control
  plane, whatever failed or was unchanged in between, either nothing was ever applied, or there is
  a response with the poller's current version whose table the hub shows: for every cluster the
  live backends of that table, and nothing for clusters the table does not have.
\<close>

theorem hub_holds_last_table:
  assumes "hub_inv (cd_hub d)"
    and "snd (Poller_Start (ClusterDiscovery_Handle assigned)
           (map (\<lambda>(net, now). (ClusterDiscovery_Fetch net client, now)) nets) (p, d)) = (p', d')"
  shows "(p_version p', d') = (p_version p, d) \<or>
    (\<exists>net now w table. (net, now) \<in> set nets \<and>
       Client_Get net dec_ClusterTableConfig [] client ClusterTablePath w = Inr (True, p_version p', table) \<and>
       (\<forall>k. fst (Hub_Snapshot k (cd_hub d')) =
          (case map_of table k of None \<Rightarrow> [] | Some subs \<Rightarrow> map (endpoint_of k) (live_backends subs))))"
  using assms by (rule run_holds_last_table)

theorem hub_holds_last_table_witness:
  "\<exists>p' d'. snd (Poller_Start (ClusterDiscovery_Handle None)
       (map (\<lambda>(net, now). (ClusterDiscovery_Fetch net (NewClient [] [] 0), now)) [(demo_net, 5)])
       (Poller_New ''cluster_table'' \<lparr>po_Interval = 0, po_Timeout = 0\<rparr>, NewClusterDiscovery NewHub None)) = (p', d') \<and>
     p_version p' = ''v1'' \<and> map ep_Name (fst (Hub_Snapshot ''c1'' (cd_hub d'))) = [''a'', '''']"
proof -
  let ?d = "NewClusterDiscovery NewHub None" and ?p = "Poller_New ''cluster_table'' \<lparr>po_Interval = 0, po_Timeout = 0\<rparr>"
  let ?fetch = "\<lambda>net. ClusterDiscovery_Fetch net (NewClient [] [] 0)"
  obtain p' d' where run: "snd (Poller_Start (ClusterDiscovery_Handle None)
      (map (\<lambda>(net, now). (?fetch net, now)) [(demo_net, 5)]) (?p, ?d)) = (p', d')" by fastforce
  have v: "p_version p' = ''v1''"
    using run by (auto simp: Poller_Start_def Poller_round_def ClusterDiscovery_Fetch_def demo_get
        ClusterDiscovery_Handle_def Let_def split: prod.splits)
  have inv: "hub_inv (cd_hub ?d)" by (simp add: NewClusterDiscovery_def NewHub_inv)
  have "fst (Hub_Snapshot ''c1'' (cd_hub d')) =
      (case map_of demo_table ''c1'' of None \<Rightarrow> [] | Some subs \<Rightarrow> map (endpoint_of ''c1'') (live_backends subs))"
    using hub_holds_last_table [OF inv run] v by (auto simp: Poller_New_def demo_get)
  then have "map ep_Name (fst (Hub_Snapshot ''c1'' (cd_hub d'))) = [''a'', '''']"
    by (simp add: demo_table_def live_backends_def endpoint_of_def)
  with run v show ?thesis by (intro exI [of _ p'] exI [of _ d'] conjI)
qed

end
