(* ===== verification/Epp_Data.thy ===== *)
theory Epp_Data
  imports Manager_Contracts Inner_API Poller_Loop
begin

text \<open>
  \<open>pkg/poller/epp_data.go\<close>: the watcher of the merged snapshot of configurations and assignments.
  It resolves the roles of its own instance, brings the cell registry in line with them and then
  applies the configurations of the clusters it holds. Its state is the manager's, extended by the
  gauge \<open>assignmentNoMatch\<close> (a gauge starts at 0); client and instance ID are arguments. The three loops of \<open>Handle\<close> are functions of their own; each ranges over
  a Go map (or the registry), whose order is the order of the association list, any order. The
  peer of an assignment is only logged.
\<close>

record EppDataWatcher = Manager +
  w_assignmentNoMatch :: nat

definition NewEppDataWatcher :: "Manager \<Rightarrow> EppDataWatcher" where
  "NewEppDataWatcher manager = Manager.extend manager \<lparr>w_assignmentNoMatch = 0\<rparr>"

definition resolveRole :: "string \<Rightarrow> AssignmentEntry \<Rightarrow> Role \<times> bool" where
  "resolveRole self e =
     (if ae_Primary e \<noteq> None \<and> the (ae_Primary e) = self then (RolePrimary, True)
      else if ae_Standby e \<noteq> None \<and> the (ae_Standby e) = self then (RoleStandby, True)
      else (RoleNone, False))"

definition peerID :: "string \<Rightarrow> AssignmentEntry \<Rightarrow> string" where
  "peerID self e =
     (if ae_Primary e \<noteq> None \<and> the (ae_Primary e) = self then
        (case ae_Standby e of Some s \<Rightarrow> s | None \<Rightarrow> '''')
      else if ae_Standby e \<noteq> None \<and> the (ae_Standby e) = self \<and> ae_Primary e \<noteq> None then the (ae_Primary e)
      else '''')"

fun handle_mine :: "string \<Rightarrow> (string, AssignmentEntry) gomap \<Rightarrow> (string, Role) gomap \<Rightarrow>
    (string, Role) gomap" where
  "handle_mine self [] mine = mine"
| "handle_mine self ((cluster, entry) # assignment) mine =
     (let (role, ok) = resolveRole self entry
      in if \<not> ok then handle_mine self assignment mine
         else handle_mine self assignment (AList.update cluster role mine))"

fun ensure_all :: "ManagerCfg \<Rightarrow> (string, Role) gomap \<Rightarrow> 'a Manager_scheme \<Rightarrow>
    go_error option \<times> 'a Manager_scheme" where
  "ensure_all cfg [] m = (None, m)"
| "ensure_all cfg ((cluster, role) # mine) m =
     (case Manager_Ensure cfg cluster role m of
        (Inl err, m') \<Rightarrow> (Some (ErrWrap (''ensure cell '' @ cluster) err), m')
      | (Inr _, m') \<Rightarrow> ensure_all cfg mine m')"

fun drop_unassigned :: "(string, Role) gomap \<Rightarrow> nat list \<Rightarrow> 'a Manager_scheme \<Rightarrow> 'a Manager_scheme" where
  "drop_unassigned mine [] m = m"
| "drop_unassigned mine (c # cs) m =
     (if map_of mine (c_Key (st_cells m c)) = None
      then drop_unassigned mine cs (Manager_Drop (c_Key (st_cells m c)) m)
      else drop_unassigned mine cs m)"

fun apply_all :: "ManagerCfg \<Rightarrow> (string, Role) gomap \<Rightarrow> int \<Rightarrow> (string, string) gomap \<Rightarrow>
    'a Manager_scheme \<Rightarrow> 'a Manager_scheme" where
  "apply_all cfg mine now [] m = m"
| "apply_all cfg mine now ((cluster, raw) # configs) m =
     (if map_of mine cluster = None then apply_all cfg mine now configs m
      else (case Manager_ApplyConfig cfg cluster raw now m of
              (Inl err, m') \<Rightarrow> apply_all cfg mine now configs m'
            | (Inr _, m') \<Rightarrow> apply_all cfg mine now configs m'))"

definition EppDataWatcher_Handle :: "ManagerCfg \<Rightarrow> string \<Rightarrow> int \<Rightarrow>
    (EppDataConfig, EppDataWatcher) Handle" where
  "EppDataWatcher_Handle cfg instance_id now conf m =
     (let mine = handle_mine instance_id (ed_Assignment conf) [];
          m1 = (if mine = [] then m\<lparr>w_assignmentNoMatch := 1\<rparr> else m\<lparr>w_assignmentNoMatch := 0\<rparr>)
      in case ensure_all cfg mine m1 of
           (Some err, m2) \<Rightarrow> (Inl err, m2)
         | (None, m2) \<Rightarrow>
             (let m3 = drop_unassigned mine (Manager_List m2) m2
              in (Inr (), apply_all cfg mine now (ed_EppConfig conf) m3)))"

definition EppDataWatcher_Fetch :: "http \<Rightarrow> Client \<Rightarrow> EppDataConfig Source" where
  "EppDataWatcher_Fetch net client version =
     (case Client_Get net dec_EppDataConfig zero_EppDataConfig client EppDataConfigPath version of
        Inl err \<Rightarrow> Inl err
      | Inr (changed, ver, cfg) \<Rightarrow>
          if \<not> changed then Inr (changed, ver, zero_EppDataConfig)
          else Inr (True, ver, cfg))"

section \<open>Roles\<close>

lemma resolveRole_iff:
  "resolveRole self e = (RolePrimary, True) \<longleftrightarrow> ae_Primary e = Some self"
  "resolveRole self e = (RoleStandby, True) \<longleftrightarrow> ae_Primary e \<noteq> Some self \<and> ae_Standby e = Some self"
  "snd (resolveRole self e) \<longleftrightarrow> ae_Primary e = Some self \<or> ae_Standby e = Some self"
  by (auto simp: resolveRole_def)

lemma resolveRole_role: "snd (resolveRole self e) \<Longrightarrow> fst (resolveRole self e) \<noteq> RoleNone"
  by (auto simp: resolveRole_def split: if_splits)

text \<open>
  Roles are exclusive across instances. All instances see the same assignment view; for each
  cluster at most one of them resolves to primary and at most one to standby; nobody is both; and
  when two instances hold the two roles of a cluster, each is the other's peer.
\<close>

lemma roles_exclusive:
  "(snd (resolveRole a e) \<and> resolveRole a e = resolveRole b e \<longrightarrow> a = b) \<and>
   (resolveRole a e = (RolePrimary, True) \<and> resolveRole b e = (RoleStandby, True) \<longrightarrow>
      a \<noteq> b \<and> peerID a e = b \<and> peerID b e = a)"
  by (auto simp: resolveRole_def peerID_def split: if_splits)

lemma roles_exclusive_example:
  "peerID ''epp-0'' \<lparr>ae_Primary = Some ''epp-0'', ae_Standby = Some ''epp-1''\<rparr> = ''epp-1''"
  using roles_exclusive [of "''epp-0''" "\<lparr>ae_Primary = Some ''epp-0'', ae_Standby = Some ''epp-1''\<rparr>" "''epp-1''"]
  by (simp add: resolveRole_def)

text \<open>The role this instance has for a cluster under an assignment view.\<close>

definition my_role :: "string \<Rightarrow> (string, AssignmentEntry) gomap \<Rightarrow> string \<Rightarrow> Role option" where
  "my_role self assignment k =
     (case map_of assignment k of
        Some e \<Rightarrow> if snd (resolveRole self e) then Some (fst (resolveRole self e)) else None
      | None \<Rightarrow> None)"

lemma handle_mine_map:
  assumes "gomap_wf assignment"
  shows "map_of (handle_mine self assignment mine) k =
    (case my_role self assignment k of Some r \<Rightarrow> Some r | None \<Rightarrow> map_of mine k)"
  using assms
proof (induction assignment arbitrary: mine)
  case (Cons x assignment)
  obtain cluster e where x: "x = (cluster, e)" by fastforce
  with Cons.prems have none: "map_of assignment cluster = None" by (simp add: map_of_eq_None_iff)
  obtain role ok where r: "resolveRole self e = (role, ok)" by fastforce
  show ?case
    using Cons none by (auto simp: x my_role_def r update_conv' split: option.split)
qed (simp add: my_role_def)

lemma handle_mine_wf: "gomap_wf mine \<Longrightarrow> gomap_wf (handle_mine self assignment mine)"
  by (induction assignment arbitrary: mine) (auto simp: distinct_update split: prod.split)

lemma my_role_not_none: "my_role self assignment k = Some r \<Longrightarrow> r \<noteq> RoleNone"
  using resolveRole_role [of self] by (auto simp: my_role_def split: option.splits if_splits)

lemma handle_mine_facts:
  assumes "gomap_wf assignment"
  shows "map_of (handle_mine self assignment []) k = my_role self assignment k"
    and "gomap_wf (handle_mine self assignment [])" and "\<forall>(k, r) \<in> set (handle_mine self assignment []). r \<noteq> RoleNone"
proof -
  show map: "map_of (handle_mine self assignment []) k = my_role self assignment k" for k
    using handle_mine_map [OF assms, of self "[]" k] by (simp split: option.splits)
  show wf: "gomap_wf (handle_mine self assignment [])" using handle_mine_wf [of "[]"] by simp
  show "\<forall>(k, r) \<in> set (handle_mine self assignment []). r \<noteq> RoleNone"
    using my_role_not_none [of self assignment, folded map] map_of_is_SomeI [OF wf] by blast
qed

section \<open>The three loops\<close>

text \<open>No registered cell is in the primary state without the role (an invariant of the running system); a
  cluster whose cell is draining; a cluster with a live cell in a role.\<close>

definition roles_agree :: "'a Manager_scheme \<Rightarrow> bool" where
  "roles_agree m \<longleftrightarrow> (\<forall>k c. Manager_Get k m = Some c \<longrightarrow> role_state_ok (st_cells m c))"

definition draining :: "string \<Rightarrow> 'a Manager_scheme \<Rightarrow> bool" where
  "draining k m \<longleftrightarrow> (\<exists>c. Manager_Get k m = Some c \<and> c_state (st_cells m c) = StateDraining)"

definition holds_role :: "string \<Rightarrow> Role \<Rightarrow> 'a Manager_scheme \<Rightarrow> bool" where
  "holds_role k r m \<longleftrightarrow> (\<exists>c. Manager_Get k m = Some c \<and> c_role (st_cells m c) = r \<and>
     c_state (st_cells m c) \<noteq> StateDraining \<and> role_state_ok (st_cells m c))"

lemma registered_distinct:
  assumes "mgr_inv infl m" "Manager_Get k m = Some c" "Manager_Get k' m = Some c"
  shows "k = k'"
  using assms by (auto simp: mgr_inv_def Manager_Get_def dest: registry_wfD(3))

lemma Get_key: "mgr_inv infl m \<Longrightarrow> Manager_Get k m = Some c \<Longrightarrow> c_Key (st_cells m c) = k"
  by (auto simp: mgr_inv_def Manager_Get_def dest: registry_wfD(3))

lemma Get_bound: "mgr_inv infl m \<Longrightarrow> Manager_Get k m = Some c \<Longrightarrow> c < m_nextCell m"
  by (auto simp: mgr_inv_def Manager_Get_def dest: registry_wfD(2))

lemma holds_role_cong:
  assumes "Manager_Get k m' = Manager_Get k m" "\<And>d. Manager_Get k m = Some d \<Longrightarrow> st_cells m' d = st_cells m d"
  shows "holds_role k r m' \<longleftrightarrow> holds_role k r m" and "draining k m' \<longleftrightarrow> draining k m"
  using assms by (auto simp: holds_role_def draining_def)

text \<open>On a cell that is being torn down \<open>Ensure\<close> has no effect but, at most, on the role of that cell.\<close>

lemma Ensure_draining:
  assumes "mgr_inv infl m" "Manager_Get key m = Some c" "c_state (st_cells m c) = StateDraining"
  shows "\<exists>m'. Manager_Ensure cfg key role m = (Inr c, m') \<and> mgr_inv infl m' \<and> m_cells m' = m_cells m \<and>
    c_state (st_cells m' c) = StateDraining \<and> (\<forall>d. d \<noteq> c \<longrightarrow> st_cells m' d = st_cells m d)"
proof -
  have "Manager_Ensure cfg key role m = (Inr c, Ensure_role c key role m)"
    using assms(2) by (simp add: Manager_Ensure_def)
  moreover have "m_cells (Ensure_role c key role m) = m_cells m \<and>
      c_state (st_cells (Ensure_role c key role m) c) = StateDraining \<and>
      (\<forall>d. d \<noteq> c \<longrightarrow> st_cells (Ensure_role c key role m) d = st_cells m d)"
    using assms(2,3)
    by (auto simp: Ensure_role_def Promote_cells Demote_cells role_op_registry Cell_Role_def split: Role.split)
  ultimately show ?thesis using Ensure_role_inv [OF assms(1)] by auto
qed

lemma Ensure_step:
  assumes "mgr_inv infl m" "roles_agree m" "role \<noteq> RoleNone"
  obtains c m' where "Manager_Ensure (production_cfg L opts) key role m = (Inr c, m')" "mgr_inv infl m'"
    "roles_agree m'" "if draining key m then draining key m' else holds_role key role m'"
    "\<And>k. k \<noteq> key \<Longrightarrow> Manager_Get k m' = Manager_Get k m"
    "\<And>k d. k \<noteq> key \<Longrightarrow> Manager_Get k m = Some d \<Longrightarrow> st_cells m' d = st_cells m d"
proof -
  obtain c m' where e: "Manager_Ensure (production_cfg L opts) key role m = (Inr c, m')" "mgr_inv infl m'"
    "\<And>k. Manager_Get k m' = (if k = key then Some c else Manager_Get k m)"
    "if draining key m then draining key m' else holds_role key role m'"
    "\<forall>d. d \<noteq> c \<longrightarrow> st_cells m' d = st_cells m d"
  proof (cases "draining key m")
    case True
    then obtain c where c: "Manager_Get key m = Some c" "c_state (st_cells m c) = StateDraining"
      by (auto simp: draining_def)
    obtain m' where m': "Manager_Ensure (production_cfg L opts) key role m = (Inr c, m')" "mgr_inv infl m'"
      "m_cells m' = m_cells m" "c_state (st_cells m' c) = StateDraining" "\<forall>d. d \<noteq> c \<longrightarrow> st_cells m' d = st_cells m d"
      using Ensure_draining [OF assms(1) c, of "production_cfg L opts" role] by blast
    have "Manager_Get k m' = (if k = key then Some c else Manager_Get k m)" for k
      using m'(3) c(1) by (simp add: Manager_Get_def)
    with m' True show thesis by (intro that) (auto simp: draining_def)
  next
    case False
    then have pre: "c_state (st_cells m c) \<noteq> StateDraining \<and> role_state_ok (st_cells m c)"
      if "Manager_Get key m = Some c" for c
      using assms(2) that by (simp add: roles_agree_def draining_def)
    obtain c m' where e: "Manager_Ensure (production_cfg L opts) key role m = (Inr c, m')" "mgr_inv infl m'"
      "smap_Load (m_cells m') = (smap_Load (m_cells m))(key \<mapsto> c)"
      "c_role (st_cells m' c) = role" "role_state_ok (st_cells m' c)" "c_state (st_cells m' c) \<noteq> StateDraining"
      "\<forall>d. d \<noteq> c \<longrightarrow> st_cells m' d = st_cells m d"
      using Ensure_effect [OF assms(3,1) pre, where L = L and opts = opts] by blast
    with False show thesis by (intro that) (auto simp: Manager_Get_def holds_role_def)
  qed
  have other: "st_cells m' d = st_cells m d" if "k \<noteq> key" "Manager_Get k m = Some d" for k d
  proof -
    have "Manager_Get k m' = Some d" "Manager_Get key m' = Some c" using e(3) that by simp_all
    then have "d \<noteq> c" using registered_distinct [OF e(2)] that(1) by metis
    with e(5) show ?thesis by simp
  qed
  have "role_state_ok (st_cells m' d)" if "Manager_Get k m' = Some d" for k d
  proof (cases "k = key")
    case True
    then show ?thesis
      using e(4) that by (auto simp: draining_def holds_role_def role_state_ok_def split: if_splits)
  next
    case False
    then show ?thesis using that e(3) other assms(2) by (auto simp: roles_agree_def)
  qed
  then show thesis using that e(1-4) other by (auto simp: roles_agree_def)
qed

lemma ensure_all_effect:
  assumes "mgr_inv infl m" "roles_agree m" "gomap_wf mine" "\<forall>(k, r) \<in> set mine. r \<noteq> RoleNone"
  obtains m' where "ensure_all (production_cfg L opts) mine m = (None, m')" "mgr_inv infl m'" "roles_agree m'"
    "\<And>k r. map_of mine k = Some r \<Longrightarrow> if draining k m then draining k m' else holds_role k r m'"
    "\<And>k. map_of mine k = None \<Longrightarrow> Manager_Get k m' = Manager_Get k m"
    "\<And>k d. map_of mine k = None \<Longrightarrow> Manager_Get k m = Some d \<Longrightarrow> st_cells m' d = st_cells m d"
  using assms
proof (induction mine arbitrary: m thesis)
  case (Cons x mine)
  obtain key role where x: "x = (key, role)" by fastforce
  have absent: "map_of mine key = None" using Cons.prems(4) x by (simp add: map_of_eq_None_iff)
  have "role \<noteq> RoleNone" using Cons.prems(5) x by simp
  from Ensure_step [OF Cons.prems(2,3) this, of L opts key]
  obtain c m1 where one: "Manager_Ensure (production_cfg L opts) key role m = (Inr c, m1)" "mgr_inv infl m1"
    "roles_agree m1" "if draining key m then draining key m1 else holds_role key role m1"
    "\<And>k. k \<noteq> key \<Longrightarrow> Manager_Get k m1 = Manager_Get k m"
    "\<And>k d. k \<noteq> key \<Longrightarrow> Manager_Get k m = Some d \<Longrightarrow> st_cells m1 d = st_cells m d"
    by blast
  have wf: "gomap_wf mine" "\<forall>(k, r) \<in> set mine. r \<noteq> RoleNone" using Cons.prems(4,5) x by auto
  obtain m' where rest: "ensure_all (production_cfg L opts) mine m1 = (None, m')" "mgr_inv infl m'" "roles_agree m'"
    "\<And>k r. map_of mine k = Some r \<Longrightarrow> if draining k m1 then draining k m' else holds_role k r m'"
    "\<And>k. map_of mine k = None \<Longrightarrow> Manager_Get k m' = Manager_Get k m1"
    "\<And>k d. map_of mine k = None \<Longrightarrow> Manager_Get k m1 = Some d \<Longrightarrow> st_cells m' d = st_cells m1 d"
    using Cons.IH [OF _ one(2,3) wf] by metis
  have here: "if draining key m then draining key m' else holds_role key role m'"
    using holds_role_cong [OF rest(5) [OF absent] rest(6) [OF absent]] one(4) by simp
  have before: "draining k m1 = draining k m" if "k \<noteq> key" for k
    using holds_role_cong(2) [OF one(5) [OF that] one(6) [OF that]] .
  show ?case
  proof (rule Cons.prems(1))
    show "ensure_all (production_cfg L opts) (x # mine) m = (None, m')" using one(1) rest(1) x by simp
    show "if draining k m then draining k m' else holds_role k r m'" if "map_of (x # mine) k = Some r" for k r
    proof (cases "k = key")
      case True
      then show ?thesis using that x here by (auto split: if_splits)
    next
      case False
      then show ?thesis using that x rest(4) [of k r] before [of k] by simp
    qed
    show "Manager_Get k m' = Manager_Get k m" if "map_of (x # mine) k = None" for k
      using that x rest(5) one(5) by (auto split: if_splits)
    show "st_cells m' d = st_cells m d" if "map_of (x # mine) k = None" "Manager_Get k m = Some d" for k d
      using that x rest(6) [of k d] one(5,6) [of k] by (auto split: if_splits)
  qed (rule rest)+
qed simp

lemma Drop_keeps_key: "c_Key (st_cells (Manager_Drop key m) d) = c_Key (st_cells m d)"
proof (cases "Manager_Get key m")
  case None
  then show ?thesis by (simp add: Manager_Drop_def)
next
  case (Some c)
  show ?thesis
  proof (cases "c_engine (st_cells m c)")
    case None
    with Some show ?thesis by (simp add: Manager_Drop_def Cell_Engine_def Let_def)
  next
    case (Some e)
    with \<open>Manager_Get key m = Some c\<close> show ?thesis
      by (cases rule: scheduleDrain_cases [of "Cell_setState c StateDraining m" c e True])
        (simp_all add: Manager_Drop_def Cell_Engine_def Let_def Manager_drain_def)
  qed
qed

text \<open>One drop: the registry only shrinks, and every other cluster keeps its cell as it is.\<close>

lemma Drop_step:
  assumes "mgr_inv infl m"
  shows "\<And>k c. Manager_Get k (Manager_Drop key m) = Some c \<Longrightarrow> Manager_Get k m = Some c"
    and "\<And>c. Manager_Get key (Manager_Drop key m) = Some c \<Longrightarrow>
           c_state (st_cells (Manager_Drop key m) c) = StateDraining"
    and "\<And>k. k \<noteq> key \<Longrightarrow> Manager_Get k (Manager_Drop key m) = Manager_Get k m"
    and "\<And>k d. k \<noteq> key \<Longrightarrow> Manager_Get k m = Some d \<Longrightarrow> st_cells (Manager_Drop key m) d = st_cells m d"
    and "\<And>d. c_state (st_cells m d) = StateDraining \<Longrightarrow>
           c_state (st_cells (Manager_Drop key m) d) = StateDraining"
    and "\<And>d. c_Key (st_cells (Manager_Drop key m) d) = c_Key (st_cells m d)"
proof -
  have none: "Manager_Get key m = None \<Longrightarrow> Manager_Drop key m = m" by (simp add: Manager_Drop_def)
  have get: "Manager_Get k (Manager_Drop key m) = (if k = key then Manager_Get key (Manager_Drop key m) else Manager_Get k m)" for k
    using none Drop_state(3) [of key m _ k] Get_key [OF assms, of key] by (cases "Manager_Get key m") (auto simp: Manager_Get_def)
  have key: "Manager_Get key (Manager_Drop key m) = Some c \<Longrightarrow> Manager_Get key m = Some c" for c
    using none Drop_state(2) [of key m] by (cases "Manager_Get key m") (auto simp: Manager_Get_def)
  show "Manager_Get k (Manager_Drop key m) = Some c \<Longrightarrow> Manager_Get k m = Some c" for k c
    using get [of k] key by (simp split: if_splits)
  show "Manager_Get key (Manager_Drop key m) = Some c \<Longrightarrow>
      c_state (st_cells (Manager_Drop key m) c) = StateDraining" for c
    using key [of c] Drop_state(1) [of key m c] by simp
  show "k \<noteq> key \<Longrightarrow> Manager_Get k (Manager_Drop key m) = Manager_Get k m" for k
    using get [of k] by simp
  show "st_cells (Manager_Drop key m) d = st_cells m d" if "k \<noteq> key" "Manager_Get k m = Some d" for k d
    using Drop_frame registered_distinct [OF assms that(2)] that(1) by metis
  show "c_state (st_cells m d) = StateDraining \<Longrightarrow> c_state (st_cells (Manager_Drop key m) d) = StateDraining" for d
    using Drop_state(1) [of key m _ d] Drop_frame [of key m d] by (cases "Manager_Get key m") auto
  show "c_Key (st_cells (Manager_Drop key m) d) = c_Key (st_cells m d)" for d
    by (rule Drop_keeps_key)
qed

definition drops_to :: "(string, Role) gomap \<Rightarrow> 'a Manager_scheme \<Rightarrow> 'a Manager_scheme \<Rightarrow> bool" where
  "drops_to mine m m' \<longleftrightarrow>
     (\<forall>k c. Manager_Get k m' = Some c \<longrightarrow> Manager_Get k m = Some c) \<and>
     (\<forall>d. c_state (st_cells m d) = StateDraining \<longrightarrow> c_state (st_cells m' d) = StateDraining) \<and>
     (\<forall>d. c_Key (st_cells m' d) = c_Key (st_cells m d)) \<and>
     (\<forall>k. map_of mine k \<noteq> None \<longrightarrow> Manager_Get k m' = Manager_Get k m \<and>
        (\<forall>d. Manager_Get k m = Some d \<longrightarrow> st_cells m' d = st_cells m d))"

lemma drops_to_refl: "drops_to mine m m"
  by (simp add: drops_to_def)

lemma drops_to_trans: "drops_to mine m m' \<Longrightarrow> drops_to mine m' m'' \<Longrightarrow> drops_to mine m m''"
  unfolding drops_to_def by metis

lemma drops_to_Drop:
  assumes "mgr_inv infl m" "map_of mine key = None"
  shows "drops_to mine m (Manager_Drop key m)"
proof -
  have "k \<noteq> key" if "map_of mine k \<noteq> None" for k using assms(2) that by auto
  then show ?thesis
    unfolding drops_to_def using Drop_step [OF assms(1), where key = key] by metis
qed

lemma drop_unassigned_effect:
  assumes "mgr_inv infl m"
  shows "mgr_inv infl (drop_unassigned mine cs m) \<and> drops_to mine m (drop_unassigned mine cs m) \<and>
    (\<forall>c \<in> set cs. map_of mine (c_Key (st_cells m c)) = None \<longrightarrow>
       (\<forall>d. Manager_Get (c_Key (st_cells m c)) (drop_unassigned mine cs m) = Some d \<longrightarrow>
          c_state (st_cells (drop_unassigned mine cs m) d) = StateDraining))"
  using assms
proof (induction cs arbitrary: m)
  case Nil
  then show ?case by (simp add: drops_to_refl)
next
  case (Cons x cs)
  let ?key = "c_Key (st_cells m x)"
  define m1 where "m1 = (if map_of mine ?key = None then Manager_Drop ?key m else m)"
  let ?m' = "drop_unassigned mine cs m1"
  have run: "drop_unassigned mine (x # cs) m = ?m'" by (simp add: m1_def)
  have inv: "mgr_inv infl m1" using Cons.prems by (simp add: m1_def Drop_inv)
  have one: "drops_to mine m m1"
    using drops_to_Drop [OF Cons.prems] by (simp add: m1_def drops_to_refl)
  have keys: "c_Key (st_cells m1 c) = c_Key (st_cells m c)" for c
    using one by (simp add: drops_to_def)
  from Cons.IH [OF inv] have IH: "mgr_inv infl ?m'" "drops_to mine m1 ?m'"
    "\<forall>c \<in> set cs. map_of mine (c_Key (st_cells m c)) = None \<longrightarrow>
       (\<forall>d. Manager_Get (c_Key (st_cells m c)) ?m' = Some d \<longrightarrow> c_state (st_cells ?m' d) = StateDraining)"
    by (simp_all add: keys)
  have "c_state (st_cells ?m' d) = StateDraining"
    if "map_of mine ?key = None" "Manager_Get ?key ?m' = Some d" for d
  proof -
    have "Manager_Get ?key m1 = Some d" using IH(2) that(2) unfolding drops_to_def by blast
    then have "c_state (st_cells m1 d) = StateDraining"
      using Drop_step(2) [OF Cons.prems, where key = ?key and c = d] that(1) by (simp add: m1_def)
    then show ?thesis using IH(2) unfolding drops_to_def by blast
  qed
  with IH drops_to_trans [OF one IH(2)] show ?case unfolding run by simp
qed

text \<open>Applying configurations: the registry and the roles stay, and a cell is touched only by its
  own cluster's configuration.\<close>

lemma apply_all_step:
  "apply_all cfg mine now ((cluster, raw) # configs) m =
     apply_all cfg mine now configs
       (if map_of mine cluster = None then m else snd (Manager_ApplyConfig cfg cluster raw now m))"
  by (simp add: case_prod_unfold split: sum.split)

lemma role_kept:
  assumes "c_role x' = c_role x"
    and "c_state x' = c_state x \<or> c_state x' = StateStandby"
    and "c_state x \<noteq> StateDraining" "role_state_ok x"
  shows "c_state x' \<noteq> StateDraining" "role_state_ok x'"
  using assms by (auto simp: role_state_ok_def)

lemma apply_all_frame:
  assumes "mgr_inv infl m"
  shows "mgr_inv infl (apply_all (production_cfg L opts) mine now configs m) \<and>
    m_cells (apply_all (production_cfg L opts) mine now configs m) = m_cells m \<and>
    (\<forall>d. c_role (st_cells (apply_all (production_cfg L opts) mine now configs m) d) = c_role (st_cells m d) \<and>
      (c_state (st_cells (apply_all (production_cfg L opts) mine now configs m) d) = c_state (st_cells m d) \<or>
       c_state (st_cells m d) = StateCreating \<and>
         c_state (st_cells (apply_all (production_cfg L opts) mine now configs m) d) = StateStandby)) \<and>
    (\<forall>k d. k \<notin> set (keys configs) \<longrightarrow> Manager_Get k m = Some d \<longrightarrow>
       st_cells (apply_all (production_cfg L opts) mine now configs m) d = st_cells m d)"
  using assms
proof (induction configs arbitrary: m)
  case (Cons x configs)
  obtain cluster raw where x: "x = (cluster, raw)" by fastforce
  define m1 where "m1 = (if map_of mine cluster = None then m
    else snd (Manager_ApplyConfig (production_cfg L opts) cluster raw now m))"
  let ?m' = "apply_all (production_cfg L opts) mine now configs m1"
  have run: "apply_all (production_cfg L opts) mine now (x # configs) m = ?m'"
    by (simp only: x apply_all_step m1_def)
  have inv: "mgr_inv infl m1" using Cons.prems by (simp add: m1_def prod.ApplyConfig_inv)
  have one: "m_cells m1 = m_cells m"
    "\<And>d. Manager_Get cluster m \<noteq> Some d \<Longrightarrow> st_cells m1 d = st_cells m d"
    "\<And>d. c_role (st_cells m1 d) = c_role (st_cells m d)"
    "\<And>d. c_state (st_cells m1 d) = c_state (st_cells m d) \<or>
       c_state (st_cells m d) = StateCreating \<and> c_state (st_cells m1 d) = StateStandby"
    using ApplyConfig_frame [OF refl, where L = L and opts = opts and key = cluster and raw = raw and now = now and m = m]
    by (auto simp: m1_def)
  note IH = Cons.IH [OF inv]
  have get: "Manager_Get k m1 = Manager_Get k m" for k using one(1) by (simp add: Manager_Get_def)
  have "st_cells ?m' d = st_cells m d" if "k \<notin> set (keys (x # configs))" "Manager_Get k m = Some d" for k d
  proof -
    have "Manager_Get cluster m \<noteq> Some d"
      using registered_distinct [OF Cons.prems that(2)] that(1) x by auto
    moreover have "st_cells ?m' d = st_cells m1 d" using IH get [of k] that by auto
    ultimately show ?thesis using one(2) by simp
  qed
  moreover have "c_state (st_cells ?m' d) = c_state (st_cells m d) \<or>
      c_state (st_cells m d) = StateCreating \<and> c_state (st_cells ?m' d) = StateStandby" for d
  proof -
    have "c_state (st_cells ?m' d) = c_state (st_cells m1 d) \<or>
      c_state (st_cells m1 d) = StateCreating \<and> c_state (st_cells ?m' d) = StateStandby" using IH by blast
    with one(4) [of d] show ?thesis by auto
  qed
  ultimately show ?case unfolding run using IH one(1,3) by simp
qed simp


text \<open>Each cluster's configuration is applied to the cell as the other clusters left it: untouched.\<close>

lemma apply_all_hash:
  assumes "mgr_inv infl m" "gomap_wf configs" "map_of configs k = Some raw" "map_of mine k \<noteq> None"
    "Manager_Get k m = Some c" "c_state (st_cells m c) \<noteq> StateDraining"
  shows "c_currentHash (st_cells (apply_all (production_cfg L opts) mine now configs m) c) = Some (HashConfig raw) \<or>
    (\<exists>err. fst (mc_compile (production_cfg L opts) c k raw (st_cells m c)) = Inl err) \<and>
      c_engine (st_cells (apply_all (production_cfg L opts) mine now configs m) c) = c_engine (st_cells m c)"
  using assms
proof (induction configs arbitrary: m)
  case (Cons x configs)
  obtain cluster raw' where x: "x = (cluster, raw')" by fastforce
  define m1 where "m1 = (if map_of mine cluster = None then m
    else snd (Manager_ApplyConfig (production_cfg L opts) cluster raw' now m))"
  let ?m' = "apply_all (production_cfg L opts) mine now configs m1"
  have run: "apply_all (production_cfg L opts) mine now (x # configs) m = ?m'"
    by (simp only: x apply_all_step m1_def)
  have inv: "mgr_inv infl m1" using Cons.prems(1) by (simp add: m1_def prod.ApplyConfig_inv)
  note frame = ApplyConfig_frame [OF refl, where L = L and opts = opts and key = cluster and raw = raw' and now = now and m = m]
  have get: "Manager_Get k m1 = Some c" using frame Cons.prems(5) by (simp add: Manager_Get_def m1_def)
  show ?case
  proof (cases "k = cluster")
    case True
    with Cons.prems(2,3) x have "raw' = raw" "k \<notin> set (keys configs)" by auto
    moreover from this(2) have "st_cells ?m' c = st_cells m1 c"
      using apply_all_frame [OF inv, of L opts mine now configs] get by blast
    ultimately show ?thesis
      unfolding run using True Cons.prems(4) ApplyConfig_hash [OF Cons.prems(5,6), of L opts raw now]
      by (auto simp: m1_def split: prod.splits sum.splits)
  next
    case False
    then have "Manager_Get cluster m \<noteq> Some c"
      using registered_distinct [OF Cons.prems(1,5)] by metis
    then have "st_cells m1 c = st_cells m c" using frame by (simp add: m1_def)
    moreover have "gomap_wf configs" "map_of configs k = Some raw" using Cons.prems(2,3) x False by auto
    ultimately show ?thesis
      unfolding run using Cons.IH [OF inv _ _ Cons.prems(4) get] Cons.prems(6) by simp
  qed
qed simp

section \<open>The gauge is the handler's own\<close>

lemma gauge_upd [simp, frame]:
  fixes m :: "'a EppDataWatcher_scheme"
  shows "w_assignmentNoMatch (upd_cell c f m) = w_assignmentNoMatch m"
    "w_assignmentNoMatch (upd_engine e g m) = w_assignmentNoMatch m"
    "w_assignmentNoMatch (upd_metrics h m) = w_assignmentNoMatch m"
  by (simp_all add: upd_cell_def upd_engine_def upd_metrics_def)

lemma gauge_cell_ops [simp, frame]:
  fixes m :: "'a EppDataWatcher_scheme"
  shows "w_assignmentNoMatch (Cell_setRole c r m) = w_assignmentNoMatch m"
    "w_assignmentNoMatch (Cell_setState c st m) = w_assignmentNoMatch m"
    "w_assignmentNoMatch (Cell_Close c m) = w_assignmentNoMatch m"
    "w_assignmentNoMatch (Engine_cancel e m) = w_assignmentNoMatch m"
  by (simp_all add: Cell_setRole_def Cell_setState_def Cell_Close_def Engine_cancel_def set_state_gauge_def Let_def)

lemma gauge_start [simp, frame]:
  fixes m :: "'a EppDataWatcher_scheme"
  shows "w_assignmentNoMatch (Engine_start e c now m) = w_assignmentNoMatch m"
  by (simp add: Engine_start_def Cell_markReady_def Let_def)

lemma gauge_drain [simp, frame]:
  fixes m :: "'a EppDataWatcher_scheme"
  shows "w_assignmentNoMatch (scheduleDrain c e td m) = w_assignmentNoMatch m"
  by (simp add: scheduleDrain_def Manager_drain_def Manager_drain_begin_def Manager_drain_end_def Let_def
      split: option.split)

lemma gauge_roles [simp, frame]:
  fixes m :: "'a EppDataWatcher_scheme"
  shows "w_assignmentNoMatch (Manager_Promote key m) = w_assignmentNoMatch m"
    "w_assignmentNoMatch (Manager_Demote key m) = w_assignmentNoMatch m"
    "w_assignmentNoMatch (Manager_Drop key m) = w_assignmentNoMatch m"
  by (auto simp: Manager_Promote_def Manager_Demote_def Manager_Drop_def Let_def split: option.split)

lemma gauge_Ensure [simp, frame]:
  fixes m :: "'a EppDataWatcher_scheme"
  shows "w_assignmentNoMatch (snd (Manager_Ensure cfg key role m)) = w_assignmentNoMatch m"
  by (auto simp: Manager_Ensure_def Ensure_create_def Ensure_role_def Let_def case_prod_unfold
      split: option.split sum.split)

lemma gauge_loops [simp, frame]:
  fixes m :: "'a EppDataWatcher_scheme"
  shows "w_assignmentNoMatch (snd (ensure_all cfg mine m)) = w_assignmentNoMatch m"
    "w_assignmentNoMatch (drop_unassigned mine cs m) = w_assignmentNoMatch m"
proof -
  show "w_assignmentNoMatch (snd (ensure_all cfg mine m)) = w_assignmentNoMatch m"
  proof (induction mine arbitrary: m)
    case (Cons x mine)
    obtain key role where x: "x = (key, role)" by fastforce
    obtain r m1 where e: "Manager_Ensure cfg key role m = (r, m1)" by fastforce
    with gauge_Ensure [of cfg key role m] Cons.IH [of m1] show ?case
      by (simp add: x split: sum.split)
  qed simp
  show "w_assignmentNoMatch (drop_unassigned mine cs m) = w_assignmentNoMatch m"
    by (induction cs arbitrary: m) simp_all
qed

lemma gauge_apply [simp, frame]:
  fixes m :: "'a EppDataWatcher_scheme"
  shows "w_assignmentNoMatch (apply_all cfg mine now configs m) = w_assignmentNoMatch m"
proof (induction configs arbitrary: m)
  case (Cons x configs)
  have "w_assignmentNoMatch (snd (Manager_ApplyConfig cfg k raw now m)) = w_assignmentNoMatch m" for k raw
    by (auto simp: Manager_ApplyConfig_def Let_def split: option.split prod.split sum.split)
  then show ?case
    by (cases x) (simp add: Cons.IH apply_all_step del: apply_all.simps)
qed simp

section \<open>The handler\<close>

lemma inv_NoMatch [simp]: "mgr_inv infl (m\<lparr>w_assignmentNoMatch := n\<rparr>) \<longleftrightarrow> mgr_inv infl m"
  by (simp add: mgr_inv_defs)

lemma Get_NoMatch [simp]: "Manager_Get k (m\<lparr>w_assignmentNoMatch := n\<rparr>) = Manager_Get k m"
  by (simp add: Manager_Get_def)

text \<open>What the registry looks like after a snapshot has been handled; \<open>late\<close> are the clusters whose
  teardown was under way before.\<close>

definition assigned_ok :: "(string \<Rightarrow> bool) \<Rightarrow> string \<Rightarrow> EppDataConfig \<Rightarrow> 'a Manager_scheme \<Rightarrow> bool" where
  "assigned_ok late self conf m \<longleftrightarrow>
     (\<forall>k. case my_role self (ed_Assignment conf) k of
        Some r \<Rightarrow> if late k then draining k m else holds_role k r m
      | None \<Rightarrow> (\<forall>c. Manager_Get k m = Some c \<longrightarrow> c_state (st_cells m c) = StateDraining))"

lemma assigned_okI:
  assumes "\<And>k r. my_role self (ed_Assignment conf) k = Some r \<Longrightarrow> if late k then draining k m else holds_role k r m"
    and "\<And>k c. my_role self (ed_Assignment conf) k = None \<Longrightarrow> Manager_Get k m = Some c \<Longrightarrow>
           c_state (st_cells m c) = StateDraining"
  shows "assigned_ok late self conf m"
  unfolding assigned_ok_def
proof
  fix k
  show "case my_role self (ed_Assignment conf) k of Some r \<Rightarrow> if late k then draining k m else holds_role k r m
      | None \<Rightarrow> (\<forall>c. Manager_Get k m = Some c \<longrightarrow> c_state (st_cells m c) = StateDraining)"
    using assms [of k] by (cases "my_role self (ed_Assignment conf) k") simp_all
qed

lemma assigned_okD:
  assumes "assigned_ok late self conf m"
  shows "my_role self (ed_Assignment conf) k = Some r \<Longrightarrow> if late k then draining k m else holds_role k r m"
    and "my_role self (ed_Assignment conf) k = None \<Longrightarrow> Manager_Get k m = Some c \<Longrightarrow>
           c_state (st_cells m c) = StateDraining"
  using assms spec [OF assms [unfolded assigned_ok_def], of k] by simp_all

text \<open>No registered cell is ready. \<open>Ensure\<close> makes no cell ready.\<close>

definition none_ready :: "'a Manager_scheme \<Rightarrow> bool" where
  "none_ready m \<longleftrightarrow> (\<forall>k c. Manager_Get k m = Some c \<longrightarrow> \<not> c_ready (st_cells m c))"

lemma Ensure_role_ready:
  "c_ready (st_cells (Ensure_role c key role m) d) = c_ready (st_cells m d)"
  "Manager_Get k (Ensure_role c key role m) = Manager_Get k m"
  by (auto simp: Ensure_role_def Manager_Promote_def Manager_Demote_def role_op_registry Manager_Get_def Let_def split: option.split)

lemma Ensure_none_ready:
  assumes "none_ready m"
  shows "none_ready (snd (Manager_Ensure (production_cfg L opts) key role m))"
proof (cases "Manager_Get key m")
  case None
  obtain r m' where create: "Ensure_create (production_cfg L opts) key m = (r, m')" by fastforce
  then have "none_ready m'"
    using assms None
    by (auto simp: Ensure_create_def defaultNewCell_def none_ready_def Manager_Get_def smap_LoadOrStore_def
        smap_Load_def update_conv' Let_def split: if_splits)
  then show ?thesis
    using None create by (cases r) (auto simp: Manager_Ensure_def none_ready_def Ensure_role_ready)
next
  case (Some c)
  with assms show ?thesis by (simp add: Manager_Ensure_def none_ready_def Ensure_role_ready)
qed

lemma ensure_all_none_ready: "none_ready m \<Longrightarrow> none_ready (snd (ensure_all (production_cfg L opts) mine m))"
proof (induction mine arbitrary: m)
  case (Cons x mine)
  obtain key role where x: "x = (key, role)" by fastforce
  obtain r m1 where e: "Manager_Ensure (production_cfg L opts) key role m = (r, m1)" by fastforce
  have "none_ready m1" using Ensure_none_ready [OF Cons.prems, of L opts key role] e by simp
  with Cons.IH e show ?case by (simp add: x split: sum.split)
qed simp

lemma Handle_phases:
  assumes inv: "mgr_inv infl m" and st: "roles_agree m"
    and wf: "gomap_wf (ed_Assignment conf)"
  obtains mine m3 where "map_of mine = my_role self (ed_Assignment conf)" "mgr_inv infl m3"
    "assigned_ok (\<lambda>k. draining k m) self conf m3"
    "EppDataWatcher_Handle (production_cfg L opts) self now conf m =
       (Inr (), apply_all (production_cfg L opts) mine now (ed_EppConfig conf) m3)"
    "w_assignmentNoMatch m3 = (if \<exists>k. my_role self (ed_Assignment conf) k \<noteq> None then 0 else 1)"
    "\<And>k r c. none_ready m \<Longrightarrow> my_role self (ed_Assignment conf) k = Some r \<Longrightarrow> Manager_Get k m3 = Some c \<Longrightarrow>
       \<not> c_ready (st_cells m3 c)"
proof -
  define mine where "mine = handle_mine self (ed_Assignment conf) []"
  define m1 where "m1 = (if mine = [] then m\<lparr>w_assignmentNoMatch := 1\<rparr> else m\<lparr>w_assignmentNoMatch := 0\<rparr>)"
  note map = handle_mine_facts(1) [OF wf, of self, folded mine_def]
  note mwf = handle_mine_facts(2) [OF wf, of self, folded mine_def]
  note roles = handle_mine_facts(3) [OF wf, of self, folded mine_def]
  have inv1: "mgr_inv infl m1" "roles_agree m1" using inv st by (simp_all add: m1_def roles_agree_def)
  have late: "draining k m1 = draining k m" for k by (simp add: m1_def draining_def)
  obtain m2 where m2: "ensure_all (production_cfg L opts) mine m1 = (None, m2)" "mgr_inv infl m2"
    "\<And>k r. map_of mine k = Some r \<Longrightarrow> if draining k m1 then draining k m2 else holds_role k r m2"
    using ensure_all_effect [OF inv1 mwf roles, of L opts] by metis
  define m3 where "m3 = drop_unassigned mine (Manager_List m2) m2"
  note drop = drop_unassigned_effect [OF m2(2), of mine "Manager_List m2", folded m3_def]
  have "if draining k m then draining k m3 else holds_role k r m3" if "map_of mine k = Some r" for k r
  proof -
    have "Manager_Get k m3 = Manager_Get k m2" "\<And>d. Manager_Get k m2 = Some d \<Longrightarrow> st_cells m3 d = st_cells m2 d"
      using drop that unfolding drops_to_def by (metis option.distinct(1))+
    from holds_role_cong [OF this] m2(3) [OF that] show ?thesis by (simp add: late)
  qed
  moreover have "c_state (st_cells m3 c) = StateDraining"
    if "map_of mine k = None" "Manager_Get k m3 = Some c" for k c
  proof -
    have get: "Manager_Get k m2 = Some c" using drop that(2) unfolding drops_to_def by blast
    then have "c \<in> set (Manager_List m2)"
      by (force simp: Manager_Get_def Manager_List_def smap_Load_def smap_Range_def dest: map_of_SomeD)
    with Get_key [OF m2(2) get] drop that show ?thesis by metis
  qed
  ultimately have "assigned_ok (\<lambda>k. draining k m) self conf m3"
    using map by (intro assigned_okI) simp_all
  moreover have "EppDataWatcher_Handle (production_cfg L opts) self now conf m =
      (Inr (), apply_all (production_cfg L opts) mine now (ed_EppConfig conf) m3)"
    using m2(1) by (simp add: EppDataWatcher_Handle_def mine_def [symmetric] m1_def [symmetric] m3_def Let_def)
  moreover have "w_assignmentNoMatch m3 = w_assignmentNoMatch m1"
    using gauge_loops(1) [of "production_cfg L opts" mine m1] m2(1) by (simp add: m3_def)
  moreover have "mine = [] \<longleftrightarrow> \<not> (\<exists>k. my_role self (ed_Assignment conf) k \<noteq> None)"
    unfolding map [symmetric] map_of_eq_None_iff by (cases mine) auto
  moreover have "\<not> c_ready (st_cells m3 c)"
    if "none_ready m" "my_role self (ed_Assignment conf) k = Some r" "Manager_Get k m3 = Some c" for k r c
  proof -
    have "none_ready m1" using that(1) by (simp add: m1_def none_ready_def)
    then have "none_ready m2" using ensure_all_none_ready [of m1 L opts mine] m2(1) by simp
    moreover have "Manager_Get k m2 = Some c" "st_cells m3 c = st_cells m2 c"
      using drop that(2,3) map unfolding drops_to_def by (metis option.distinct(1))+
    ultimately show ?thesis by (simp add: none_ready_def)
  qed
  ultimately show thesis using drop map by (intro that [of mine m3]) (auto simp: m1_def fun_eq_iff)
qed


lemma assigned_ok_apply:
  assumes "mgr_inv infl m" "assigned_ok late self conf m"
  shows "assigned_ok late self conf (apply_all (production_cfg L opts) mine now configs m)"
proof -
  let ?m = "apply_all (production_cfg L opts) mine now configs m"
  note frame = apply_all_frame [OF assms(1), of L opts mine now configs]
  have get: "Manager_Get k ?m = Manager_Get k m" for k using frame by (simp add: Manager_Get_def)
  have role: "c_role (st_cells ?m d) = c_role (st_cells m d)" for d using frame by blast
  have st: "c_state (st_cells ?m d) = c_state (st_cells m d) \<or>
      c_state (st_cells m d) = StateCreating \<and> c_state (st_cells ?m d) = StateStandby" for d
    using frame by blast
  then have st': "c_state (st_cells ?m d) = c_state (st_cells m d) \<or> c_state (st_cells ?m d) = StateStandby" for d by blast
  have "holds_role k r m \<Longrightarrow> holds_role k r ?m" for k r
    unfolding holds_role_def get using role role_kept [OF role st'] by metis
  moreover have late: "c_state (st_cells m d) = StateDraining \<Longrightarrow> c_state (st_cells ?m d) = StateDraining" for d
    using st [of d] by auto
  moreover have "draining k m \<Longrightarrow> draining k ?m" for k
    unfolding draining_def get using late by blast
  ultimately show ?thesis
    using assigned_okD [OF assms(2)] by (intro assigned_okI) (simp_all add: get split: if_splits)
qed

text \<open>
  C5. Handling a snapshot enforces the assignment, whatever the registry is doing. The handler
  succeeds for every snapshot; afterwards each cluster assigned to this instance has a live cell in
  exactly the assigned role, every cell of another cluster is being torn down, the no-match gauge
  is set exactly when nothing is assigned here, and the manager's invariant holds. The one
  exception are assigned clusters whose cell was being torn down before: it still is.
\<close>

theorem handle_enforces_assignment:
  assumes "mgr_inv infl m" and "roles_agree m" and "gomap_wf (ed_Assignment conf)"
  shows "\<exists>m'. EppDataWatcher_Handle (production_cfg L opts) self now conf m = (Inr (), m') \<and>
    mgr_inv infl m' \<and> assigned_ok (\<lambda>k. draining k m) self conf m' \<and>
    w_assignmentNoMatch m' = (if \<exists>k. my_role self (ed_Assignment conf) k \<noteq> None then 0 else 1)"
proof -
  obtain mine m3 where h: "mgr_inv infl m3" "assigned_ok (\<lambda>k. draining k m) self conf m3"
    "EppDataWatcher_Handle (production_cfg L opts) self now conf m =
       (Inr (), apply_all (production_cfg L opts) mine now (ed_EppConfig conf) m3)"
    "w_assignmentNoMatch m3 = (if \<exists>k. my_role self (ed_Assignment conf) k \<noteq> None then 0 else 1)"
    using Handle_phases [OF assms] by metis
  then show ?thesis using apply_all_frame [OF h(1)] assigned_ok_apply [OF h(1,2)] by auto
qed

definition demo_watcher :: EppDataWatcher where
  "demo_watcher = Manager.extend demo_mgr \<lparr>w_assignmentNoMatch = 0\<rparr>"

definition demo_conf :: EppDataConfig where
  "demo_conf = \<lparr>ed_EppConfig = [(''c2'', ''v2''), (''c1'', ''bad'')],
     ed_Assignment = [(''c1'', \<lparr>ae_Primary = Some ''epp-1'', ae_Standby = Some ''epp-0''\<rparr>),
       (''c2'', \<lparr>ae_Primary = Some ''epp-0'', ae_Standby = None\<rparr>)]\<rparr>"

lemma demo_watcher_ok: "mgr_inv [] demo_watcher" "roles_agree demo_watcher" "\<not> draining k demo_watcher"
  by (auto simp: demo_watcher_def mgr_inv_defs roles_agree_def draining_def Manager_Get_def role_state_ok_def
      demo_mgr_def demo_cell_def zero_defs smap_Load_def drainCh_cap_def Manager.extend_def split: if_splits)

lemma demo_conf_wf: "gomap_wf (ed_Assignment demo_conf)" "gomap_wf (ed_EppConfig demo_conf)"
  by (simp_all add: demo_conf_def)

theorem handle_enforces_assignment_witness:
  "\<exists>m'. EppDataWatcher_Handle (production_cfg demo_llmd demo_opts) ''epp-0'' 5 demo_conf demo_watcher = (Inr (), m') \<and>
     holds_role ''c1'' RoleStandby m' \<and> holds_role ''c2'' RolePrimary m'"
proof -
  obtain m' where m': "EppDataWatcher_Handle (production_cfg demo_llmd demo_opts) ''epp-0'' 5 demo_conf demo_watcher = (Inr (), m')"
    "assigned_ok (\<lambda>k. draining k demo_watcher) ''epp-0'' demo_conf m'"
    using handle_enforces_assignment [OF demo_watcher_ok(1,2) demo_conf_wf(1), of demo_llmd demo_opts "''epp-0''" 5] by blast
  have "my_role ''epp-0'' (ed_Assignment demo_conf) ''c1'' = Some RoleStandby"
    "my_role ''epp-0'' (ed_Assignment demo_conf) ''c2'' = Some RolePrimary"
    by (simp_all add: demo_conf_def my_role_def resolveRole_def)
  then have "holds_role ''c1'' RoleStandby m'" "holds_role ''c2'' RolePrimary m'"
    using assigned_okD(1) [OF m'(2)] demo_watcher_ok(3) by simp_all
  with m'(1) show ?thesis by blast
qed

text \<open>A cluster assigned without a configuration gets a cell, which is not ready.\<close>

lemma Handle_unconfigured:
  assumes "mgr_inv infl m" and "roles_agree m" and "gomap_wf (ed_Assignment conf)" and "none_ready m"
    and "my_role self (ed_Assignment conf) k = Some r" and "k \<notin> set (keys (ed_EppConfig conf))"
  shows "\<exists>m' c. EppDataWatcher_Handle (production_cfg L opts) self now conf m = (Inr (), m') \<and>
    Manager_Get k m' = Some c \<and> \<not> c_ready (st_cells m' c)"
proof -
  obtain mine m3 where h: "mgr_inv infl m3" "assigned_ok (\<lambda>k. draining k m) self conf m3"
    "EppDataWatcher_Handle (production_cfg L opts) self now conf m =
       (Inr (), apply_all (production_cfg L opts) mine now (ed_EppConfig conf) m3)"
    "\<And>k r c. my_role self (ed_Assignment conf) k = Some r \<Longrightarrow> Manager_Get k m3 = Some c \<Longrightarrow> \<not> c_ready (st_cells m3 c)"
    using Handle_phases [OF assms(1-3)] assms(4) by metis
  obtain c where c: "Manager_Get k m3 = Some c"
    using assigned_okD(1) [OF h(2) assms(5)] by (auto simp: draining_def holds_role_def split: if_splits)
  let ?m = "apply_all (production_cfg L opts) mine now (ed_EppConfig conf) m3"
  note frame = apply_all_frame [OF h(1), of L opts mine now "ed_EppConfig conf"]
  have "Manager_Get k ?m = Some c" using frame c by (simp add: Manager_Get_def)
  moreover have "st_cells ?m c = st_cells m3 c" using frame assms(6) c by blast
  ultimately show ?thesis using h(3) h(4) [OF assms(5) c] by auto
qed

lemma Handle_good_config:
  assumes "mgr_inv infl m" and "roles_agree m" and "gomap_wf (ed_Assignment conf)" and "gomap_wf (ed_EppConfig conf)"
    and "\<not> draining k m" and "my_role self (ed_Assignment conf) k = Some r" and "map_of (ed_EppConfig conf) k = Some raw"
    and "\<And>c x. \<exists>eng. fst (Compile L \<lparr>dep_AllowExperimentalPlugins = opt_AllowExperimentalPlugins opts\<rparr> c k raw x) = Inr eng"
  shows "\<exists>m' c. EppDataWatcher_Handle (production_cfg L opts) self now conf m = (Inr (), m') \<and> mgr_inv infl m' \<and>
    Manager_Get k m' = Some c \<and> c_role (st_cells m' c) = r \<and>
    c_currentHash (st_cells m' c) = Some (HashConfig raw)"
proof -
  obtain mine m3 where h: "map_of mine = my_role self (ed_Assignment conf)" "mgr_inv infl m3"
    "assigned_ok (\<lambda>k. draining k m) self conf m3"
    "EppDataWatcher_Handle (production_cfg L opts) self now conf m =
       (Inr (), apply_all (production_cfg L opts) mine now (ed_EppConfig conf) m3)"
    using Handle_phases [OF assms(1-3)] by metis
  let ?m = "apply_all (production_cfg L opts) mine now (ed_EppConfig conf) m3"
  have "holds_role k r m3" using assigned_okD(1) [OF h(3) assms(6)] assms(5) by simp
  then obtain c where c: "Manager_Get k m3 = Some c" "c_role (st_cells m3 c) = r"
    "c_state (st_cells m3 c) \<noteq> StateDraining" by (auto simp: holds_role_def)
  have "fst (mc_compile (production_cfg L opts) c k raw (st_cells m3 c)) \<noteq> Inl err" for err
    using assms(8) [of c "st_cells m3 c"] by auto
  then have "c_currentHash (st_cells ?m c) = Some (HashConfig raw)"
    using apply_all_hash [OF h(2) assms(4,7) _ c(1,3), of mine L opts now] h(1) assms(6) by auto
  moreover have "Manager_Get k ?m = Some c" "c_role (st_cells ?m c) = r"
    using apply_all_frame [OF h(2)] c by (auto simp: Manager_Get_def)
  moreover have "mgr_inv infl ?m" using apply_all_frame [OF h(2)] by blast
  ultimately show ?thesis using h(4) by blast
qed

text \<open>
  Clusters do not affect each other's configuration. Whatever the other configurations of the
  snapshot are and however they fail, and in whatever order they are applied, a configuration that
  compiles is current in its assigned cluster's cell after the round, unless the cell was being torn
  down before.
\<close>

lemma good_config_is_applied:
  assumes "mgr_inv infl m" and "roles_agree m" and "gomap_wf (ed_Assignment conf)" and "gomap_wf (ed_EppConfig conf)"
    and "\<not> draining k m" and "my_role self (ed_Assignment conf) k = Some r" and "map_of (ed_EppConfig conf) k = Some raw"
    and "\<And>c x. \<exists>eng. fst (Compile L \<lparr>dep_AllowExperimentalPlugins = opt_AllowExperimentalPlugins opts\<rparr> c k raw x) = Inr eng"
  shows "\<exists>m' c. EppDataWatcher_Handle (production_cfg L opts) self now conf m = (Inr (), m') \<and>
    Manager_Get k m' = Some c \<and> c_role (st_cells m' c) = r \<and>
    c_currentHash (st_cells m' c) = Some (HashConfig raw)"
  using Handle_good_config [OF assms] by blast

lemma good_config_is_applied_example:
  "\<exists>m' c. EppDataWatcher_Handle (production_cfg demo_llmd demo_opts) ''epp-0'' 5 demo_conf demo_watcher = (Inr (), m') \<and>
     Manager_Get ''c2'' m' = Some c \<and> c_role (st_cells m' c) = RolePrimary \<and>
     c_currentHash (st_cells m' c) = Some (HashConfig ''v2'')"
  by (rule good_config_is_applied [OF demo_watcher_ok(1,2) demo_conf_wf demo_watcher_ok(3)])
     (simp_all add: demo_conf_def my_role_def resolveRole_def)

section \<open>The manager as a consumer of the poller\<close>

lemma ensure_all_inv: "mgr_inv infl m \<Longrightarrow> mgr_inv infl (snd (ensure_all (production_cfg L opts) mine m))"
proof (induction mine arbitrary: m)
  case (Cons x mine)
  obtain key role where x: "x = (key, role)" by fastforce
  obtain r m1 where e: "Manager_Ensure (production_cfg L opts) key role m = (r, m1)" by fastforce
  have "mgr_inv infl m1" using prod.Ensure_inv [OF Cons.prems, of L opts key role] e by simp
  with Cons.IH e show ?case by (simp add: x split: sum.split)
qed simp

interpretation watcher: poll_consumer "EppDataWatcher_Handle (production_cfg L opts) self now"
  "mgr_inv infl" for L opts self now infl
proof
  fix m :: EppDataWatcher and conf :: EppDataConfig
  assume inv: "mgr_inv infl m"
  define mine where "mine = handle_mine self (ed_Assignment conf) []"
  obtain r m2 where m2: "ensure_all (production_cfg L opts) mine (m\<lparr>w_assignmentNoMatch := (if mine = [] then 1 else 0)\<rparr>) = (r, m2)"
    by fastforce
  have "mgr_inv infl m2"
    using ensure_all_inv [of infl "m\<lparr>w_assignmentNoMatch := (if mine = [] then 1 else 0)\<rparr>" L opts mine] inv m2 by simp
  moreover from this have "mgr_inv infl (apply_all (production_cfg L opts) mine now (ed_EppConfig conf)
      (drop_unassigned mine (Manager_List m2) m2))"
    by (intro conjunct1 [OF apply_all_frame] conjunct1 [OF drop_unassigned_effect])
  ultimately show "mgr_inv infl (snd (EppDataWatcher_Handle (production_cfg L opts) self now conf m))"
    using m2 by (auto simp: EppDataWatcher_Handle_def mine_def [symmetric] Let_def split: option.split if_splits)
qed

text \<open>
  The manager's invariant survives any run of the watcher's poller: whatever snapshots arrive,
  in whatever order, with failed fetches in between, the registry, the engines, the drain queue
  and the pending teardowns stay consistent.
\<close>

lemma watcher_run_keeps_invariant:
  assumes "mgr_inv infl m"
  shows "mgr_inv infl (snd (snd (Poller_Start (EppDataWatcher_Handle (production_cfg L opts) self now) rounds (p, m))))"
proof -
  have "snd (snd (Poller_Start (EppDataWatcher_Handle (production_cfg L opts) self now) rounds (p, m))) =
      snd (fold (\<lambda>(fetch, _). spec_round (EppDataWatcher_Handle (production_cfg L opts) self now) fetch) rounds (p_version p, m))"
    using arg_cong [OF refines_run [of "EppDataWatcher_Handle (production_cfg L opts) self now" rounds p m], of snd] by simp
  then show ?thesis using watcher.run_inv [of infl "(p_version p, m)"] assms by simp
qed

lemma watcher_run_keeps_invariant_example:
  "mgr_inv [] (snd (snd (Poller_Start (EppDataWatcher_Handle (production_cfg demo_llmd demo_opts) ''epp-0'' 5)
     [(\<lambda>_. Inr (True, ''v1'', demo_conf), 1), (\<lambda>_. Inl (ErrMsg ''down''), 2)]
     (Poller_New ''epp_data'' \<lparr>po_Interval = 0, po_Timeout = 0\<rparr>, demo_watcher))))"
  by (rule watcher_run_keeps_invariant [OF demo_watcher_ok(1)])

end
