(* ===== verification/Local_Source.thy ===== *)
theory Local_Source
  imports Cluster_Table Epp_Data
begin

text \<open>
  \<open>pkg/poller/local_source.go\<close>: the sources that read their data from files of a directory, and the round
  trips of the two formats: what the control plane writes into an answer or into a file is what the
  handlers receive. \<open>os.ReadFile\<close> is an argument.
\<close>

text \<open>A source is its path. \<open>LocalFileSource\<close> is generic: \<open>dec\<close> decodes its type parameter
  and \<open>zero\<close> is the zero value.\<close>

definition NewLocalFileSource :: "string \<Rightarrow> string \<Rightarrow> string" where
  "NewLocalFileSource dir filename = filepath_Join dir filename"

definition LocalFileSource_Fetch :: "(string \<Rightarrow> string result) \<Rightarrow> 'd decoder \<Rightarrow> 'd \<Rightarrow> string \<Rightarrow> 'd Source" where
  "LocalFileSource_Fetch ReadFile dec zero path _ =
     (case ReadFile path of
        Inl err \<Rightarrow> Inl (ErrWrap (''local source read '' @ path) err)
      | Inr raw \<Rightarrow>
          (case Unmarshal dec zero raw of
             Inl err \<Rightarrow> Inl (ErrWrap (''local source decode '' @ path) err)
           | Inr data \<Rightarrow> Inr (True, [], data)))"

definition NewLocalClusterTableSource :: "string \<Rightarrow> string \<Rightarrow> string" where
  "NewLocalClusterTableSource dir filename = filepath_Join dir filename"

definition localClusterTableSource_Fetch :: "(string \<Rightarrow> string result) \<Rightarrow> string \<Rightarrow> desired_table Source" where
  "localClusterTableSource_Fetch ReadFile path _ =
     (case ReadFile path of
        Inl err \<Rightarrow> Inl (ErrWrap (''local source read '' @ path) err)
      | Inr raw \<Rightarrow>
          (case Unmarshal dec_ClusterTableConfig [] raw of
             Inl err \<Rightarrow> Inl (ErrWrap (''local source decode '' @ path) err)
           | Inr table \<Rightarrow> Inr (True, [], ConvertClusterTableToEndpoints table)))"

section \<open>Round trips\<close>

text \<open>
  C29. The cluster table survives the wire, and both modes agree. A table the control plane writes
  into its answer comes out of the poller's source as exactly the endpoints of that table, with the
  version it was written with; the same table in a local file gives the same endpoints.
\<close>

theorem table_round_trip:
  assumes "table_ok table" and "utf8_valid ver"
    and "answers net client ClusterTablePath w (jraw (answer_tree ver (enc_ClusterTableConfig table)))"
    and "length (jraw (answer_tree ver (enc_ClusterTableConfig table))) \<le> body_limit"
    and "ReadFile path = Inr (jraw (enc_ClusterTableConfig table))"
  shows "ClusterDiscovery_Fetch net client w = Inr (True, ver, ConvertClusterTableToEndpoints table) \<and>
    localClusterTableSource_Fetch ReadFile path w' = Inr (True, [], ConvertClusterTableToEndpoints table)"
proof -
  have "Client_Get net dec_ClusterTableConfig [] client ClusterTablePath w = Inr (True, ver, table)"
    using get_answer [OF assms(3,4) enc_ClusterTableConfig_ok assms(2), of dec_ClusterTableConfig "[]"]
    by (simp add: dec_enc_ClusterTableConfig [OF assms(1)])
  moreover have "Unmarshal dec_ClusterTableConfig [] (jraw (enc_ClusterTableConfig table)) = Inr table"
    using enc_ClusterTableConfig_ok [of table]
    by (simp add: Unmarshal_text maxNestingDepth_def dec_enc_ClusterTableConfig [OF assms(1)])
  ultimately show ?thesis
    by (simp add: ClusterDiscovery_Fetch_def localClusterTableSource_Fetch_def assms(5))
qed

theorem table_round_trip_witness:
  "ClusterDiscovery_Fetch demo_net (NewClient ''http://api'' ''t'' 0) ''v0'' =
     Inr (True, ''v1'', ConvertClusterTableToEndpoints demo_table) \<and>
   localClusterTableSource_Fetch (\<lambda>_. Inr (jraw (enc_ClusterTableConfig demo_table))) ''cluster_table.json'' ''v0'' =
     Inr (True, [], ConvertClusterTableToEndpoints demo_table)"
  by (rule table_round_trip [OF demo_table_ok _ demo_answers demo_table_size]) simp_all

lemma fetched_snapshot:
  assumes "snapshot_ok conf" "utf8_valid ver"
    and "answers net client EppDataConfigPath w (jraw (answer_tree ver (enc_EppDataConfig conf)))"
    and "length (jraw (answer_tree ver (enc_EppDataConfig conf))) \<le> body_limit"
  shows "EppDataWatcher_Fetch net client w = Inr (True, ver, conf)"
  using get_answer [OF assms(3,4) enc_EppDataConfig_ok [OF assms(1)] assms(2), of dec_EppDataConfig zero_EppDataConfig]
  by (simp add: EppDataWatcher_Fetch_def dec_enc_EppDataConfig [OF assms(1)])

text \<open>
  C30. A snapshot survives the wire, byte for byte where bytes matter. A snapshot the control plane
  writes into its answer comes out of the poller's source as exactly that snapshot, with its
  version: the assignment of every cluster, missing instances as nil, and the text of every
  configuration unchanged, which is what the manager hashes. The same snapshot in a local file is
  read the same way.
\<close>

theorem snapshot_round_trip:
  assumes "snapshot_ok conf" and "utf8_valid ver"
    and "answers net client EppDataConfigPath w (jraw (answer_tree ver (enc_EppDataConfig conf)))"
    and "length (jraw (answer_tree ver (enc_EppDataConfig conf))) \<le> body_limit"
    and "ReadFile path = Inr (jraw (enc_EppDataConfig conf))"
  shows "EppDataWatcher_Fetch net client w = Inr (True, ver, conf) \<and>
    LocalFileSource_Fetch ReadFile dec_EppDataConfig zero_EppDataConfig path w' = Inr (True, [], conf)"
proof -
  have "Unmarshal dec_EppDataConfig zero_EppDataConfig (jraw (enc_EppDataConfig conf)) = Inr conf"
    using enc_EppDataConfig_ok [OF assms(1)]
    by (simp add: Unmarshal_text maxNestingDepth_def dec_enc_EppDataConfig [OF assms(1)])
  with fetched_snapshot [OF assms(1-4)] show ?thesis by (simp add: LocalFileSource_Fetch_def assms(5))
qed

definition wire_conf :: EppDataConfig where
  "wire_conf = \<lparr>ed_EppConfig = [(''c2'', ''[1, 2]''), (''c1'', ''{ }'')],
     ed_Assignment = [(''c1'', \<lparr>ae_Primary = Some ''epp-1'', ae_Standby = Some ''epp-0''\<rparr>),
       (''c2'', \<lparr>ae_Primary = Some ''epp-0'', ae_Standby = None\<rparr>)]\<rparr>"

definition wire_net :: http where
  "wire_net = \<lparr>NewRequest = (\<lambda>_. None),
     Do = (\<lambda>_. Inr \<lparr>rs_StatusCode = 200, rs_Body = Inr (jraw (answer_tree ''v7'' (enc_EppDataConfig wire_conf)))\<rparr>)\<rparr>"

lemma wire_raw: "raw_ok ''[1, 2]''" "raw_ok ''{ }''"
  by code_simp+

lemma wire_conf_ok: "snapshot_ok wire_conf"
  by (simp add: snapshot_ok_def wire_conf_def entry_ok_def wire_raw)

lemma wire_size: "length (jraw (answer_tree ''v7'' (enc_EppDataConfig wire_conf))) \<le> body_limit"
  by (simp add: text_size enc_EppDataConfig_def enc_AssignmentEntry_def enc_ptr_def enc_null_def wire_conf_def
      raw_tree [OF wire_raw(1)] raw_tree [OF wire_raw(2)])

lemma wire_answers: "answers wire_net c path w (jraw (answer_tree ''v7'' (enc_EppDataConfig wire_conf)))"
  by (simp add: answers_def wire_net_def)

theorem snapshot_round_trip_witness:
  "EppDataWatcher_Fetch wire_net (NewClient ''http://api'' ''t'' 0) ''v6'' = Inr (True, ''v7'', wire_conf) \<and>
   LocalFileSource_Fetch (\<lambda>_. Inr (jraw (enc_EppDataConfig wire_conf))) dec_EppDataConfig zero_EppDataConfig
     ''epp_data_config.json'' [] = Inr (True, [], wire_conf)"
  by (rule snapshot_round_trip [OF wire_conf_ok _ wire_answers wire_size]) simp_all

end
