(* ===== verification/Epp_Main.thy ===== *)
theory Epp_Main
  imports Demux Local_Source
begin

text \<open>
  \<open>cmd/epp\<close>: the process. Configuration from flags and environment, gRPC server options, the health
  service, the metrics server's routes, and the choice of the sources the two pollers read from. The environment, the parsed flags (\<open>None\<close>: not given), the host name, the
  TLS loader and the listener are arguments. Goroutines, signals and logging are not modelled here;
  the loops the process starts are those of the other theories.
\<close>

section \<open>Configuration\<close>

record Config =
  InstanceID :: string
  APIAddr :: string
  APIToken :: string
  PollInterval :: Duration
  PollTimeout :: Duration
  GRPCPort :: int
  HealthPort :: int
  MetricsPort :: int
  EnablePprof :: bool
  GRPCTLSCertFile :: string
  GRPCTLSKeyFile :: string
  BindAddress :: string
  DefaultPool :: string
  EngineDrainTimeout :: Duration
  PoolNamespace :: string
  RefreshMetricsInterval :: Duration
  AllowExperimentalPlugins :: bool
  LocalConfigDir :: string
  LogLevel :: string

definition logVerbosity :: "Config \<Rightarrow> int" where
  "logVerbosity c =
     (if LogLevel c = ''trace'' then 5 else if LogLevel c = ''debug'' then 2
      else if LogLevel c = ''info'' then 0 else 2)"

definition getenv :: "(string \<Rightarrow> string) \<Rightarrow> string \<Rightarrow> string \<Rightarrow> string" where
  "getenv Getenv key def = (let v = Getenv key in if v \<noteq> '''' then v else def)"

text \<open>The flags of the command line, by type.\<close>

record Flags =
  fl_string :: "string \<Rightarrow> string option"
  fl_duration :: "string \<Rightarrow> Duration option"
  fl_int :: "string \<Rightarrow> int option"
  fl_bool :: "string \<Rightarrow> bool option"

definition flag_or :: "'v option \<Rightarrow> 'v \<Rightarrow> 'v" where
  "flag_or given dflt = (case given of Some v \<Rightarrow> v | None \<Rightarrow> dflt)"

definition parseConfig :: "(string \<Rightarrow> string) \<Rightarrow> string result \<Rightarrow> Flags \<Rightarrow> Config" where
  "parseConfig Getenv Hostname fl =
     (let str = (\<lambda>name def. flag_or (fl_string fl name) def);
          dur = (\<lambda>name def. flag_or (fl_duration fl name) def);
          num = (\<lambda>name def. flag_or (fl_int fl name) def);
          flg = (\<lambda>name def. flag_or (fl_bool fl name) def);
          cfg = \<lparr>InstanceID = str ''instance-id'' (Getenv ''AI_GATEWAY_EPP_INSTANCE_ID''),
            APIAddr = str ''api-addr'' (getenv Getenv ''AI_GATEWAY_API_ADDR'' ''http://127.0.0.1:8181/inner-api/v1''),
            APIToken = str ''api-token'' (Getenv ''AI_GATEWAY_API_TOKEN''),
            PollInterval = dur ''poll-interval'' (5 * Second),
            PollTimeout = dur ''poll-timeout'' (3 * Second),
            GRPCPort = num ''grpc-port'' 9002, HealthPort = num ''health-port'' 9003,
            MetricsPort = num ''metrics-port'' 9090, EnablePprof = flg ''enable-pprof'' False,
            GRPCTLSCertFile = str ''grpc-tls-cert'' (Getenv ''AI_GATEWAY_EPP_TLS_CERT''),
            GRPCTLSKeyFile = str ''grpc-tls-key'' (Getenv ''AI_GATEWAY_EPP_TLS_KEY''),
            BindAddress = str ''bind-address'' '''', DefaultPool = str ''default-pool'' '''',
            EngineDrainTimeout = dur ''engine-drain-timeout'' (60 * Second),
            PoolNamespace = str ''pool-namespace'' (getenv Getenv ''NAMESPACE'' ''ai-gateway''),
            RefreshMetricsInterval = dur ''refresh-metrics-interval'' (50 * Millisecond),
            AllowExperimentalPlugins = flg ''allow-experimental-plugins'' False,
            LocalConfigDir = str ''local-config-dir'' (Getenv ''AI_GATEWAY_EPP_LOCAL_CONFIG_DIR''),
            LogLevel = str ''log-level'' (getenv Getenv ''AI_GATEWAY_EPP_LOG_LEVEL'' ''info'')\<rparr>
      in if InstanceID cfg = '''' then
           cfg\<lparr>InstanceID := (case Hostname of Inr h \<Rightarrow> h | Inl _ \<Rightarrow> ''epp'')\<rparr>
         else cfg)"

section \<open>Servers\<close>

text \<open>The options list is empty or holds the credentials.\<close>

definition serverOptions :: "(string \<Rightarrow> string \<Rightarrow> 'creds result) \<Rightarrow> Config \<Rightarrow> 'creds list result" where
  "serverOptions NewServerTLSFromFile cfg =
     (if GRPCTLSCertFile cfg = '''' \<and> GRPCTLSKeyFile cfg = '''' then Inr []
      else if GRPCTLSCertFile cfg = '''' \<or> GRPCTLSKeyFile cfg = '''' then
        Inl (ErrMsg ''grpc-tls-cert and grpc-tls-key must be set together'')
      else (case NewServerTLSFromFile (GRPCTLSCertFile cfg) (GRPCTLSKeyFile cfg) of
              Inl err \<Rightarrow> Inl (ErrWrap ''load gRPC TLS credentials'' err)
            | Inr creds \<Rightarrow> Inr [creds]))"

text \<open>\<open>serveGRPC\<close> listens, starts a goroutine that stops the server when the context ends, and serves: what it
  returns when listening fails, and what it makes of the result of \<open>Serve\<close>. Its goroutines are in \<open>Epp_Run\<close>.\<close>

definition serveGRPC_listen :: "(string \<Rightarrow> 'l result) \<Rightarrow> string \<Rightarrow> int \<Rightarrow> 'l result" where
  "serveGRPC_listen Listen bind port =
     (case Listen (JoinHostPort bind (Itoa port)) of
        Inl err \<Rightarrow> Inl (ErrWrap (''listen '' @ bind @ '':'' @ Itoa port) err)
      | Inr lis \<Rightarrow> Inr lis)"

definition serveGRPC_serve :: "unit result \<Rightarrow> int \<Rightarrow> unit result" where
  "serveGRPC_serve served port =
     (case served of Inl err \<Rightarrow> Inl (ErrWrap (''serve :'' @ Itoa port) err) | Inr _ \<Rightarrow> Inr ())"

section \<open>Health\<close>

datatype ServingStatus = SERVING | NOT_SERVING

record healthServer =
  hs_ready :: bool

definition setReady :: "bool \<Rightarrow> healthServer \<Rightarrow> healthServer" where
  "setReady v h = h\<lparr>hs_ready := v\<rparr>"

definition health_Check :: "string \<Rightarrow> healthServer \<Rightarrow> ServingStatus result" where
  "health_Check service h =
     (if service = ''liveness'' then Inr SERVING
      else if hs_ready h then Inr SERVING else Inr NOT_SERVING)"

definition health_Watch :: "healthServer \<Rightarrow> unit result" where
  "health_Watch h = Inl (ErrStatus CodeUnimplemented ''watch is not supported'')"

section \<open>The metrics server\<close>

datatype http_reply = MetricsPage | RedirectTo string | NotFound

text \<open>\<open>ServeMux\<close> on clean paths: a pattern that ends in a slash matches the whole subtree, and the path
  without the slash is redirected to it.\<close>

definition metricsMux :: "Config \<Rightarrow> string \<Rightarrow> http_reply" where
  "metricsMux cfg path =
     (if path = ''/metrics'' then MetricsPage
      else if EnablePprof cfg \<and> (take 13 path = ''/debug/pprof/'' \<or> path = ''/debug/pprof'') then RedirectTo ''/debug/pprof/''
      else NotFound)"

section \<open>Composition\<close>

text \<open>The sources of the two pollers: files of the local directory, or the control plane.\<close>

definition discoverySrc :: "Config \<Rightarrow> (string \<Rightarrow> string result) \<Rightarrow> http \<Rightarrow> desired_table Source" where
  "discoverySrc cfg ReadFile net =
     (if LocalConfigDir cfg \<noteq> [] then
        localClusterTableSource_Fetch ReadFile (NewLocalClusterTableSource (LocalConfigDir cfg) ''cluster_table.json'')
      else ClusterDiscovery_Fetch net (NewClient (APIAddr cfg) (APIToken cfg) (PollTimeout cfg)))"

definition eppDataSrc :: "Config \<Rightarrow> (string \<Rightarrow> string result) \<Rightarrow> http \<Rightarrow> EppDataConfig Source" where
  "eppDataSrc cfg ReadFile net =
     (if LocalConfigDir cfg \<noteq> [] then
        LocalFileSource_Fetch ReadFile dec_EppDataConfig zero_EppDataConfig
          (NewLocalFileSource (LocalConfigDir cfg) ''epp_data_config.json'')
      else EppDataWatcher_Fetch net (NewClient (APIAddr cfg) (APIToken cfg) (PollTimeout cfg)))"

definition assigned_to_cell :: "'a Manager_scheme \<Rightarrow> string \<Rightarrow> bool" where
  "assigned_to_cell m cluster \<longleftrightarrow> Manager_Get cluster m \<noteq> None"

definition manager_options :: "Config \<Rightarrow> Options" where
  "manager_options cfg = \<lparr>opt_AllowExperimentalPlugins = AllowExperimentalPlugins cfg,
     opt_DrainTimeout = EngineDrainTimeout cfg, opt_DrainWorkers = 0, opt_Compile = None, opt_NewCell = None\<rparr>"

section \<open>Properties\<close>

text \<open>
  Every instance has a name, and the command line decides. Unless the host reports an empty
  name, the instance ID is not empty; a given non-empty flag wins, then the environment, then the
  host name, then a fixed name. The API token follows the same order of flag before environment.
\<close>

lemma instance_id_resolved:
  assumes "Hostname \<noteq> Inr ''''"
  shows "InstanceID (parseConfig Getenv Hostname fl) \<noteq> '''' \<and>
    InstanceID (parseConfig Getenv Hostname fl) =
      (case filter (\<lambda>v. v \<noteq> '''') [flag_or (fl_string fl ''instance-id'') (Getenv ''AI_GATEWAY_EPP_INSTANCE_ID''),
          (case Hostname of Inr h \<Rightarrow> h | Inl _ \<Rightarrow> ''epp'')] of [] \<Rightarrow> '''' | v # _ \<Rightarrow> v) \<and>
    (\<forall>tok. fl_string fl ''api-token'' = Some tok \<longrightarrow> APIToken (parseConfig Getenv Hostname fl) = tok)"
  using assms by (auto simp: parseConfig_def Let_def flag_or_def split: sum.splits option.splits)

lemma instance_id_resolved_example:
  "InstanceID (parseConfig (\<lambda>_. '''') (Inr ''host-7'') \<lparr>fl_string = (\<lambda>_. None), fl_duration = (\<lambda>_. None),
     fl_int = (\<lambda>_. None), fl_bool = (\<lambda>_. None)\<rparr>) = ''host-7''"
  using instance_id_resolved [of "Inr ''host-7''" "\<lambda>_. ''''" "\<lparr>fl_string = (\<lambda>_. None), fl_duration = (\<lambda>_. None),
     fl_int = (\<lambda>_. None), fl_bool = (\<lambda>_. None)\<rparr>"]
  by (simp add: flag_or_def)

fun follow :: "(string \<Rightarrow> http_reply) \<Rightarrow> nat \<Rightarrow> string \<Rightarrow> http_reply" where
  "follow serve 0 path = serve path"
| "follow serve (Suc n) path = (case serve path of RedirectTo p \<Rightarrow> follow serve n p | r \<Rightarrow> r)"

text \<open>
  The profiling pages are unreachable. With profiling enabled, every path below
  \<open>/debug/pprof/\<close> is answered with a redirect to \<open>/debug/pprof/\<close>, which is answered with the same
  redirect: a client that follows redirects, however long, never gets a page.
\<close>

lemma pprof_redirects_to_itself:
  assumes "EnablePprof cfg" and "take 13 path = ''/debug/pprof/''"
  shows "follow (metricsMux cfg) n path = RedirectTo ''/debug/pprof/''"
  using assms(2)
proof (induction n arbitrary: path)
  case 0
  then show ?case using assms(1) by (auto simp: metricsMux_def)
next
  case (Suc n)
  then have "metricsMux cfg path = RedirectTo ''/debug/pprof/''" using assms(1) by (auto simp: metricsMux_def)
  with Suc.IH [of "''/debug/pprof/''"] show ?case by simp
qed


lemma pprof_redirects_to_itself_example:
  "follow (metricsMux (parseConfig (\<lambda>_. '''') (Inr ''h'') \<lparr>fl_string = (\<lambda>_. None), fl_duration = (\<lambda>_. None),
     fl_int = (\<lambda>_. None), fl_bool = (\<lambda>_. Some True)\<rparr>)) 10 ''/debug/pprof/heap'' = RedirectTo ''/debug/pprof/''"
  by (rule pprof_redirects_to_itself) (simp_all add: parseConfig_def flag_or_def)

end
