(* ===== verification/Epp_Plugins.thy ===== *)
theory Epp_Plugins
  imports Cluster_Plugin
begin

text \<open>
  \<open>cmd/epp/plugins.go\<close>: what the process registers with the engine library at start-up. The library's
  registries are not part of the program; the model is the sequence of calls made on them, in order.
  The library's constants (type names, stability level, data keys, the feature gate) are values of the parameter
  \<open>lib\<close>, looked up by their qualified Go names, and its factories are named the same way. The one
  plugin of the program itself is the cluster-table discovery, whose factory holds a reference to the hub.
\<close>

datatype 'h factory = LibFactory string | ClusterTableFactory 'h

datatype 'h registration =
    RegisterFeatureGate (gate_name: string) (gate_default: bool)
  | Register (reg_type: string) (reg_stability: string) (reg_factory: "'h factory")
  | RegisterAsDefaultProducer (reg_type: string) (reg_stability: string) (reg_factory: "'h factory") (reg_key: string)

text \<open>The calls for the library's plugins, one row each: type name, factory and, for a default producer,
  its data key.\<close>

definition library_plugins :: "(string \<times> string \<times> string option) list" where
  "library_plugins =
     [(''utilizationfilter.UtilizationFilterType'', ''utilizationfilter.Factory'', None),
      (''prefix.PrefixCacheScorerPluginType'', ''prefix.PrefixCachePluginFactory'', None),
      (''kvcacheutilization.KvCacheUtilizationScorerType'', ''kvcacheutilization.KvCacheUtilizationScorerFactory'', None),
      (''queuedepth.QueueScorerType'', ''queuedepth.QueueScorerFactory'', None),
      (''runningrequests.RunningRequestsSizeScorerType'', ''runningrequests.RunningRequestsSizeScorerFactory'', None),
      (''loadaware.LoadAwareType'', ''loadaware.Factory'', None),
      (''sessionaffinityscorer.SessionAffinityType'', ''sessionaffinityscorer.Factory'', None),
      (''maxscore.MaxScorePickerType'', ''maxscore.MaxScorePickerFactory'', None),
      (''random.RandomPickerType'', ''random.RandomPickerFactory'', None),
      (''weightedrandom.WeightedRandomPickerType'', ''weightedrandom.WeightedRandomPickerFactory'', None),
      (''single.SingleProfileHandlerType'', ''single.SingleProfileHandlerFactory'', None),
      (''globalstrict.GlobalStrictFairnessPolicyType'', ''globalstrict.GlobalStrictFairnessPolicyFactory'', None),
      (''roundrobin.RoundRobinFairnessPolicyType'', ''roundrobin.RoundRobinFairnessPolicyFactory'', None),
      (''fcfs.FCFSOrderingPolicyType'', ''fcfs.FCFSOrderingPolicyFactory'', None),
      (''edf.EDFOrderingPolicyType'', ''edf.EDFOrderingPolicyFactory'', None),
      (''slodeadline.SLODeadlineOrderingPolicyType'', ''slodeadline.SLODeadlineOrderingPolicyFactory'', None),
      (''usagelimits.StaticUsageLimitPolicyType'', ''usagelimits.StaticPolicyFactory'', None),
      (''concurrency.ConcurrencyDetectorType'', ''concurrency.ConcurrencyDetectorFactory'', None),
      (''utilizationdetector.UtilizationDetectorType'', ''utilizationdetector.UtilizationDetectorFactory'', None),
      (''approximateprefix.ApproxPrefixCachePluginType'', ''approximateprefix.ApproxPrefixCacheFactory'', Some ''attrprefix.PrefixCacheMatchInfoDataKey''),
      (''inflightload.InFlightLoadProducerType'', ''inflightload.InFlightLoadProducerFactory'', Some ''attrconcurrency.InFlightLoadDataKey''),
      (''tokenizer.PluginType'', ''tokenizer.PluginFactory'', Some ''tokenizer.TokenizedPromptDataKey''),
      (''openai.OpenAIParserType'', ''openai.OpenAIParserPluginFactory'', None),
      (''passthrough.PassthroughParserType'', ''passthrough.PassthroughParserPluginFactory'', None),
      (''vllmhttp.VllmHTTPParserType'', ''vllmhttp.VllmHTTPParserPluginFactory'', None),
      (''sourcemetrics.MetricsDataSourceType'', ''sourcemetrics.MetricsDataSourceFactory'', None),
      (''extractormetrics.MetricsExtractorType'', ''extractormetrics.CoreMetricsExtractorFactory'', None)]"

definition register_row :: "(string \<Rightarrow> string) \<Rightarrow> string \<times> string \<times> string option \<Rightarrow> 'h registration" where
  "register_row lib row =
     (case row of (ty, fac, key) \<Rightarrow>
        (case key of
           None \<Rightarrow> Register (lib ty) (lib ''fwkplugin.StabilityBeta'') (LibFactory fac)
         | Some k \<Rightarrow> RegisterAsDefaultProducer (lib ty) (lib ''fwkplugin.StabilityBeta'') (LibFactory fac) (lib k)))"

definition registerPlugins :: "(string \<Rightarrow> string) \<Rightarrow> 'h \<Rightarrow> 'h registration list" where
  "registerPlugins lib hub =
     RegisterFeatureGate (lib ''flowcontrol.FeatureGate'') False # map (register_row lib) library_plugins @
     [Register PluginType (lib ''fwkplugin.StabilityBeta'') (ClusterTableFactory hub)]"

section \<open>Properties\<close>

definition is_plugin :: "'h registration \<Rightarrow> bool" where
  "is_plugin r \<longleftrightarrow> (case r of RegisterFeatureGate _ _ \<Rightarrow> False | _ \<Rightarrow> True)"

lemma is_plugin_simps [simp]: "is_plugin (Register a b c)" "\<not> is_plugin (RegisterFeatureGate d e)"
  by (simp_all add: is_plugin_def)

definition plugin_types :: "'h registration list \<Rightarrow> string list" where
  "plugin_types rs = map reg_type (filter is_plugin rs)"

text \<open>The qualified names of the library's type constants that are used.\<close>

definition type_symbols :: "string list" where
  "type_symbols = map fst library_plugins"

lemma register_row_facts [simp]:
  "is_plugin (register_row lib row)" "reg_type (register_row lib row) = lib (fst row)"
  "reg_stability (register_row lib row) = lib ''fwkplugin.StabilityBeta''"
  by (cases row; cases "snd (snd row)"; simp add: register_row_def is_plugin_def)+

lemma plugins_filter [simp]: "filter is_plugin (registerPlugins lib hub) = tl (registerPlugins lib hub)"
proof -
  have "filter is_plugin (map (register_row lib) library_plugins) = map (register_row lib) library_plugins"
    by (rule filter_True) auto
  then show ?thesis by (simp add: registerPlugins_def)
qed

lemma plugin_types_eq: "plugin_types (registerPlugins lib hub) = map lib type_symbols @ [PluginType]"
  by (simp add: plugin_types_def plugins_filter type_symbols_def) (simp add: registerPlugins_def)

text \<open>
  The engine compiler can find every plugin, and finds the right discovery. If the library's
  type names are pairwise different and none is the name of the program's own plugin, then no
  registration replaces another, the type \<open>cluster-table-discovery\<close> is registered exactly once, with
  the factory that holds the hub the poller fills, and all plugins are registered with the same
  stability, so that none depends on experimental plugins being allowed more than the others.
\<close>

lemma discovery_plugin_registered:
  fixes hub :: 'h
  assumes "distinct (map lib type_symbols)" and "PluginType \<notin> lib ` set type_symbols"
  shows "distinct (plugin_types (registerPlugins lib hub)) \<and>
    filter (\<lambda>r. is_plugin r \<and> reg_type r = PluginType) (registerPlugins lib hub) =
      [Register PluginType (lib ''fwkplugin.StabilityBeta'') (ClusterTableFactory hub)] \<and>
    (\<forall>r \<in> set (filter is_plugin (registerPlugins lib hub)). reg_stability r = lib ''fwkplugin.StabilityBeta'')"
proof (intro conjI)
  show "distinct (plugin_types (registerPlugins lib hub))"
    using assms by (auto simp: plugin_types_eq)
  have "reg_type r \<noteq> PluginType" if "r \<in> set (map (register_row lib) library_plugins)" for r :: "'h registration"
    using that assms(2) by (force simp: type_symbols_def)
  then have "filter (\<lambda>r. is_plugin r \<and> reg_type r = PluginType) (map (register_row lib) library_plugins) =
      ([] :: 'h registration list)"
    by (simp add: filter_empty_conv)
  then show "filter (\<lambda>r. is_plugin r \<and> reg_type r = PluginType) (registerPlugins lib hub) =
      [Register PluginType (lib ''fwkplugin.StabilityBeta'') (ClusterTableFactory hub)]"
    by (simp add: registerPlugins_def)
  show "\<forall>r \<in> set (filter is_plugin (registerPlugins lib hub)). reg_stability r = lib ''fwkplugin.StabilityBeta''"
    unfolding plugins_filter by (auto simp: registerPlugins_def)
qed

lemma discovery_plugin_registered_example:
  "filter (\<lambda>r. is_plugin r \<and> reg_type r = PluginType) (registerPlugins id (7 :: nat)) =
     [Register PluginType ''fwkplugin.StabilityBeta'' (ClusterTableFactory 7)]"
proof -
  have "distinct (map id type_symbols)" "PluginType \<notin> id ` set type_symbols" by code_simp+
  from discovery_plugin_registered [OF this, of "7 :: nat"] show ?thesis by simp
qed

end
