(* ===== verification/Engine_Lifecycle.thy ===== *)
theory Engine_Lifecycle
  imports Manager_Contracts
begin

text \<open>
  The concurrent system of \<open>pkg/cell\<close> and the request path: the watcher's operations on the manager,
  the drain workers (\<open>manager.go\<close>), the goroutines of an engine (\<open>engine.go\<close>) and any number of
  requests (\<open>server.go\<close>, \<open>Cell.Track\<close>) as one step relation.

  A request is a sequence of atomic accesses (load the registry, load the engine, load the role,
  add to the wait group, load the engine again, release); a drain is its cancellation, the wait and
  its completion; a \<open>markReady\<close> outside the watcher closes the channel, loads the state and stores it.
  Every other goroutine can run between any two of them. The manager's own operations are single
  steps: a request reads only the registry, the engine pointer and the role, \<open>markReady\<close> only the state,
  and each of those operations writes each of the four at most once, so an access in the middle of
  the operation sees what it would see before or after it.
\<close>

section \<open>How the operations change the store\<close>

text \<open>A state never goes back to creating. It leaves draining only by the store of a \<open>markReady\<close> that loaded
  the state before the cell was dropped.\<close>

definition state_step :: "State \<Rightarrow> State \<Rightarrow> bool" where
  "state_step s s' \<longleftrightarrow> s' = s \<or> s' \<noteq> StateCreating"

definition stays_draining :: "Cell \<Rightarrow> bool" where
  "stays_draining x \<longleftrightarrow> c_state x = StateDraining \<and> c_readyOnce x \<noteq> BeforeStore"

lemma state_step_refl [simp]: "state_step s s"
  by (simp add: state_step_def)

lemma state_step_trans: "state_step a b \<Longrightarrow> state_step b c \<Longrightarrow> state_step a c"
  by (auto simp: state_step_def)

text \<open>A cell keeps its key, stays closed, and its engine pointer only moves to engines made later
  than the bound \<open>n\<close>.\<close>

definition cell_evolves :: "nat \<Rightarrow> Cell \<Rightarrow> Cell \<Rightarrow> bool" where
  "cell_evolves n x x' \<longleftrightarrow> c_Key x' = c_Key x \<and> (c_closed x \<longrightarrow> c_closed x') \<and> (c_ready x \<longrightarrow> c_ready x') \<and>
     state_step (c_state x) (c_state x') \<and> (stays_draining x \<longrightarrow> stays_draining x') \<and> (role_state_ok x \<longrightarrow> role_state_ok x') \<and>
     (c_engine x' = c_engine x \<or> (\<exists>e \<ge> n. c_engine x' = Some e))"

definition evolves :: "'a Manager_scheme \<Rightarrow> 'a Manager_scheme \<Rightarrow> bool" where
  "evolves m m' \<longleftrightarrow> m_nextCell m \<le> m_nextCell m' \<and> m_nextEngine m \<le> m_nextEngine m' \<and>
     (\<forall>e < m_nextEngine m. eng_wg (st_engines m' e) = eng_wg (st_engines m e) \<and>
        eng_parent (st_engines m' e) = eng_parent (st_engines m e) \<and>
        (eng_cancelled (st_engines m e) \<longrightarrow> eng_cancelled (st_engines m' e))) \<and>
     (\<forall>e. m_nextEngine m \<le> e \<longrightarrow> e < m_nextEngine m' \<longrightarrow> eng_wg (st_engines m' e) = 0) \<and>
     (\<forall>c < m_nextCell m. cell_evolves (m_nextEngine m) (st_cells m c) (st_cells m' c)) \<and>
     (\<forall>c. m_nextCell m \<le> c \<longrightarrow> c < m_nextCell m' \<longrightarrow> role_state_ok (st_cells m' c))"

lemma cell_evolves_refl [simp]: "cell_evolves n x x"
  by (simp add: cell_evolves_def)

lemma cell_evolves_trans:
  "cell_evolves n x y \<Longrightarrow> cell_evolves n' y z \<Longrightarrow> n \<le> n' \<Longrightarrow> cell_evolves n x z"
proof -
  assume a: "cell_evolves n x y" "cell_evolves n' y z" "n \<le> n'"
  then have "state_step (c_state x) (c_state z)"
    unfolding cell_evolves_def by (blast intro: state_step_trans)
  moreover have "c_engine z = c_engine x \<or> (\<exists>e \<ge> n. c_engine z = Some e)"
    using a unfolding cell_evolves_def by (elim conjE disjE exE) (auto intro: order_trans)
  ultimately show ?thesis using a by (simp add: cell_evolves_def)
qed

lemma evolves_refl [simp]: "evolves m m"
  by (simp add: evolves_def)

text \<open>Operations that allocate nothing and touch the engines only by cancelling.\<close>

lemma evolvesI:
  assumes "m_nextCell m' = m_nextCell m" "m_nextEngine m' = m_nextEngine m"
    and "\<And>e. eng_wg (st_engines m' e) = eng_wg (st_engines m e) \<and>
           eng_parent (st_engines m' e) = eng_parent (st_engines m e) \<and>
           (eng_cancelled (st_engines m e) \<longrightarrow> eng_cancelled (st_engines m' e))"
    and "\<And>c. cell_evolves (m_nextEngine m) (st_cells m c) (st_cells m' c)"
  shows "evolves m m'"
  using assms by (simp add: evolves_def)

lemma evolves_scheduleDrain: "evolves m (scheduleDrain c e td m)"
proof (rule evolvesI)
  show "cell_evolves (m_nextEngine m) (st_cells m d) (st_cells (scheduleDrain c e td m) d)" for d
    by (cases rule: scheduleDrain_cases [of m c e td])
      (auto simp: Manager_drain_def cell_evolves_def role_state_ok_def stays_draining_def)
qed (simp_all add: scheduleDrain_engine)

lemma evolves_Promote: "evolves m (Manager_Promote key m)"
proof (cases "Manager_Get key m")
  case (Some c)
  show ?thesis
  proof (rule evolvesI)
    show "cell_evolves (m_nextEngine m) (st_cells m d) (st_cells (Manager_Promote key m) d)" for d
      by (simp add: Promote_cells [OF Some] cell_evolves_def role_state_ok_def state_step_def stays_draining_def)
  qed (use Some in \<open>auto simp: Manager_Promote_def Let_def\<close>)
qed (simp add: Manager_Promote_def)

lemma Demote_engines:
  "eng_wg (st_engines (Manager_Demote key m) e) = eng_wg (st_engines m e) \<and>
   eng_parent (st_engines (Manager_Demote key m) e) = eng_parent (st_engines m e) \<and>
   (eng_cancelled (st_engines m e) \<longrightarrow> eng_cancelled (st_engines (Manager_Demote key m) e))"
  by (auto simp: Manager_Demote_def Let_def scheduleDrain_engine split: option.split)

lemma evolves_Demote: "evolves m (Manager_Demote key m)"
proof (cases "Manager_Get key m")
  case (Some c)
  show ?thesis
  proof (rule evolvesI)
    show "cell_evolves (m_nextEngine m) (st_cells m d) (st_cells (Manager_Demote key m) d)" for d
      by (simp add: Demote_cells [OF Some] cell_evolves_def role_state_ok_def state_step_def stays_draining_def)
  qed (rule Demote_engines | use Some in \<open>simp add: Manager_Demote_def Let_def split: option.split\<close>)+
qed (simp add: Manager_Demote_def)

lemma evolves_trans:
  assumes "evolves a b" "evolves b c"
  shows "evolves a c"
proof -
  have n: "m_nextCell a \<le> m_nextCell b" "m_nextCell b \<le> m_nextCell c"
    "m_nextEngine a \<le> m_nextEngine b" "m_nextEngine b \<le> m_nextEngine c"
    using assms by (simp_all add: evolves_def)
  have "cell_evolves (m_nextEngine a) (st_cells a d) (st_cells c d)" if "d < m_nextCell a" for d
    by (rule cell_evolves_trans [where y = "st_cells b d" and n' = "m_nextEngine b"])
      (use assms that n in \<open>simp_all add: evolves_def\<close>)
  moreover have "role_state_ok (st_cells c d)" if "m_nextCell a \<le> d" "d < m_nextCell c" for d
  proof (cases "d < m_nextCell b")
    case True
    with that assms have "role_state_ok (st_cells b d)" "cell_evolves (m_nextEngine b) (st_cells b d) (st_cells c d)"
      by (simp_all add: evolves_def)
    then show ?thesis by (simp add: cell_evolves_def)
  qed (use assms that in \<open>simp add: evolves_def\<close>)
  moreover have "eng_wg (st_engines c e) = 0" if "m_nextEngine a \<le> e" "e < m_nextEngine c" for e
    using assms that by (cases "e < m_nextEngine b") (simp_all add: evolves_def)
  ultimately show ?thesis
    using assms n unfolding evolves_def by (auto intro: order_trans less_le_trans)
qed


lemma evolves_setDraining: "evolves m (Cell_setState c StateDraining m)"
  by (rule evolvesI) (auto simp: cell_evolves_def role_state_ok_def state_step_def stays_draining_def)

lemma evolves_Close: "evolves m (Cell_Close c m)"
  by (rule evolvesI) (auto simp: cell_evolves_def role_state_ok_def stays_draining_def)

lemma evolves_registry: "evolves m (m\<lparr>m_cells := cells\<rparr>)"
  by (rule evolvesI) simp_all

lemma evolves_Drop: "evolves m (Manager_Drop key m)"
proof (cases "Manager_Get key m")
  case (Some c)
  show ?thesis
  proof (cases "c_engine (st_cells m c)")
    case None
    with Some show ?thesis
      using evolves_trans [OF evolves_trans [OF evolves_setDraining evolves_Close] evolves_registry]
      by (simp add: Manager_Drop_def Cell_Engine_def Let_def)
  next
    case (Some e)
    with \<open>Manager_Get key m = Some c\<close> show ?thesis
      using evolves_trans [OF evolves_setDraining evolves_scheduleDrain]
      by (simp add: Manager_Drop_def Cell_Engine_def Let_def)
  qed
qed (simp add: Manager_Drop_def)

lemma evolves_Ensure_role: "evolves m (Ensure_role c key role m)"
proof -
  have "evolves m (Cell_setRole c RoleStandby m)" if "c_role (st_cells m c) = RoleNone"
    by (rule evolvesI) (use that in \<open>auto simp: cell_evolves_def role_state_ok_def stays_draining_def\<close>)
  then show ?thesis
    by (simp add: Ensure_role_def Cell_Role_def evolves_Promote evolves_Demote)
qed

lemma evolves_create: "evolves m (snd (Ensure_create (production_cfg L opts) key m))"
  by (auto simp: Ensure_create_def defaultNewCell_def Let_def case_prod_unfold evolves_def
      role_state_ok_def less_Suc_eq)

lemma evolves_Ensure: "evolves m (snd (Manager_Ensure (production_cfg L opts) key role m))"
proof (cases "Manager_Get key m")
  case None
  obtain r m1 where c: "Ensure_create (production_cfg L opts) key m = (r, m1)" by fastforce
  have "evolves m m1" using evolves_create [of m L opts key] c by simp
  then show ?thesis
    using None c evolves_trans [OF _ evolves_Ensure_role] by (auto simp: Manager_Ensure_def split: sum.split)
qed (simp add: Manager_Ensure_def evolves_Ensure_role)

lemma evolves_markReady: "evolves m (Cell_markReady c now m)"
  by (rule evolvesI) (auto simp: cell_evolves_def role_state_ok_def state_step_def stays_draining_def)

lemma evolves_markReady_step:
  "evolves m (markReady_close c now m)" "evolves m (markReady_load c m)" "evolves m (markReady_store c m)"
  by (rule evolvesI; auto simp: cell_evolves_def role_state_ok_def state_step_def stays_draining_def)+

lemma evolves_await: "evolves m (Engine_await_ready e c now m)"
  by (simp add: Engine_await_ready_def evolves_markReady_step)

lemma discovery_round_fields:
  fixes m :: "'a Manager_scheme"
  shows "m_cells (Engine_discovery_round Equal h e i c m) = m_cells m"
    "m_drainCh (Engine_discovery_round Equal h e i c m) = m_drainCh m"
    "m_nextCell (Engine_discovery_round Equal h e i c m) = m_nextCell m"
    "m_nextEngine (Engine_discovery_round Equal h e i c m) = m_nextEngine m"
    "\<exists>ds. st_cells (Engine_discovery_round Equal h e i c m) d = (st_cells m d)\<lparr>c_ds := ds\<rparr>"
    "\<exists>ds. st_engines (Engine_discovery_round Equal h e i c m) x = (st_engines m x)\<lparr>eng_discovery := ds\<rparr>"
proof -
  show "\<exists>ds. st_cells (Engine_discovery_round Equal h e i c m) d = (st_cells m d)\<lparr>c_ds := ds\<rparr>"
    by (auto simp: Engine_discovery_round_def Let_def case_prod_unfold
        intro: exI [of _ "c_ds (st_cells m d)"])
  show "\<exists>ds. st_engines (Engine_discovery_round Equal h e i c m) x = (st_engines m x)\<lparr>eng_discovery := ds\<rparr>"
    by (auto simp: Engine_discovery_round_def Let_def case_prod_unfold
        intro: exI [of _ "eng_discovery (st_engines m x)"])
qed (simp_all add: Engine_discovery_round_def Let_def case_prod_unfold)

lemma discovery_round_views:
  fixes m :: "'a Manager_scheme"
  shows "cell_view (st_cells (Engine_discovery_round Equal h e i c m) d) = cell_view (st_cells m d)"
    "eng_view (st_engines (Engine_discovery_round Equal h e i c m) x) = eng_view (st_engines m x)"
    "eng_wg (st_engines (Engine_discovery_round Equal h e i c m) x) = eng_wg (st_engines m x)"
    "cell_evolves n (st_cells m d) (st_cells (Engine_discovery_round Equal h e i c m) d)"
  using discovery_round_fields(5) [of Equal h e i c m d] discovery_round_fields(6) [of Equal h e i c m x]
  by (auto simp: cell_view_def eng_view_def cell_evolves_def role_state_ok_def stays_draining_def)

lemma await_inv [keeps]: "mgr_inv infl m \<Longrightarrow> mgr_inv infl (Engine_await_ready e c now m)"
  by (simp add: Engine_await_ready_def keeps)

lemma discovery_round_inv [keeps]: "mgr_inv infl m \<Longrightarrow> mgr_inv infl (Engine_discovery_round Equal h e i c m)"
  by (erule mgr_inv_cong) (simp_all add: discovery_round_fields discovery_round_views)

lemma evolves_discovery_round: "evolves m (Engine_discovery_round Equal h e i c m)"
proof (rule evolvesI)
  show "eng_wg (st_engines (Engine_discovery_round Equal h e i c m) x) = eng_wg (st_engines m x) \<and>
      eng_parent (st_engines (Engine_discovery_round Equal h e i c m) x) = eng_parent (st_engines m x) \<and>
      (eng_cancelled (st_engines m x) \<longrightarrow> eng_cancelled (st_engines (Engine_discovery_round Equal h e i c m) x))" for x
    using eng_viewD [OF discovery_round_views(2) [of Equal h e i c m x]] discovery_round_views(3) by simp
qed (simp_all add: discovery_round_fields discovery_round_views)

lemma evolves_drain_begin: "evolves m (Manager_drain_begin t (m\<lparr>m_drainCh := q\<rparr>))"
  by (rule evolvesI) auto

lemma evolves_drain_end: "evolves m (Manager_drain_end t m)"
  by (rule evolvesI) (auto simp: cell_evolves_def role_state_ok_def stays_draining_def)

lemma evolves_start: "evolves m (Engine_start e c now m)"
  by (rule evolvesI) (auto simp: cell_evolves_def role_state_ok_def state_step_def stays_draining_def)

lemma evolves_ApplyConfig:
  assumes "mgr_inv infl m"
  shows "evolves m (snd (Manager_ApplyConfig (production_cfg L opts) key raw now m))"
proof (cases "\<exists>c. Manager_Get key m = Some c \<and> c_state (st_cells m c) \<noteq> StateDraining \<and>
    c_currentHash (st_cells m c) \<noteq> Some (HashConfig raw)")
  case False
  then show ?thesis
    by (auto simp: Manager_ApplyConfig_def Cell_State_def Let_def split: option.split)
next
  case True
  then obtain c where c: "Manager_Get key m = Some c" "c_state (st_cells m c) \<noteq> StateDraining"
    "c_currentHash (st_cells m c) \<noteq> Some (HashConfig raw)" by blast
  have same: "same_but_runtime (st_cells m c) (snd (mc_compile (production_cfg L opts) c key raw (st_cells m c)))"
    by (rule prod.compile_same)
  from c show ?thesis
  proof (cases rule: ApplyConfig_branches [where cfg = "production_cfg L opts" and now = now])
    case (failed err x)
    have "evolves m (upd_metrics (count_reload key ''invalid'') (upd_cell c (\<lambda>_. x) m))"
      using same failed(1) same_but_runtimeD [of "st_cells m c" x]
      by (intro evolvesI) (auto simp: cell_evolves_def role_state_ok_def stays_draining_def)
    with failed(2) show ?thesis by simp
  next
    case (swapped eng x m4)
    have wg: "eng_wg eng = 0"
      using prod.compile_engine [of L opts c key raw "st_cells m c" eng] swapped(1) by simp
    have "evolves m (upd_metrics (\<lambda>y. set_current_version key (eng_Version eng) (count_reload key ''success'' y))
           (upd_cell c (\<lambda>_. x\<lparr>c_engine := Some (m_nextEngine m), c_currentHash := Some (HashConfig raw)\<rparr>)
             (m\<lparr>st_engines := (st_engines m)(m_nextEngine m := eng), m_nextEngine := Suc (m_nextEngine m)\<rparr>)))"
      using same swapped(1) same_but_runtimeD [of "st_cells m c" x] wg
      by (auto simp: evolves_def cell_evolves_def role_state_ok_def stays_draining_def less_Suc_eq)
    from evolves_trans [OF this evolves_start] swapped(2) have "evolves m m4" by simp
    then show ?thesis
      using swapped(3) evolves_trans [OF _ evolves_scheduleDrain] by (auto split: option.split)
  qed
qed


lemma truncate_fields:
  assumes "Manager.truncate m' = Manager.truncate m"
  shows "st_cells m' = st_cells m" "st_engines m' = st_engines m" "m_cells m' = m_cells m"
    "m_drainCh m' = m_drainCh m" "m_nextCell m' = m_nextCell m" "m_nextEngine m' = m_nextEngine m"
  using assms by (simp_all add: Manager.truncate_def)

lemma evolves_truncate: "Manager.truncate m' = Manager.truncate m \<Longrightarrow> evolves m m'"
  by (rule evolvesI) (auto dest: truncate_fields)

lemma truncate_inv: "Manager.truncate m' = Manager.truncate m \<Longrightarrow> mgr_inv infl m \<Longrightarrow> mgr_inv infl m'"
  by (erule mgr_inv_cong) (auto dest: truncate_fields)

section \<open>The system\<close>

text \<open>Where a request is: before routing, with its cell, with the engine it loaded, after the role
  check, after the increment of the wait group, being served, finished (served or refused).\<close>

datatype req_pc = ReqStart | ReqRouted nat | ReqLoaded nat nat | ReqChecked nat nat
  | ReqAdded nat nat | ReqServing nat nat | ReqDone

inductive req_step :: "req_pc \<times> 'a Manager_scheme \<Rightarrow> req_pc \<times> 'a Manager_scheme \<Rightarrow> bool" where
  routed: "Manager_Get pool m = Some c \<Longrightarrow> req_step (ReqStart, m) (ReqRouted c, m)"
| unknown_pool: "Manager_Get pool m = None \<Longrightarrow> req_step (ReqStart, m) (ReqDone, m)"
| loaded: "Cell_Engine c m = Some e \<Longrightarrow> req_step (ReqRouted c, m) (ReqLoaded c e, m)"
| no_engine: "Cell_Engine c m = None \<Longrightarrow> req_step (ReqRouted c, m) (ReqDone, m)"
| primary: "Cell_Role c m = RolePrimary \<Longrightarrow> req_step (ReqLoaded c e, m) (ReqChecked c e, m)"
| not_primary: "Cell_Role c m \<noteq> RolePrimary \<Longrightarrow> req_step (ReqLoaded c e, m) (ReqDone, m)"
| added: "req_step (ReqChecked c e, m) (ReqAdded c e, wg_Add e m)"
| tracked: "Track_check c e m = (True, m') \<Longrightarrow> req_step (ReqAdded c e, m) (ReqServing c e, m')"
| swapped: "Track_check c e m = (False, m') \<Longrightarrow> req_step (ReqAdded c e, m) (ReqDone, m')"
| served: "req_step (ReqServing c e, m) (ReqDone, wg_Done e m)"

inductive_cases req_servingE: "req_step (pc, m) (ReqServing c e, m')"

text \<open>The manager may be part of a larger state, as it is in the watcher's; the rule \<open>own\<close> lets the rest of
  that state change.\<close>

record 'a Sys =
  sy_m :: "'a Manager_scheme"
  sy_infl :: "drainTask list"
  sy_reqs :: "req_pc list"

inductive sys_step :: "llmd \<Rightarrow> Options \<Rightarrow> 'a Sys \<Rightarrow> 'a Sys \<Rightarrow> bool" for L opts where
  ensure: "sys_step L opts s (s\<lparr>sy_m := snd (Manager_Ensure (production_cfg L opts) key role (sy_m s))\<rparr>)"
| apply_config: "sys_step L opts s
    (s\<lparr>sy_m := snd (Manager_ApplyConfig (production_cfg L opts) key raw now (sy_m s))\<rparr>)"
| dropped: "sys_step L opts s (s\<lparr>sy_m := Manager_Drop key (sy_m s)\<rparr>)"
| await: "sys_step L opts s (s\<lparr>sy_m := Engine_await_ready e (eng_parent (st_engines (sy_m s) e)) now (sy_m s)\<rparr>)"
| ready_load: "sys_step L opts s (s\<lparr>sy_m := markReady_load c (sy_m s)\<rparr>)"
| ready_store: "sys_step L opts s (s\<lparr>sy_m := markReady_store c (sy_m s)\<rparr>)"
| discover: "sys_step L opts s
    (s\<lparr>sy_m := Engine_discovery_round Equal h e i (eng_parent (st_engines (sy_m s) e)) (sy_m s)\<rparr>)"
| take: "m_drainCh (sy_m s) = t # q \<Longrightarrow> int (length (sy_infl s)) < mc_drainWorkers (production_cfg L opts) \<Longrightarrow>
    sys_step L opts s (s\<lparr>sy_m := Manager_drain_begin t ((sy_m s)\<lparr>m_drainCh := q\<rparr>), sy_infl := t # sy_infl s\<rparr>)"
| idle: "t \<in> set (sy_infl s) \<Longrightarrow> eng_wg (st_engines (sy_m s) (t_eng t)) = 0 \<Longrightarrow>
    sys_step L opts s (s\<lparr>sy_m := Manager_drain_end t (sy_m s), sy_infl := remove1 t (sy_infl s)\<rparr>)"
| timeout: "t \<in> set (sy_infl s) \<Longrightarrow>
    sys_step L opts s (s\<lparr>sy_m := Manager_drain_end t (sy_m s), sy_infl := remove1 t (sy_infl s)\<rparr>)"
| own: "Manager.truncate m = Manager.truncate (sy_m s) \<Longrightarrow> sys_step L opts s (s\<lparr>sy_m := m\<rparr>)"
| arrive: "sys_step L opts s (s\<lparr>sy_reqs := sy_reqs s @ [ReqStart]\<rparr>)"
| request: "i < length (sy_reqs s) \<Longrightarrow> req_step (sy_reqs s ! i, sy_m s) (pc, m) \<Longrightarrow>
    sys_step L opts s (s\<lparr>sy_m := m, sy_reqs := (sy_reqs s)[i := pc]\<rparr>)"

definition sys_init :: "llmd \<Rightarrow> Options \<Rightarrow> unit Sys" where
  "sys_init L opts = \<lparr>sy_m = snd (NewManager L opts), sy_infl = [], sy_reqs = []\<rparr>"

section \<open>The invariant of the system\<close>

definition pc_holds :: "nat \<Rightarrow> req_pc \<Rightarrow> bool" where
  "pc_holds e pc \<longleftrightarrow> (case pc of ReqAdded _ x \<Rightarrow> x = e | ReqServing _ x \<Rightarrow> x = e | _ \<Rightarrow> False)"

definition pc_serves :: "nat \<Rightarrow> req_pc \<Rightarrow> bool" where
  "pc_serves e pc \<longleftrightarrow> (case pc of ReqServing _ x \<Rightarrow> x = e | _ \<Rightarrow> False)"

definition how_many :: "(req_pc \<Rightarrow> bool) \<Rightarrow> req_pc list \<Rightarrow> int" where
  "how_many P reqs = int (length (filter P reqs))"

lemma how_many_simps [simp]:
  "how_many P [] = 0" "how_many P (pc # reqs) = (if P pc then 1 else 0) + how_many P reqs"
  "how_many P (reqs @ reqs') = how_many P reqs + how_many P reqs'"
  by (simp_all add: how_many_def)

lemma how_many_update:
  "i < length reqs \<Longrightarrow> how_many P (reqs[i := pc]) =
     how_many P reqs - (if P (reqs ! i) then 1 else 0) + (if P pc then 1 else 0)"
  by (induction reqs arbitrary: i) (auto simp: nth_Cons split: nat.split)

text \<open>What a request holds on to was allocated, and an engine it loaded belongs to its cell.\<close>

fun pc_wf :: "'a Manager_scheme \<Rightarrow> req_pc \<Rightarrow> bool" where
  "pc_wf m (ReqRouted c) = (c < m_nextCell m)"
| "pc_wf m (ReqLoaded c e) = (e < m_nextEngine m \<and> eng_parent (st_engines m e) = c)"
| "pc_wf m (ReqChecked c e) = (e < m_nextEngine m \<and> eng_parent (st_engines m e) = c)"
| "pc_wf m (ReqAdded c e) = (e < m_nextEngine m \<and> eng_parent (st_engines m e) = c)"
| "pc_wf m (ReqServing c e) = (e < m_nextEngine m \<and> eng_parent (st_engines m e) = c)"
| "pc_wf m _ = True"

definition sys_inv :: "llmd \<Rightarrow> Options \<Rightarrow> 'a Sys \<Rightarrow> bool" where
  "sys_inv L opts s \<longleftrightarrow> mgr_inv (sy_infl s) (sy_m s) \<and>
     (\<forall>c < m_nextCell (sy_m s). role_state_ok (st_cells (sy_m s) c)) \<and>
     (\<forall>pc \<in> set (sy_reqs s). pc_wf (sy_m s) pc) \<and>
     (\<forall>e < m_nextEngine (sy_m s). eng_wg (st_engines (sy_m s) e) = how_many (pc_holds e) (sy_reqs s)) \<and>
     int (length (sy_infl s)) \<le> mc_drainWorkers (production_cfg L opts)"

lemma pc_wf_evolves: "evolves m m' \<Longrightarrow> pc_wf m pc \<Longrightarrow> pc_wf m' pc"
  by (cases pc) (auto simp: evolves_def)

lemma holds_fresh:
  assumes "\<forall>pc \<in> set reqs. pc_wf m pc" "m_nextEngine m \<le> e"
  shows "how_many (pc_holds e) reqs = 0"
proof -
  have "\<not> pc_holds e pc" if "pc \<in> set reqs" for pc
    using assms(1) that assms(2) by (cases pc) (auto simp: pc_holds_def dest!: bspec)
  then show ?thesis by (simp add: how_many_def filter_empty_conv)
qed

text \<open>Any step of the manager that keeps its invariant and only evolves the store keeps the rest.\<close>

lemma sys_inv_evolves:
  assumes "sys_inv L opts s" "evolves (sy_m s) m" "mgr_inv infl m"
    "int (length infl) \<le> mc_drainWorkers (production_cfg L opts)"
  shows "sys_inv L opts (s\<lparr>sy_m := m, sy_infl := infl\<rparr>)"
proof -
  have "role_state_ok (st_cells m c)" if "c < m_nextCell m" for c
  proof (cases "c < m_nextCell (sy_m s)")
    case True
    with assms(1,2) show ?thesis by (simp add: sys_inv_def evolves_def cell_evolves_def)
  qed (use assms(2) that in \<open>simp add: evolves_def\<close>)
  moreover have "eng_wg (st_engines m e) = how_many (pc_holds e) (sy_reqs s)" if "e < m_nextEngine m" for e
  proof (cases "e < m_nextEngine (sy_m s)")
    case True
    with assms(1,2) show ?thesis by (simp add: sys_inv_def evolves_def)
  next
    case False
    then have "eng_wg (st_engines m e) = 0" using assms(2) that by (simp add: evolves_def)
    moreover have "how_many (pc_holds e) (sy_reqs s) = 0"
      using False assms(1) by (intro holds_fresh [of _ "sy_m s"]) (simp_all add: sys_inv_def)
    ultimately show ?thesis by simp
  qed
  ultimately show ?thesis
    using assms pc_wf_evolves [OF assms(2)] by (simp add: sys_inv_def)
qed

lemma sys_inv_manager:
  assumes "sys_inv L opts s" "evolves (sy_m s) m" "mgr_inv (sy_infl s) m"
  shows "sys_inv L opts (s\<lparr>sy_m := m\<rparr>)"
  using sys_inv_evolves [OF assms(1,2,3)] assms(1) by (simp add: sys_inv_def)

lemma req_step_shape:
  assumes "req_step (pc, m) (pc', m')"
  obtains (none) "m' = m" "\<And>x. pc_holds x pc' = pc_holds x pc"
  | (add) e where "m' = wg_Add e m" "\<And>x. pc_holds x pc' = (x = e)" "\<And>x. \<not> pc_holds x pc"
  | (release) e where "m' = wg_Done e m" "\<And>x. pc_holds x pc = (x = e)" "\<And>x. \<not> pc_holds x pc'"
  using assms
proof (cases rule: req_step.cases)
  case (added c e)
  then show ?thesis by (intro add [of e]) (auto simp: pc_holds_def)
next
  case (swapped c e)
  then show ?thesis by (intro release [of e]) (auto simp: pc_holds_def Track_check_def split: if_splits)
next
  case (served c e)
  then show ?thesis by (intro release [of e]) (auto simp: pc_holds_def)
qed (auto simp: pc_holds_def Track_check_def split: if_splits intro!: none)

lemma req_step_facts:
  assumes "req_step (pc, m) (pc', m')"
  shows "mgr_inv infl m \<Longrightarrow> mgr_inv infl m'" "st_cells m' = st_cells m" "m_cells m' = m_cells m"
    "m_nextCell m' = m_nextCell m" "m_nextEngine m' = m_nextEngine m"
    "eng_parent (st_engines m' x) = eng_parent (st_engines m x)"
    "eng_wg (st_engines m' x) = eng_wg (st_engines m x) -
       (if pc_holds x pc then 1 else 0) + (if pc_holds x pc' then 1 else 0)"
    "eng_cancelled (st_engines m' x) = eng_cancelled (st_engines m x)" "m_drainCh m' = m_drainCh m"
  by (cases rule: req_step_shape [OF assms]; simp add: keeps)+

lemma pc_wf_cong:
  assumes "m_nextCell m' = m_nextCell m" "m_nextEngine m' = m_nextEngine m"
    "\<And>x. eng_parent (st_engines m' x) = eng_parent (st_engines m x)"
  shows "pc_wf m' pc = pc_wf m pc"
  using assms by (cases pc) simp_all

lemma req_step_wf:
  assumes "req_step (pc, m) (pc', m')" "mgr_inv infl m" "pc_wf m pc"
  shows "pc_wf m' pc'"
proof -
  have "pc_wf m pc'"
    using assms(1)
  proof (cases rule: req_step.cases)
    case (routed pool c)
    then show ?thesis using assms(2) by (auto simp: mgr_inv_def Manager_Get_def dest: registry_wfD(2))
  next
    case (loaded c e)
    then show ?thesis using assms(2,3) by (auto simp: mgr_inv_def engines_wf_def Cell_Engine_def)
  qed (use assms(3) in simp_all)
  then show ?thesis using pc_wf_cong [OF req_step_facts(4-6) [OF assms(1)]] by simp
qed

lemma sys_inv_request:
  assumes "sys_inv L opts s" "i < length (sy_reqs s)" "req_step (sy_reqs s ! i, sy_m s) (pc, m)"
  shows "sys_inv L opts (s\<lparr>sy_m := m, sy_reqs := (sy_reqs s)[i := pc]\<rparr>)"
proof -
  have inv: "mgr_inv (sy_infl s) (sy_m s)" "pc_wf (sy_m s) (sy_reqs s ! i)"
    using assms(1,2) by (simp_all add: sys_inv_def)
  note f = req_step_facts [OF assms(3)]
  have "pc_wf m p" if "p \<in> set ((sy_reqs s)[i := pc])" for p
    using that set_update_subset_insert [of "sy_reqs s" i pc] assms(1) req_step_wf [OF assms(3) inv]
      pc_wf_cong [OF f(4-6)] by (auto simp: sys_inv_def)
  moreover have "eng_wg (st_engines m e) = how_many (pc_holds e) ((sy_reqs s)[i := pc])" if "e < m_nextEngine m" for e
    using assms(1) that f(5) f(7) [of e] by (simp add: sys_inv_def how_many_update [OF assms(2)])
  ultimately show ?thesis
    using assms(1) f(1) [OF inv(1)] f(2,4) by (simp add: sys_inv_def)
qed

lemma sys_inv_init: "sys_inv L opts (sys_init L opts)"
  using mgr_inv_NewManager [of L opts]
  by (simp add: sys_inv_def sys_init_def NewManager_def production_cfg_def)

lemma sys_inv_step:
  assumes "sys_step L opts s t" "sys_inv L opts s"
  shows "sys_inv L opts t"
proof -
  have inv: "mgr_inv (sy_infl s) (sy_m s)"
    and n: "int (length (sy_infl s)) \<le> mc_drainWorkers (production_cfg L opts)"
    using assms(2) by (simp_all add: sys_inv_def)
  have finish: "sys_inv L opts (s\<lparr>sy_m := Manager_drain_end t (sy_m s), sy_infl := remove1 t (sy_infl s)\<rparr>)"
    if "t \<in> set (sy_infl s)" for t
    using n that by (intro sys_inv_evolves [OF assms(2)] evolves_drain_end drain_end_inv [OF inv])
      (auto simp: length_remove1)
  note manager = sys_inv_manager [OF assms(2)]
  from assms(1) show ?thesis
  proof (cases rule: sys_step.cases)
    case ensure
    then show ?thesis by (simp only:) (intro manager evolves_Ensure prod.Ensure_inv inv)
  next
    case apply_config
    then show ?thesis by (simp only:) (intro manager evolves_ApplyConfig [OF inv] prod.ApplyConfig_inv inv)
  next
    case dropped
    then show ?thesis by (simp only:) (intro manager evolves_Drop Drop_inv inv)
  next
    case await
    then show ?thesis by (simp only:) (intro manager evolves_await await_inv inv)
  next
    case ready_load
    then show ?thesis by (simp only:) (intro manager evolves_markReady_step markReady_step_inv inv)
  next
    case ready_store
    then show ?thesis by (simp only:) (intro manager evolves_markReady_step markReady_step_inv inv)
  next
    case discover
    then show ?thesis by (simp only:) (intro manager evolves_discovery_round discovery_round_inv inv)
  next
    case (take task q)
    then show ?thesis by (simp only:) (intro sys_inv_evolves [OF assms(2)] evolves_drain_begin
        drain_take_inv [OF inv]; simp)
  next
    case idle
    with finish show ?thesis by blast
  next
    case timeout
    with finish show ?thesis by blast
  next
    case own
    then show ?thesis by (simp only:) (intro manager evolves_truncate truncate_inv [OF _ inv])
  next
    case arrive
    with assms(2) show ?thesis by (simp add: sys_inv_def pc_holds_def)
  next
    case request
    with sys_inv_request [OF assms(2)] show ?thesis by blast
  qed
qed


lemma reachable_inv: "(sys_step L opts)\<^sup>*\<^sup>* (sys_init L opts) s \<Longrightarrow> sys_inv L opts s"
  by (induction rule: rtranclp_induct) (auto intro: sys_inv_init sys_inv_step)

section \<open>How the system grows\<close>

definition grows :: "'a Manager_scheme \<Rightarrow> 'a Manager_scheme \<Rightarrow> bool" where
  "grows m m' \<longleftrightarrow> m_nextCell m \<le> m_nextCell m' \<and> m_nextEngine m \<le> m_nextEngine m' \<and>
     (\<forall>e < m_nextEngine m. eng_parent (st_engines m' e) = eng_parent (st_engines m e) \<and>
        (eng_cancelled (st_engines m e) \<longrightarrow> eng_cancelled (st_engines m' e))) \<and>
     (\<forall>c < m_nextCell m. cell_evolves (m_nextEngine m) (st_cells m c) (st_cells m' c))"

lemma evolves_grows: "evolves m m' \<Longrightarrow> grows m m'"
  by (simp add: evolves_def grows_def)

lemma grows_trans: "grows a b \<Longrightarrow> grows b c \<Longrightarrow> grows a c"
proof -
  assume a: "grows a b" "grows b c"
  have "cell_evolves (m_nextEngine a) (st_cells a d) (st_cells c d)" if "d < m_nextCell a" for d
    by (rule cell_evolves_trans [where y = "st_cells b d" and n' = "m_nextEngine b"])
      (use a that in \<open>simp_all add: grows_def\<close>)
  with a show ?thesis by (simp add: grows_def)
qed

lemma step_grows:
  assumes "sys_step L opts s t" "sys_inv L opts s"
  shows "grows (sy_m s) (sy_m t)"
  using assms(1)
proof (cases rule: sys_step.cases)
  case apply_config
  moreover have "mgr_inv (sy_infl s) (sy_m s)" using assms(2) by (simp add: sys_inv_def)
  ultimately show ?thesis by (simp add: evolves_grows [OF evolves_ApplyConfig])
next
  case (request i pc m)
  then show ?thesis using req_step_facts [OF request(3)] by (simp add: grows_def)
qed (simp_all add: evolves_grows evolves_Ensure evolves_Drop evolves_await evolves_markReady_step evolves_discovery_round
    evolves_drain_begin evolves_drain_end evolves_truncate)

lemma run_grows:
  assumes "(sys_step L opts)\<^sup>*\<^sup>* s t" "sys_inv L opts s"
  shows "grows (sy_m s) (sy_m t) \<and> sys_inv L opts t"
  using assms
proof (induction rule: rtranclp_induct)
  case (step t u)
  then show ?case using step_grows grows_trans sys_inv_step by metis
qed (simp add: grows_def)

text \<open>
  C1. Every reachable state of the concurrent system is consistent. With any number of requests,
  workers, engine goroutines and watcher operations interleaved, the manager's invariant holds; an
  engine's wait group counts exactly the requests that have entered it and not left, so it is
  never negative; only cells with the primary role are in the primary state; and no more drains run
  than there are workers.
\<close>

theorem reachable_states_consistent:
  assumes "(sys_step L opts)\<^sup>*\<^sup>* (sys_init L opts) s"
  shows "sys_inv L opts s \<and> mgr_inv (sy_infl s) (sy_m s) \<and>
    (\<forall>e < m_nextEngine (sy_m s). eng_wg (st_engines (sy_m s) e) = how_many (pc_holds e) (sy_reqs s) \<and>
       0 \<le> eng_wg (st_engines (sy_m s) e)) \<and>
    (\<forall>c < m_nextCell (sy_m s). role_state_ok (st_cells (sy_m s) c)) \<and>
    int (length (sy_infl s)) \<le> mc_drainWorkers (production_cfg L opts)"
  using reachable_inv [OF assms] by (simp add: sys_inv_def how_many_def)

text \<open>A run: a cluster is assigned, a request arrives and is refused because there is no engine.\<close>

definition demo_sys :: "nat \<Rightarrow> unit Sys" where
  "demo_sys n = (let s0 = sys_init demo_llmd demo_opts;
      s1 = s0\<lparr>sy_m := snd (Manager_Ensure (production_cfg demo_llmd demo_opts) ''c1'' RolePrimary (sy_m s0))\<rparr>;
      s2 = s1\<lparr>sy_reqs := [ReqStart]\<rparr>
    in if n = 0 then s0 else if n = 1 then s1 else s2)"

lemma demo_run: "(sys_step demo_llmd demo_opts)\<^sup>*\<^sup>* (sys_init demo_llmd demo_opts) (demo_sys 2)"
proof -
  have "sys_step demo_llmd demo_opts (sys_init demo_llmd demo_opts) (demo_sys 1)"
    by (simp add: demo_sys_def Let_def) (rule sys_step.ensure)
  moreover have "demo_sys 2 = (demo_sys 1)\<lparr>sy_reqs := sy_reqs (demo_sys 1) @ [ReqStart]\<rparr>"
    by (simp add: demo_sys_def sys_init_def Let_def)
  then have "sys_step demo_llmd demo_opts (demo_sys 1) (demo_sys 2)"
    using sys_step.arrive by metis
  ultimately show ?thesis by (meson converse_rtranclp_into_rtranclp rtranclp.rtrancl_refl)
qed

theorem reachable_states_consistent_witness:
  "mgr_inv (sy_infl (demo_sys 2)) (sy_m (demo_sys 2)) \<and> sy_reqs (demo_sys 2) = [ReqStart]"
  using reachable_states_consistent [OF demo_run] by (simp add: demo_sys_def Let_def)

text \<open>
  C23. The life cycle of a cell. Whatever runs concurrently, from any consistent state on: a draining
  cell stays draining, unless a \<open>markReady\<close> has loaded its state before it was dropped and is about to
  store; no cell returns to creating, a closed cell stays closed, a ready cell stays ready, keys do not change.
\<close>

theorem cell_lifecycle:
  assumes "sys_inv L opts s" and "(sys_step L opts)\<^sup>*\<^sup>* s t"
    and "c < m_nextCell (sy_m s)"
  shows "(c_state (st_cells (sy_m s) c) = StateDraining \<and> c_readyOnce (st_cells (sy_m s) c) \<noteq> BeforeStore \<longrightarrow>
       c_state (st_cells (sy_m t) c) = StateDraining) \<and>
    (c_state (st_cells (sy_m s) c) \<noteq> StateCreating \<longrightarrow> c_state (st_cells (sy_m t) c) \<noteq> StateCreating) \<and>
    (c_closed (st_cells (sy_m s) c) \<longrightarrow> c_closed (st_cells (sy_m t) c)) \<and>
    (c_ready (st_cells (sy_m s) c) \<longrightarrow> c_ready (st_cells (sy_m t) c)) \<and>
    c_Key (st_cells (sy_m t) c) = c_Key (st_cells (sy_m s) c)"
  using run_grows [OF assms(2,1)] assms(3)
  by (auto simp: grows_def cell_evolves_def state_step_def stays_draining_def)

theorem cell_lifecycle_witness:
  "c_Key (st_cells (sy_m (demo_sys 2)) 0) = ''c1''"
proof -
  have "0 < m_nextCell (sy_m (demo_sys 2))" "c_Key (st_cells (sy_m (demo_sys 2)) 0) = ''c1''"
    by (simp_all add: demo_sys_def Let_def sys_init_def NewManager_def Manager_Ensure_def Manager_Get_def
        smap_Load_def Ensure_create_def defaultNewCell_def smap_LoadOrStore_def Ensure_role_def Cell_Role_def
        Manager_Promote_def Cell_State_def)
  with cell_lifecycle [OF reachable_inv [OF demo_run], of "demo_sys 2" 0] show ?thesis by simp
qed

section \<open>A late markReady\<close>

text \<open>
  The state in which a late \<open>markReady\<close> does harm is reached: a standby is created, its configuration is
  applied, the discovery plugin has its first round, the waiting goroutine closes the ready channel and loads
  the state.
\<close>

lemma late_ready_reachable:
  assumes "Compile L \<lparr>dep_AllowExperimentalPlugins = opt_AllowExperimentalPlugins opts\<rparr> 0 key raw
      (zero_cell\<lparr>c_Key := key, c_role := RoleStandby\<rparr>) = (Inr eng, x)"
    and "eng_discovery eng = [d]"
  shows "\<exists>s. (sys_step L opts)\<^sup>*\<^sup>* (sys_init L opts) s \<and> Manager_Get key (sy_m s) = Some 0 \<and>
    c_Key (st_cells (sy_m s) 0) = key \<and> c_readyOnce (st_cells (sy_m s) 0) = BeforeStore \<and> m_drainCh (sy_m s) = [] \<and>
    c_engine (st_cells (sy_m s) 0) = Some 0 \<and> c_currentHash (st_cells (sy_m s) 0) = Some (HashConfig raw) \<and>
    c_state (st_cells (sy_m s) 0) = StateCreating"
proof -
  let ?S = "sys_step L opts"
  define s0 where "s0 = sys_init L opts"
  define s1 where "s1 = s0\<lparr>sy_m := snd (Manager_Ensure (production_cfg L opts) key RoleStandby (sy_m s0))\<rparr>"
  define s2 where "s2 = s1\<lparr>sy_m := snd (Manager_ApplyConfig (production_cfg L opts) key raw 1 (sy_m s1))\<rparr>"
  define s3 where "s3 = s2\<lparr>sy_m := Engine_discovery_round (=) NewHub 0 0 (eng_parent (st_engines (sy_m s2) 0)) (sy_m s2)\<rparr>"
  define s4 where "s4 = s3\<lparr>sy_m := Engine_await_ready 0 (eng_parent (st_engines (sy_m s3) 0)) 2 (sy_m s3)\<rparr>"
  define s5 where "s5 = s4\<lparr>sy_m := markReady_load 0 (sy_m s4)\<rparr>"
  have steps: "?S s0 s1" "?S s1 s2" "?S s2 s3" "?S s3 s4" "?S s4 s5"
    unfolding s1_def s2_def s3_def s4_def s5_def
    by (rule sys_step.ensure sys_step.apply_config sys_step.discover sys_step.await sys_step.ready_load)+
  then have run: "?S\<^sup>*\<^sup>* (sys_init L opts) s5" unfolding s0_def by (meson converse_rtranclp_into_rtranclp rtranclp.rtrancl_refl)
  have s1: "Manager_Get key (sy_m s1) = Some 0" "st_cells (sy_m s1) 0 = zero_cell\<lparr>c_Key := key, c_role := RoleStandby\<rparr>"
    "m_drainCh (sy_m s1) = []" "m_nextEngine (sy_m s1) = 0"
    by (simp_all add: s1_def s0_def sys_init_def NewManager_def Manager_Ensure_def Manager_Get_def smap_Load_def
        Ensure_create_def defaultNewCell_def smap_LoadOrStore_def Ensure_role_def Cell_Role_def zero_cell_def Let_def)
  have x: "same_but_runtime (zero_cell\<lparr>c_Key := key, c_role := RoleStandby\<rparr>) x" using Compile_same assms(1) by (metis snd_conv)
  have eng: "eng_parent eng = 0" using Compile_engine(2) assms(1) by (metis fst_conv)
  note cell = same_but_runtimeD [OF x]
  have s2: "Manager_Get key (sy_m s2) = Some 0" "st_cells (sy_m s2) 0 = x\<lparr>c_engine := Some 0, c_currentHash := Some (HashConfig raw)\<rparr>"
    "m_drainCh (sy_m s2) = []" "eng_discovery (st_engines (sy_m s2) 0) = [d]" "eng_started (st_engines (sy_m s2) 0)"
    "eng_parent (st_engines (sy_m s2) 0) = 0"
    using s1 assms cell eng
    by (simp_all add: s2_def Manager_ApplyConfig_def Cell_State_def zero_cell_def Let_def Manager_Get_def Engine_start_def)
  have s3: "Manager_Get key (sy_m s3) = Some 0" "m_drainCh (sy_m s3) = []" "list_all ready (eng_discovery (st_engines (sy_m s3) 0))"
    "eng_started (st_engines (sy_m s3) 0)" "eng_parent (st_engines (sy_m s3) 0) = 0"
    "\<exists>ds. st_cells (sy_m s3) 0 = (st_cells (sy_m s2) 0)\<lparr>c_ds := ds\<rparr>"
    using s2 by (auto simp: s3_def Engine_discovery_round_def Let_def discovery_round_unfold Manager_Get_def)
  then obtain ds where ds: "st_cells (sy_m s3) 0 = (st_cells (sy_m s2) 0)\<lparr>c_ds := ds\<rparr>" by blast
  have s4: "Manager_Get key (sy_m s4) = Some 0" "m_drainCh (sy_m s4) = []"
    "st_cells (sy_m s4) 0 = (st_cells (sy_m s3) 0)\<lparr>c_readyAt := 2, c_ready := True, c_readyOnce := BeforeLoad\<rparr>"
    using s3 s2(2) cell ds by (simp_all add: s4_def Engine_await_ready_def Manager_Get_def zero_cell_def)
  have "Manager_Get key (sy_m s5) = Some 0" "m_drainCh (sy_m s5) = []" "c_readyOnce (st_cells (sy_m s5) 0) = BeforeStore"
    "c_Key (st_cells (sy_m s5) 0) = key" "c_engine (st_cells (sy_m s5) 0) = Some 0"
    "c_currentHash (st_cells (sy_m s5) 0) = Some (HashConfig raw)" "c_state (st_cells (sy_m s5) 0) = StateCreating"
    using s4 ds s2(2) cell by (simp_all add: s5_def Manager_Get_def zero_cell_def)
  with run show ?thesis by blast
qed

definition demo_plugin_llmd :: llmd where
  "demo_plugin_llmd = demo_llmd\<lparr>LoadRawConfig := (\<lambda>raw. Inr (\<lparr>rc_DataLayer = Some (Some (Some ''p''))\<rparr>, (\<lambda>_. False))),
     InstantiateAndConfigure := (\<lambda>rc. Inr (\<lparr>cfg_DataConfig = ''v'', cfg_FlowControlConfig = False\<rparr>,
       [\<lparr>p_Name = ''p'', p_Registrant = False, p_Discovery = Some gen_c1\<rparr>]))\<rparr>"

lemma late_ready_reachable_example:
  "\<exists>s. (sys_step demo_plugin_llmd demo_opts)\<^sup>*\<^sup>* (sys_init demo_plugin_llmd demo_opts) s \<and>
     c_readyOnce (st_cells (sy_m s) 0) = BeforeStore"
proof -
  let ?c = "Compile demo_plugin_llmd \<lparr>dep_AllowExperimentalPlugins = opt_AllowExperimentalPlugins demo_opts\<rparr> 0 ''c1'' ''v2''
    (zero_cell\<lparr>c_Key := ''c1'', c_role := RoleStandby\<rparr>)"
  obtain eng x where "?c = (Inr eng, x)" "eng_discovery eng = [gen_c1]"
    by (simp add: Compile_def demo_plugin_llmd_def demo_llmd_def configure_runtime_def select_discovery_def
        zero_cell_def Let_def)
  from late_ready_reachable [OF this] show ?thesis by blast
qed

section \<open>Retired engines\<close>

text \<open>An engine that is no longer its cell's current one.\<close>

definition retired :: "nat \<Rightarrow> 'a Manager_scheme \<Rightarrow> bool" where
  "retired e m \<longleftrightarrow> e < m_nextEngine m \<and> c_engine (st_cells m (eng_parent (st_engines m e))) \<noteq> Some e"

lemma retired_grows:
  assumes "retired e m" "grows m m'" "mgr_inv infl m"
  shows "retired e m'"
proof -
  have "eng_parent (st_engines m e) < m_nextCell m"
    using assms(1,3) by (simp add: retired_def mgr_inv_def engines_wf_def)
  with assms(1,2) show ?thesis
    by (fastforce simp: retired_def grows_def cell_evolves_def)
qed

lemma retired_not_tracked:
  assumes "retired e m" "pc_wf m pc" "req_step (pc, m) (pc', m')"
  shows "pc_serves e pc' \<Longrightarrow> False"
  using assms(3)
proof (cases rule: req_step.cases)
  case (tracked c x)
  assume "pc_serves e pc'"
  with tracked assms(1,2) show False
    by (auto simp: retired_def pc_serves_def Track_check_def Cell_Engine_def split: if_splits)
qed (simp_all add: pc_serves_def)

lemma retired_step:
  assumes "sys_step L opts s t" "sys_inv L opts s" "retired e (sy_m s)"
  shows "how_many (pc_serves e) (sy_reqs t) \<le> how_many (pc_serves e) (sy_reqs s)"
  using assms(1)
proof (cases rule: sys_step.cases)
  case (request i pc m)
  have "pc_wf (sy_m s) (sy_reqs s ! i)" using assms(2) request(2) by (simp add: sys_inv_def)
  then have "\<not> pc_serves e pc" using retired_not_tracked [OF assms(3) _ request(3)] by blast
  then show ?thesis using request(1) how_many_update [OF request(2)] by simp
qed (simp_all add: pc_serves_def)

lemma retired_run:
  assumes "(sys_step L opts)\<^sup>*\<^sup>* s t" "sys_inv L opts s" "retired e (sy_m s)"
  shows "sys_inv L opts t \<and> retired e (sy_m t) \<and>
    how_many (pc_serves e) (sy_reqs t) \<le> how_many (pc_serves e) (sy_reqs s)"
  using assms
proof (induction rule: rtranclp_induct)
  case (step t u)
  then have IH: "sys_inv L opts t" "retired e (sy_m t)"
    "how_many (pc_serves e) (sy_reqs t) \<le> how_many (pc_serves e) (sy_reqs s)" by blast+
  have "mgr_inv (sy_infl t) (sy_m t)" using IH(1) by (simp add: sys_inv_def)
  then have "retired e (sy_m u)" using retired_grows [OF IH(2) step_grows [OF step(2) IH(1)]] by blast
  then show ?case
    using sys_inv_step [OF step(2) IH(1)] retired_step [OF step(2) IH(1,2)] IH(3) by linarith
qed simp

text \<open>
  C2. A replaced engine winds down. In any consistent state, from the moment an engine is no longer current, under every
  interleaving, it never becomes current again and no request starts being served by it: the
  number of requests it serves only falls; once its wait group is at zero, which is what the
  drain waits for, no request is ever served by it again.
\<close>

theorem retired_engine_winds_down:
  assumes "sys_inv L opts s" and "(sys_step L opts)\<^sup>*\<^sup>* s t"
    and "e < m_nextEngine (sy_m s)"
    and "c_engine (st_cells (sy_m s) (eng_parent (st_engines (sy_m s) e))) \<noteq> Some e"
  shows "c_engine (st_cells (sy_m t) (eng_parent (st_engines (sy_m t) e))) \<noteq> Some e \<and>
    how_many (pc_serves e) (sy_reqs t) \<le> how_many (pc_serves e) (sy_reqs s) \<and>
    (eng_wg (st_engines (sy_m s) e) = 0 \<longrightarrow> how_many (pc_serves e) (sy_reqs t) = 0)"
proof -
  note inv = assms(1)
  have run: "retired e (sy_m t)" "how_many (pc_serves e) (sy_reqs t) \<le> how_many (pc_serves e) (sy_reqs s)"
    using retired_run [OF assms(2) inv] assms(3,4) by (simp_all add: retired_def)
  have "pc_serves e pc \<Longrightarrow> pc_holds e pc" for pc by (cases pc) (simp_all add: pc_serves_def pc_holds_def)
  then have "how_many (pc_serves e) reqs \<le> how_many (pc_holds e) reqs" for reqs
    by (induction reqs) auto
  moreover have "eng_wg (st_engines (sy_m s) e) = how_many (pc_holds e) (sy_reqs s)"
    using inv assms(3) by (simp add: sys_inv_def)
  moreover have "0 \<le> how_many (pc_serves e) (sy_reqs t)" by (simp add: how_many_def)
  ultimately show ?thesis using run by (auto simp: retired_def) (metis order_antisym order_trans)
qed


text \<open>A cell whose first engine was replaced while it serves a request, and the state after it.\<close>

definition demo_swapped :: "unit Sys" where
  "demo_swapped = \<lparr>sy_m = demo_mgr\<lparr>st_cells := (\<lambda>_. zero_cell)(0 := demo_cell\<lparr>c_engine := Some 1, c_currentHash := Some ''y''\<rparr>),
     st_engines := (\<lambda>_. zero_engine)(0 := zero_engine\<lparr>eng_Version := ''x'', eng_cancelled := True, eng_wg := 1\<rparr>,
       1 := zero_engine\<lparr>eng_Version := ''y''\<rparr>), m_nextEngine := 2\<rparr>,
     sy_infl = [mk_task 0 0 False], sy_reqs = [ReqServing 0 0]\<rparr>"

lemma demo_swapped_inv: "sys_inv demo_llmd demo_opts demo_swapped"
proof -
  have "mgr_inv (sy_infl demo_swapped) (sy_m demo_swapped)"
    by (auto simp: demo_swapped_def mgr_inv_defs demo_mgr_def demo_cell_def zero_defs smap_Load_def
        drainCh_cap_def less_Suc_eq numeral_2_eq_2 split: if_splits)
  then show ?thesis
    by (auto simp: sys_inv_def demo_swapped_def demo_mgr_def demo_cell_def zero_defs role_state_ok_def
        pc_holds_def less_Suc_eq numeral_2_eq_2 production_cfg_def NewManager_def demo_opts_def)
qed

definition demo_released :: "unit Sys" where
  "demo_released = demo_swapped\<lparr>sy_m := wg_Done 0 (sy_m demo_swapped), sy_reqs := [ReqDone]\<rparr>"

theorem retired_engine_winds_down_witness:
  "how_many (pc_serves 0) (sy_reqs demo_released) \<le> 1"
proof -
  have "req_step (sy_reqs demo_swapped ! 0, sy_m demo_swapped) (ReqDone, wg_Done 0 (sy_m demo_swapped))"
    by (simp add: demo_swapped_def req_step.served)
  then have "sys_step demo_llmd demo_opts demo_swapped demo_released"
    using sys_step.request [of 0 demo_swapped ReqDone] by (simp add: demo_swapped_def demo_released_def)
  then have "(sys_step demo_llmd demo_opts)\<^sup>*\<^sup>* demo_swapped demo_released" by (rule r_into_rtranclp)
  from retired_engine_winds_down [OF demo_swapped_inv this, of 0] show ?thesis
    by (simp add: demo_swapped_def demo_mgr_def demo_cell_def zero_defs pc_serves_def)
qed

end
