(* ===== verification/Epp_Run.thy ===== *)
theory Epp_Run
  imports Epp_Main Epp_Plugins Engine_Lifecycle
begin

text \<open>
  \<open>cmd/epp/main.go\<close>: the running process. \<open>run\<close> composes the components and starts six goroutines in
  an error group: the ext-proc server, the health server, the metrics server, the two polling loops
  and the readiness gate. The process is a state machine over the states of all components; the
  concurrent system of cells, engines, drain workers and requests runs inside it.

  A goroutine is at a program point. The polling loops and the gate sleep in a \<open>select\<close> on a timer and
  the group's context. A \<open>select\<close> entered with a cancelled context and a timer that has not fired
  returns; one entered before may still see its timer fire, so a goroutine can do one more round
  after the cancellation. A round of a loop is one step; the gate lists the registry, looks at one cell
  after the other and lists the registry again, each in a step of its own.

  A server listens, then serves; a goroutine of its own waits for the end of the group's context and stops it.
  \<open>run_step\<close> is what the program does, \<open>fault_step\<close> what can go wrong in a server: it cannot listen, or it stops
  serving with an error. A server returns without an error only after it was stopped, and a stopped server does return
  (\<open>grpc.Server.Serve\<close>, \<open>http.Server.ListenAndServe\<close> and \<open>Shutdown\<close> document this). When all goroutines of the
  group have returned, \<open>run\<close> calls \<open>GracefulStop\<close> on both gRPC servers; it blocks until the pending calls are
  finished (documented), that is, until the request streams of the ext-proc server have ended; the methods of the
  health service return at once.
\<close>

section \<open>Setting up\<close>

datatype task = ExtProcTask | HealthTask | MetricsTask | DiscoveryTask | EppDataTask | GateTask

text \<open>\<open>GateScan ok cs\<close>: the gate has listed the registry and has still to look at the cells \<open>cs\<close>; \<open>ok\<close> is its
  variable \<open>allReady\<close>.\<close>

datatype task_pc = Serving | InSelect bool | GateSync | GatePoll | GateScan bool "nat list" | GateSleep bool | TaskDone

datatype server_state = Listening | Accepting | Stopped

datatype main_pc = MainWait | MainStopExtProc | MainStopHealth

type_synonym watcher_sys = "unit EppDataWatcher_ext Sys"

record process =
  ps_sys :: watcher_sys
  ps_eppDataLoop :: Poller
  ps_discoveryLoop :: Poller
  ps_discovery :: ClusterDiscovery
  ps_health :: healthServer
  ps_pc :: "task \<Rightarrow> task_pc"
  ps_server :: "task \<Rightarrow> server_state"
  ps_main :: main_pc
  ps_cancelled :: bool
  ps_err :: "go_error option"
  ps_result :: "unit result option"

datatype start_outcome = Printed "string list" | StartFailed go_error | Started process "unit registration list"

text \<open>The build information: version, commit and the version of the Go runtime.\<close>

record build =
  bi_version :: string
  bi_commit :: string
  bi_runtime :: string

definition version_text :: "bool \<Rightarrow> bool \<Rightarrow> build \<Rightarrow> string list option" where
  "version_text showVersion showVerbose b =
     (if showVersion then Some [''epp version: '' @ bi_version b]
      else if showVerbose then
        Some [''epp version: '' @ bi_version b, ''go version: '' @ bi_runtime b, ''git commit: '' @ bi_commit b]
      else None)"

definition new_process :: "llmd \<Rightarrow> Config \<Rightarrow> process" where
  "new_process L cfg =
     (let opts = \<lparr>po_Interval = PollInterval cfg, po_Timeout = PollTimeout cfg\<rparr>;
          manager = snd (NewManager L (manager_options cfg))
      in \<lparr>ps_sys = \<lparr>sy_m = NewEppDataWatcher manager, sy_infl = [], sy_reqs = []\<rparr>,
          ps_eppDataLoop = Poller_New ''epp_data'' opts,
          ps_discoveryLoop = Poller_New ''discovery'' opts,
          ps_discovery = NewClusterDiscovery NewHub None,
          ps_health = \<lparr>hs_ready = False\<rparr>,
          ps_pc = (\<lambda>t. case t of DiscoveryTask \<Rightarrow> InSelect True | EppDataTask \<Rightarrow> InSelect True
                     | GateTask \<Rightarrow> GateSync | _ \<Rightarrow> Serving),
          ps_server = (\<lambda>t. if t = MetricsTask then Accepting else Listening), ps_main = MainWait,
          ps_cancelled = False, ps_err = None, ps_result = None\<rparr>)"

text \<open>\<open>run\<close> up to the start of the goroutines. The hub is a single object; the registered factory holds a
  reference to it.\<close>

definition run_start :: "llmd \<Rightarrow> (string \<Rightarrow> string) \<Rightarrow> (string \<Rightarrow> string \<Rightarrow> 'creds result) \<Rightarrow> build \<Rightarrow> bool \<Rightarrow> bool \<Rightarrow>
    Config \<Rightarrow> start_outcome" where
  "run_start L lib NewServerTLSFromFile b showVersion showVerbose cfg =
     (case version_text showVersion showVerbose b of
        Some out \<Rightarrow> Printed out
      | None \<Rightarrow>
          (case serverOptions NewServerTLSFromFile cfg of
             Inl err \<Rightarrow> StartFailed err
           | Inr opts \<Rightarrow> Started (new_process L cfg) (registerPlugins lib ())))"

text \<open>The services of the two gRPC servers. The health service is on both, so that a gateway can probe the
  address it sends its streams to.\<close>

datatype grpc_service = ExternalProcessor Server | HealthService healthServer

definition grpc_services :: "Config \<Rightarrow> healthServer \<Rightarrow> task \<Rightarrow> grpc_service list" where
  "grpc_services cfg health t =
     (if t = ExtProcTask then [ExternalProcessor \<lparr>sv_defaultPool = DefaultPool cfg\<rparr>, HealthService health]
      else if t = HealthTask then [HealthService health] else [])"

text \<open>\<open>main\<close>: an error of \<open>run\<close> is fatal; otherwise the program ends normally. The value is the exit status.\<close>

definition main_status :: "unit result \<Rightarrow> nat" where
  "main_status r = (case r of Inl err \<Rightarrow> 1 | Inr _ \<Rightarrow> 0)"

section \<open>Running\<close>

text \<open>A goroutine of the group returns: the first error is kept and cancels the group's context.\<close>

definition task_return :: "task \<Rightarrow> unit result \<Rightarrow> process \<Rightarrow> process" where
  "task_return t r p =
     (let p1 = p\<lparr>ps_pc := (ps_pc p)(t := TaskDone)\<rparr>
      in case r of
           Inr _ \<Rightarrow> p1
         | Inl err \<Rightarrow> if ps_err p = None then p1\<lparr>ps_err := Some err, ps_cancelled := True\<rparr> else p1)"

text \<open>The context of a fetch: its request fails when the context is cancelled or its deadline has passed.\<close>

definition with_deadline :: "Duration \<Rightarrow> bool \<Rightarrow> http \<Rightarrow> http" where
  "with_deadline timeout cancelled net =
     (if cancelled then net\<lparr>Do := (\<lambda>_. Inl (ErrSentinel ''context canceled''))\<rparr>
      else if sint timeout \<le> 0 then net\<lparr>Do := (\<lambda>_. Inl (ErrSentinel ''context deadline exceeded''))\<rparr>
      else net)"

definition timer_can_fire :: "bool \<Rightarrow> Duration \<Rightarrow> bool" where
  "timer_can_fire cancelled delay \<longleftrightarrow> \<not> cancelled \<or> sint delay \<le> 0"

definition ErrServerClosed :: go_error where "ErrServerClosed = ErrSentinel ''http: Server closed''"

text \<open>The metrics server: what it returns; \<open>ListenAndServe\<close> always returns an error.\<close>

definition serveMetrics :: "(string \<Rightarrow> go_error) \<Rightarrow> Config \<Rightarrow> unit result" where
  "serveMetrics ListenAndServe cfg =
     (let err = ListenAndServe (JoinHostPort (BindAddress cfg) (Itoa (MetricsPort cfg)))
      in if \<not> errors_Is err ErrServerClosed then Inl err else Inr ())"

definition grpc_port :: "Config \<Rightarrow> task \<Rightarrow> int" where
  "grpc_port cfg t = (if t = ExtProcTask then GRPCPort cfg else HealthPort cfg)"

abbreviation set_pc :: "task \<Rightarrow> task_pc \<Rightarrow> process \<Rightarrow> process" where
  "set_pc t c p \<equiv> p\<lparr>ps_pc := (ps_pc p)(t := c)\<rparr>"

abbreviation set_server :: "task \<Rightarrow> server_state \<Rightarrow> process \<Rightarrow> process" where
  "set_server t x p \<equiv> p\<lparr>ps_server := (ps_server p)(t := x)\<rparr>"

inductive run_step :: "llmd \<Rightarrow> Config \<Rightarrow> process \<Rightarrow> process \<Rightarrow> bool" for L cfg where
  signal: "ps_result p = None \<Longrightarrow> \<not> ps_cancelled p \<Longrightarrow> run_step L cfg p (p\<lparr>ps_cancelled := True\<rparr>)"
| discovery_round: "ps_pc p DiscoveryTask = InSelect True \<Longrightarrow>
    Poller_round (ClusterDiscovery_Handle (Some (assigned_to_cell (sy_m (ps_sys p)))))
      (discoverySrc cfg ReadFile (with_deadline (PollTimeout cfg) (ps_cancelled p) net)) now
      (ps_discoveryLoop p, ps_discovery p) = (delay, q, d) \<Longrightarrow>
    run_step L cfg p (set_pc DiscoveryTask (InSelect (timer_can_fire (ps_cancelled p) delay))
      (p\<lparr>ps_discoveryLoop := q, ps_discovery := d\<rparr>))"
| eppData_round: "ps_pc p EppDataTask = InSelect True \<Longrightarrow>
    Poller_round (EppDataWatcher_Handle (production_cfg L (manager_options cfg)) (InstanceID cfg) now)
      (eppDataSrc cfg ReadFile (with_deadline (PollTimeout cfg) (ps_cancelled p) net)) now
      (ps_eppDataLoop p, sy_m (ps_sys p)) = (delay, q, m) \<Longrightarrow>
    run_step L cfg p (set_pc EppDataTask (InSelect (timer_can_fire (ps_cancelled p) delay))
      (p\<lparr>ps_eppDataLoop := q, ps_sys := (ps_sys p)\<lparr>sy_m := m\<rparr>\<rparr>))"
| loop_done: "t \<in> {DiscoveryTask, EppDataTask} \<Longrightarrow> ps_pc p t = InSelect b \<Longrightarrow> ps_cancelled p \<Longrightarrow>
    run_step L cfg p (task_return t (Inr ()) p)"
| grpc_listen: "t \<in> {ExtProcTask, HealthTask} \<Longrightarrow> ps_pc p t = Serving \<Longrightarrow> ps_server p t = Listening \<Longrightarrow>
    serveGRPC_listen (Listen :: string \<Rightarrow> string result) (BindAddress cfg) (grpc_port cfg t) = Inr lis \<Longrightarrow>
    run_step L cfg p (set_server t Accepting p)"
| server_stop: "t \<in> {ExtProcTask, HealthTask, MetricsTask} \<Longrightarrow> ps_server p t = Accepting \<Longrightarrow> ps_cancelled p \<Longrightarrow>
    run_step L cfg p (set_server t Stopped p)"
| grpc_done: "t \<in> {ExtProcTask, HealthTask} \<Longrightarrow> ps_pc p t = Serving \<Longrightarrow> ps_server p t = Stopped \<Longrightarrow>
    run_step L cfg p (task_return t (serveGRPC_serve (Inr ()) (grpc_port cfg t)) p)"
| metrics_done: "ps_pc p MetricsTask = Serving \<Longrightarrow> ps_server p MetricsTask = Stopped \<Longrightarrow>
    run_step L cfg p (task_return MetricsTask (serveMetrics (\<lambda>_. ErrServerClosed) cfg) p)"
| gate_synced: "ps_pc p GateTask = GateSync \<Longrightarrow> Poller_FirstSync (ps_eppDataLoop p) \<Longrightarrow>
    run_step L cfg p (set_pc GateTask GatePoll p)"
| gate_list: "ps_pc p GateTask = GatePoll \<Longrightarrow>
    run_step L cfg p (set_pc GateTask (GateScan True (Manager_List (sy_m (ps_sys p)))) p)"
| gate_cell: "ps_pc p GateTask = GateScan ok (c # cs) \<Longrightarrow>
    run_step L cfg p (set_pc GateTask (GateScan (if Cell_Ready c (sy_m (ps_sys p)) then ok else False) cs) p)"
| gate_ready: "ps_pc p GateTask = GateScan True [] \<Longrightarrow> 0 < length (Manager_List (sy_m (ps_sys p))) \<Longrightarrow>
    run_step L cfg p (task_return GateTask (Inr ()) (p\<lparr>ps_health := setReady True (ps_health p)\<rparr>))"
| gate_not_ready: "ps_pc p GateTask = GateScan ok [] \<Longrightarrow> \<not> (ok \<and> 0 < length (Manager_List (sy_m (ps_sys p)))) \<Longrightarrow>
    run_step L cfg p (set_pc GateTask (GateSleep (\<not> ps_cancelled p)) p)"
| gate_again: "ps_pc p GateTask = GateSleep True \<Longrightarrow> run_step L cfg p (set_pc GateTask GatePoll p)"
| gate_done: "ps_pc p GateTask = GateSync \<or> ps_pc p GateTask = GateSleep b \<Longrightarrow> ps_cancelled p \<Longrightarrow>
    run_step L cfg p (task_return GateTask (Inr ()) p)"
| wait: "ps_main p = MainWait \<Longrightarrow> \<forall>t. ps_pc p t = TaskDone \<Longrightarrow>
    run_step L cfg p (set_server ExtProcTask Stopped (p\<lparr>ps_main := MainStopExtProc\<rparr>))"
| stop_extproc: "ps_main p = MainStopExtProc \<Longrightarrow> \<forall>pc \<in> set (sy_reqs (ps_sys p)). pc = ReqDone \<Longrightarrow>
    run_step L cfg p (set_server HealthTask Stopped (p\<lparr>ps_main := MainStopHealth\<rparr>))"
| stop_health: "ps_main p = MainStopHealth \<Longrightarrow> ps_result p = None \<Longrightarrow>
    run_step L cfg p (p\<lparr>ps_result := Some (case ps_err p of None \<Rightarrow> Inr () | Some err \<Rightarrow> Inl err)\<rparr>)"

inductive fault_step :: "Config \<Rightarrow> process \<Rightarrow> process \<Rightarrow> bool" for cfg where
  listen_fails: "t \<in> {ExtProcTask, HealthTask} \<Longrightarrow> ps_pc p t = Serving \<Longrightarrow> ps_server p t = Listening \<Longrightarrow>
    serveGRPC_listen (Listen :: string \<Rightarrow> string result) (BindAddress cfg) (grpc_port cfg t) = Inl err \<Longrightarrow>
    fault_step cfg p (task_return t (Inl err) p)"
| serve_fails: "t \<in> {ExtProcTask, HealthTask} \<Longrightarrow> ps_pc p t = Serving \<Longrightarrow> ps_server p t \<noteq> Listening \<Longrightarrow>
    serveGRPC_serve (Inl e) (grpc_port cfg t) = Inl err \<Longrightarrow> fault_step cfg p (task_return t (Inl err) p)"
| metrics_fails: "ps_pc p MetricsTask = Serving \<Longrightarrow> serveMetrics ListenAndServe cfg = Inl err \<Longrightarrow>
    fault_step cfg p (task_return MetricsTask (Inl err) p)"

text \<open>The rest of the process: engine goroutines reading the hub, drain workers, requests. A drain waits for the requests of
  its engine, but no longer than the drain timeout. Time is not part of the state and the timeout may have run out at any
  moment, so rule \<open>finish\<close> has no guard: a drain may end whether its requests have ended or not. That it does end is not a
  consequence of these rules but an assumption of the statements that need it.\<close>

inductive data_step :: "llmd \<Rightarrow> Config \<Rightarrow> process \<Rightarrow> process \<Rightarrow> bool" for L cfg where
  await: "data_step L cfg p (p\<lparr>ps_sys := (ps_sys p)\<lparr>sy_m :=
    Engine_await_ready e (eng_parent (st_engines (sy_m (ps_sys p)) e)) now (sy_m (ps_sys p))\<rparr>\<rparr>)"
| ready_load: "data_step L cfg p (p\<lparr>ps_sys := (ps_sys p)\<lparr>sy_m := markReady_load c (sy_m (ps_sys p))\<rparr>\<rparr>)"
| ready_store: "data_step L cfg p (p\<lparr>ps_sys := (ps_sys p)\<lparr>sy_m := markReady_store c (sy_m (ps_sys p))\<rparr>\<rparr>)"
| discover: "data_step L cfg p (p\<lparr>ps_sys := (ps_sys p)\<lparr>sy_m :=
    Engine_discovery_round Equal (cd_hub (ps_discovery p)) e i (eng_parent (st_engines (sy_m (ps_sys p)) e)) (sy_m (ps_sys p))\<rparr>\<rparr>)"
| take: "m_drainCh (sy_m (ps_sys p)) = t # q \<Longrightarrow>
    int (length (sy_infl (ps_sys p))) < mc_drainWorkers (production_cfg L (manager_options cfg)) \<Longrightarrow>
    data_step L cfg p (p\<lparr>ps_sys := (ps_sys p)\<lparr>sy_m := Manager_drain_begin t ((sy_m (ps_sys p))\<lparr>m_drainCh := q\<rparr>),
      sy_infl := t # sy_infl (ps_sys p)\<rparr>\<rparr>)"
| finish: "t \<in> set (sy_infl (ps_sys p)) \<Longrightarrow>
    data_step L cfg p (p\<lparr>ps_sys := (ps_sys p)\<lparr>sy_m := Manager_drain_end t (sy_m (ps_sys p)),
      sy_infl := remove1 t (sy_infl (ps_sys p))\<rparr>\<rparr>)"
| arrive: "ps_server p ExtProcTask = Accepting \<Longrightarrow> data_step L cfg p (p\<lparr>ps_sys := (ps_sys p)\<lparr>sy_reqs := sy_reqs (ps_sys p) @ [ReqStart]\<rparr>\<rparr>)"
| request: "i < length (sy_reqs (ps_sys p)) \<Longrightarrow> req_step (sy_reqs (ps_sys p) ! i, sy_m (ps_sys p)) (pc, m) \<Longrightarrow>
    data_step L cfg p (p\<lparr>ps_sys := (ps_sys p)\<lparr>sy_m := m, sy_reqs := (sy_reqs (ps_sys p))[i := pc]\<rparr>\<rparr>)"

definition proc_step :: "llmd \<Rightarrow> Config \<Rightarrow> process \<Rightarrow> process \<Rightarrow> bool" where
  "proc_step L cfg p q \<longleftrightarrow> run_step L cfg p q \<or> fault_step cfg p q \<or> data_step L cfg p q"

lemma fault_stepE:
  assumes "fault_step cfg p q"
  obtains t e where "t \<in> {ExtProcTask, HealthTask, MetricsTask}" "ps_pc p t = Serving" "q = task_return t (Inl e) p"
  using assms by cases auto

lemma server_results [simp]:
  "serveGRPC_serve (Inr ()) port = Inr ()" "serveMetrics (\<lambda>_. ErrServerClosed) cfg = Inr ()"
  by (simp_all add: serveGRPC_serve_def serveMetrics_def Let_def)

section \<open>The process refines the concurrent system\<close>

lemma ensure_all_run:
  "(sys_step L opts)\<^sup>*\<^sup>* s (s\<lparr>sy_m := snd (ensure_all (production_cfg L opts) mine (sy_m s))\<rparr>)"
proof (induction mine arbitrary: s)
  case (Cons x mine)
  obtain key role where x: "x = (key, role)" by fastforce
  let ?m = "snd (Manager_Ensure (production_cfg L opts) key role (sy_m s))"
  have one: "sys_step L opts s (s\<lparr>sy_m := ?m\<rparr>)" by (rule sys_step.ensure)
  have "(sys_step L opts)\<^sup>*\<^sup>* (s\<lparr>sy_m := ?m\<rparr>) (s\<lparr>sy_m := snd (ensure_all (production_cfg L opts) mine ?m)\<rparr>)"
    using Cons.IH [of "s\<lparr>sy_m := ?m\<rparr>"] by simp
  with one show ?case
    by (cases "Manager_Ensure (production_cfg L opts) key role (sy_m s)")
      (auto simp: x split: sum.split intro: converse_rtranclp_into_rtranclp)
qed simp

lemma drop_unassigned_run: "(sys_step L opts)\<^sup>*\<^sup>* s (s\<lparr>sy_m := drop_unassigned mine cs (sy_m s)\<rparr>)"
proof (induction cs arbitrary: s)
  case (Cons c cs)
  let ?m = "Manager_Drop (c_Key (st_cells (sy_m s) c)) (sy_m s)"
  have "sys_step L opts s (s\<lparr>sy_m := ?m\<rparr>)" by (rule sys_step.dropped)
  then show ?case
    using Cons.IH [of s] Cons.IH [of "s\<lparr>sy_m := ?m\<rparr>"] by (auto intro: converse_rtranclp_into_rtranclp)
qed simp

lemma apply_all_run:
  "(sys_step L opts)\<^sup>*\<^sup>* s (s\<lparr>sy_m := apply_all (production_cfg L opts) mine now configs (sy_m s)\<rparr>)"
proof (induction configs arbitrary: s)
  case (Cons x configs)
  obtain cluster raw where x: "x = (cluster, raw)" by fastforce
  let ?m = "snd (Manager_ApplyConfig (production_cfg L opts) cluster raw now (sy_m s))"
  have "sys_step L opts s (s\<lparr>sy_m := ?m\<rparr>)" by (rule sys_step.apply_config)
  then show ?case
    using Cons.IH [of s] Cons.IH [of "s\<lparr>sy_m := ?m\<rparr>"]
    by (auto simp: x apply_all_step simp del: apply_all.simps intro: converse_rtranclp_into_rtranclp)
qed simp

text \<open>Handling a snapshot is a run of the system, whose steps others may see in between.\<close>

lemma handle_run:
  fixes s :: watcher_sys
  shows "(sys_step L opts)\<^sup>*\<^sup>* s
    (s\<lparr>sy_m := snd (EppDataWatcher_Handle (production_cfg L opts) self now conf (sy_m s))\<rparr>)"
proof -
  define mine where "mine = handle_mine self (ed_Assignment conf) []"
  define m1 where "m1 = (sy_m s)\<lparr>w_assignmentNoMatch := (if mine = [] then 1 else 0)\<rparr>"
  define m2 where "m2 = snd (ensure_all (production_cfg L opts) mine m1)"
  define m3 where "m3 = drop_unassigned mine (Manager_List m2) m2"
  have "sys_step L opts s (s\<lparr>sy_m := m1\<rparr>)"
    by (rule sys_step.own) (simp add: m1_def Manager.truncate_def)
  also have "(sys_step L opts)\<^sup>*\<^sup>* (s\<lparr>sy_m := m1\<rparr>) (s\<lparr>sy_m := m2\<rparr>)"
    using ensure_all_run [of L opts "s\<lparr>sy_m := m1\<rparr>" mine] by (simp add: m2_def)
  finally have ensured: "(sys_step L opts)\<^sup>*\<^sup>* s (s\<lparr>sy_m := m2\<rparr>)" by simp
  also have "(sys_step L opts)\<^sup>*\<^sup>* (s\<lparr>sy_m := m2\<rparr>) (s\<lparr>sy_m := m3\<rparr>)"
    using drop_unassigned_run [of L opts "s\<lparr>sy_m := m2\<rparr>"] by (simp add: m3_def)
  also have "(sys_step L opts)\<^sup>*\<^sup>* (s\<lparr>sy_m := m3\<rparr>)
      (s\<lparr>sy_m := apply_all (production_cfg L opts) mine now (ed_EppConfig conf) m3\<rparr>)"
    using apply_all_run [of L opts "s\<lparr>sy_m := m3\<rparr>"] by simp
  finally show ?thesis
    using ensured
    by (cases "ensure_all (production_cfg L opts) mine m1")
      (auto simp: EppDataWatcher_Handle_def Let_def mine_def [symmetric] m1_def m2_def m3_def split: option.split if_splits)
qed

lemma round_state:
  assumes "Poller_round handle fetch now (p, s) = (d, q, s')"
  obtains "s' = s" | data where "s' = snd (handle data s)"
  using assms by (cases rule: round_cases [of fetch p handle now s]) (auto, (metis snd_conv)+)

lemma data_step_sys:
  assumes "data_step L cfg p q"
  shows "sys_step L (manager_options cfg) (ps_sys p) (ps_sys q)" "q = p\<lparr>ps_sys := ps_sys q\<rparr>"
  using assms by (cases; auto intro: sys_step.intros)+

lemma task_return_sys [simp]: "ps_sys (task_return t r p) = ps_sys p"
  by (simp add: task_return_def Let_def split: sum.split)

lemma run_step_sys:
  assumes "run_step L cfg p q"
  shows "(sys_step L (manager_options cfg))\<^sup>*\<^sup>* (ps_sys p) (ps_sys q)"
  using assms
proof cases
  case (eppData_round now ReadFile net delay q m)
  from eppData_round(3) show ?thesis
  proof (cases rule: round_state)
    case 1
    with eppData_round(1) show ?thesis by simp
  next
    case (2 conf)
    with eppData_round(1) handle_run [of L "manager_options cfg" "ps_sys p" "InstanceID cfg" now conf] show ?thesis by simp
  qed
qed simp_all

lemma fault_step_sys: "fault_step cfg p q \<Longrightarrow> ps_sys q = ps_sys p"
  by (auto elim: fault_stepE)

definition sys_start :: "llmd \<Rightarrow> Config \<Rightarrow> watcher_sys" where
  "sys_start L cfg = ps_sys (new_process L cfg)"

lemma sys_inv_start: "sys_inv L (manager_options cfg) (sys_start L cfg)"
proof -
  have "mgr_inv [] (NewEppDataWatcher (snd (NewManager L (manager_options cfg))))"
    by (simp add: NewManager_def NewEppDataWatcher_def Manager.extend_def mgr_inv_defs smap_Load_def)
  then show ?thesis
    by (simp add: sys_start_def new_process_def Let_def sys_inv_def)
      (simp add: NewManager_def NewEppDataWatcher_def Manager.extend_def production_cfg_def manager_options_def)
qed

lemma process_run_sys:
  "(proc_step L cfg)\<^sup>*\<^sup>* p q \<Longrightarrow> (sys_step L (manager_options cfg))\<^sup>*\<^sup>* (ps_sys p) (ps_sys q)"
proof (induction rule: rtranclp_induct)
  case (step q r)
  have "(sys_step L (manager_options cfg))\<^sup>*\<^sup>* (ps_sys q) (ps_sys r)"
    using step(2) run_step_sys data_step_sys(1) fault_step_sys unfolding proc_step_def by (metis r_into_rtranclp rtranclp.rtrancl_refl)
  with step(3) show ?case by simp
qed simp

section \<open>The invariant of the process\<close>

definition pc_shape :: "task \<Rightarrow> task_pc \<Rightarrow> bool" where
  "pc_shape t c \<longleftrightarrow> c = TaskDone \<or>
     (case t of DiscoveryTask \<Rightarrow> c \<in> range InSelect | EppDataTask \<Rightarrow> c \<in> range InSelect
      | GateTask \<Rightarrow> c \<in> {GateSync, GatePoll} \<union> range GateSleep \<union> range (case_prod GateScan) | _ \<Rightarrow> c = Serving)"

definition undisturbed :: "process \<Rightarrow> bool" where
  "undisturbed p \<longleftrightarrow> ps_err p = None \<and> ps_result p = None \<and> ps_main p = MainWait \<and> (\<forall>t. ps_server p t \<noteq> Stopped) \<and>
     ps_pc p ExtProcTask = Serving \<and> ps_pc p HealthTask = Serving \<and> ps_pc p MetricsTask = Serving \<and>
     ps_pc p DiscoveryTask = InSelect True \<and> ps_pc p EppDataTask = InSelect True \<and>
     ps_pc p GateTask \<noteq> GateSleep False \<and> (ps_pc p GateTask = TaskDone \<longrightarrow> hs_ready (ps_health p))"

text \<open>The gate has got past its first wait.\<close>

fun past_sync :: "task_pc \<Rightarrow> bool" where
  "past_sync GatePoll = True"
| "past_sync (GateScan _ _) = True"
| "past_sync (GateSleep _) = True"
| "past_sync _ = False"

definition process_inv :: "process \<Rightarrow> bool" where
  "process_inv p \<longleftrightarrow>
     hub_inv (cd_hub (ps_discovery p)) \<and> poller_wf (ps_discoveryLoop p) \<and> poller_wf (ps_eppDataLoop p) \<and>
     (hs_ready (ps_health p) \<or> past_sync (ps_pc p GateTask) \<longrightarrow> Poller_FirstSync (ps_eppDataLoop p)) \<and>
     (\<forall>t. pc_shape t (ps_pc p t)) \<and> ps_server p MetricsTask \<noteq> Listening \<and>
     (\<not> ps_cancelled p \<longrightarrow> undisturbed p) \<and>
     (ps_main p \<noteq> MainWait \<longrightarrow> (\<forall>t. ps_pc p t = TaskDone) \<and> ps_server p ExtProcTask = Stopped) \<and>
     (\<forall>r. ps_result p = Some r \<longrightarrow> ps_main p = MainStopHealth \<and>
        r = (case ps_err p of None \<Rightarrow> Inr () | Some err \<Rightarrow> Inl err))"

lemma FirstSync_kept:
  assumes "Poller_round handle fetch now (p, s) = (d, q, s')" "Poller_FirstSync p"
  shows "Poller_FirstSync q"
  using assms by (cases rule: round_cases [of fetch p handle now s])
    (auto simp: Poller_FirstSync_def Poller_fail_def Poller_synced_def syncOnce_do_def Let_def)

lemma process_inv_new: "process_inv (new_process L cfg)"
  by (auto simp: process_inv_def new_process_def Let_def NewClusterDiscovery_def NewHub_inv pc_shape_def undisturbed_def
      split: task.splits)

lemma task_return_fields:
  "ps_discovery (task_return t r p) = ps_discovery p" "ps_discoveryLoop (task_return t r p) = ps_discoveryLoop p"
  "ps_eppDataLoop (task_return t r p) = ps_eppDataLoop p" "ps_health (task_return t r p) = ps_health p"
  "ps_server (task_return t r p) = ps_server p" "ps_main (task_return t r p) = ps_main p"
  "ps_result (task_return t r p) = ps_result p" "ps_pc (task_return t r p) = (ps_pc p)(t := TaskDone)"
  "ps_err (task_return t r p) = (case r of Inr _ \<Rightarrow> ps_err p | Inl err \<Rightarrow> Some (case ps_err p of None \<Rightarrow> err | Some e \<Rightarrow> e))"
  "ps_cancelled (task_return t r p) = (ps_cancelled p \<or> (ps_err p = None \<and> isl r))"
  by (auto simp: task_return_def Let_def split: sum.split option.split)

lemma inv_running:
  assumes "process_inv p" "ps_pc p t \<noteq> TaskDone"
  shows "ps_main p = MainWait" "ps_result p = None"
  using assms by (auto simp: process_inv_def)

text \<open>A step that moves one goroutine of the group and leaves the servers and the main goroutine alone.\<close>

lemma inv_move:
  assumes "process_inv p" "ps_pc p t \<noteq> TaskDone" "ps_pc q = (ps_pc p)(t := c)" "pc_shape t c"
    and "ps_server q = ps_server p" "ps_main q = ps_main p" "ps_result q = ps_result p"
    and "hub_inv (cd_hub (ps_discovery q))" "poller_wf (ps_discoveryLoop q)" "poller_wf (ps_eppDataLoop q)"
    and "hs_ready (ps_health q) \<or> past_sync (ps_pc q GateTask) \<Longrightarrow> Poller_FirstSync (ps_eppDataLoop q)"
    and "\<not> ps_cancelled q \<Longrightarrow> undisturbed p \<Longrightarrow> undisturbed q" "\<not> ps_cancelled q \<Longrightarrow> \<not> ps_cancelled p"
  shows "process_inv q"
proof -
  have idle: "ps_main q = MainWait" "ps_result q = None" using inv_running [OF assms(1,2)] assms(6,7) by simp_all
  have "pc_shape u (ps_pc q u)" for u using assms(1,3,4) by (simp add: process_inv_def)
  with idle assms(1,5,8-13) show ?thesis by (simp add: process_inv_def)
qed

lemma inv_return:
  assumes "process_inv p" "ps_pc p t \<noteq> TaskDone"
    and "ps_cancelled p \<or> isl r \<or> t = GateTask \<and> hs_ready (ps_health p)"
  shows "process_inv (task_return t r p)"
proof (rule inv_move [OF assms(1,2)])
  show "undisturbed (task_return t r p)" if "\<not> ps_cancelled (task_return t r p)" "undisturbed p"
    using that assms(3) by (cases r) (auto simp: undisturbed_def task_return_fields)
  show "hs_ready (ps_health (task_return t r p)) \<or> past_sync (ps_pc (task_return t r p) GateTask) \<Longrightarrow>
      Poller_FirstSync (ps_eppDataLoop (task_return t r p))"
    using assms(1) by (cases "t = GateTask") (auto simp: task_return_fields process_inv_def)
  show "pc_shape t TaskDone" by (simp add: pc_shape_def)
qed (use assms(1) in \<open>simp_all add: task_return_fields process_inv_def\<close>)

lemma inv_round:
  assumes "process_inv p" "ps_pc p t = InSelect True" "t \<in> {DiscoveryTask, EppDataTask}"
    and "ps_pc q = (ps_pc p)(t := InSelect (timer_can_fire (ps_cancelled p) delay))"
    and "ps_cancelled q = ps_cancelled p" "ps_err q = ps_err p" "ps_result q = ps_result p" "ps_health q = ps_health p"
    and "ps_server q = ps_server p" "ps_main q = ps_main p"
    and "hub_inv (cd_hub (ps_discovery q))" "poller_wf (ps_discoveryLoop q)" "poller_wf (ps_eppDataLoop q)"
    and "Poller_FirstSync (ps_eppDataLoop p) \<Longrightarrow> Poller_FirstSync (ps_eppDataLoop q)"
  shows "process_inv q"
proof (rule inv_move [OF assms(1) _ assms(4)])
  show "undisturbed q" if "\<not> ps_cancelled q" "undisturbed p"
    using that assms(3-10) by (auto simp: undisturbed_def timer_can_fire_def)
  show "hs_ready (ps_health q) \<or> past_sync (ps_pc q GateTask) \<Longrightarrow> Poller_FirstSync (ps_eppDataLoop q)"
    using assms(1,3,4,8,14) by (auto simp: process_inv_def)
qed (use assms in \<open>auto simp: pc_shape_def\<close>)

lemma inv_gate:
  assumes "process_inv p" "ps_pc p GateTask \<noteq> TaskDone" "Poller_FirstSync (ps_eppDataLoop p)"
    and "past_sync c" "c = GateSleep False \<Longrightarrow> ps_cancelled p"
  shows "process_inv (set_pc GateTask c p)"
proof (rule inv_move [OF assms(1,2)])
  show "undisturbed (set_pc GateTask c p)" if "\<not> ps_cancelled (set_pc GateTask c p)" "undisturbed p"
    using that assms(4,5) by (auto simp: undisturbed_def)
  show "pc_shape GateTask c" using assms(4) by (cases c) (auto simp: pc_shape_def image_iff)
qed (use assms in \<open>auto simp: process_inv_def\<close>)

lemma inv_server:
  assumes "process_inv p" "x \<noteq> Listening" "x = Stopped \<Longrightarrow> ps_cancelled p" "ps_main p \<noteq> MainWait \<Longrightarrow> x = Stopped"
  shows "process_inv (set_server t x p)"
proof -
  have "undisturbed (set_server t x p)" if "\<not> ps_cancelled p"
    using that assms(1,3) by (auto simp: process_inv_def undisturbed_def)
  moreover have "ps_server (set_server t x p) MetricsTask \<noteq> Listening"
    "ps_main p \<noteq> MainWait \<longrightarrow> ps_server (set_server t x p) ExtProcTask = Stopped"
    using assms by (auto simp: process_inv_def)
  ultimately show ?thesis using assms(1) by (simp add: process_inv_def)
qed

lemma all_done_cancelled: "process_inv p \<Longrightarrow> \<forall>t. ps_pc p t = TaskDone \<Longrightarrow> ps_cancelled p"
  by (auto simp: process_inv_def undisturbed_def)

lemma process_inv_run:
  assumes "run_step L cfg p q" "process_inv p"
  shows "process_inv q"
  using assms(1)
proof cases
  case signal
  with assms(2) show ?thesis by (auto simp: process_inv_def undisturbed_def)
next
  case (discovery_round ReadFile net now delay poller d)
  have "hub_inv (cd_hub d)"
    using discovery_round(3)
  proof (cases rule: round_state)
    case 1
    with assms(2) show ?thesis by (simp add: process_inv_def)
  next
    case (2 desired)
    with hub_consumer.handle_inv [where s = "ps_discovery p"] assms(2) show ?thesis by (simp add: process_inv_def)
  qed
  moreover have "poller_wf poller" using round_wf(1) [OF _ discovery_round(3)] assms(2) by (simp add: process_inv_def)
  ultimately show ?thesis
    using discovery_round(1,2) assms(2)
    by (intro inv_round [OF assms(2) discovery_round(2)]) (simp_all add: process_inv_def)
next
  case (eppData_round now ReadFile net delay poller m)
  have "poller_wf poller" using round_wf(1) [OF _ eppData_round(3)] assms(2) by (simp add: process_inv_def)
  with eppData_round(1,2) assms(2) FirstSync_kept [OF eppData_round(3)] show ?thesis
    by (intro inv_round [OF assms(2) eppData_round(2)]) (simp_all add: process_inv_def)
next
  case (loop_done t b)
  then show ?thesis using inv_return [OF assms(2), of t "Inr ()"] by simp
next
  case (grpc_listen t Listen lis)
  then have "ps_main p = MainWait" using inv_running(1) [OF assms(2), of t] by simp
  with grpc_listen(1) show ?thesis using inv_server [OF assms(2), of Accepting t] by simp
next
  case (server_stop t)
  then show ?thesis using inv_server [OF assms(2), of Stopped t] by simp
next
  case (grpc_done t)
  then have "ps_cancelled p" using assms(2) by (auto simp: process_inv_def undisturbed_def)
  with grpc_done show ?thesis using inv_return [OF assms(2), of t "Inr ()"] by simp
next
  case metrics_done
  then have "ps_cancelled p" using assms(2) by (auto simp: process_inv_def undisturbed_def)
  with metrics_done show ?thesis using inv_return [OF assms(2), of MetricsTask "Inr ()"] by simp
next
  case gate_synced
  then show ?thesis using inv_gate [OF assms(2), of GatePoll] by simp
next
  case gate_list
  then show ?thesis using inv_gate [OF assms(2), of "GateScan True (Manager_List (sy_m (ps_sys p)))"] assms(2)
    by (simp add: process_inv_def)
next
  case (gate_cell ok c cs)
  then show ?thesis using inv_gate [OF assms(2), of "GateScan (if Cell_Ready c (sy_m (ps_sys p)) then ok else False) cs"] assms(2)
    by (simp add: process_inv_def)
next
  case gate_ready
  then have "process_inv (p\<lparr>ps_health := setReady True (ps_health p)\<rparr>)"
    using assms(2) by (auto simp: process_inv_def undisturbed_def setReady_def)
  from inv_return [OF this, of GateTask "Inr ()"] gate_ready show ?thesis by (simp add: setReady_def)
next
  case (gate_not_ready ok)
  then show ?thesis using inv_gate [OF assms(2), of "GateSleep (\<not> ps_cancelled p)"] assms(2) by (simp add: process_inv_def)
next
  case gate_again
  then show ?thesis using inv_gate [OF assms(2), of GatePoll] assms(2) by (simp add: process_inv_def)
next
  case (gate_done b)
  then show ?thesis using inv_return [OF assms(2), of GateTask "Inr ()"] by auto
next
  case wait
  then show ?thesis using all_done_cancelled [OF assms(2)] assms(2) by (simp add: process_inv_def)
next
  case stop_extproc
  then have "\<forall>t. ps_pc p t = TaskDone" using assms(2) by (simp add: process_inv_def)
  then show ?thesis using stop_extproc all_done_cancelled [OF assms(2)] assms(2) by (simp add: process_inv_def)
next
  case stop_health
  then have "\<forall>t. ps_pc p t = TaskDone" using assms(2) by (simp add: process_inv_def)
  then show ?thesis using stop_health all_done_cancelled [OF assms(2)] assms(2) by (simp add: process_inv_def)
qed

lemma process_inv_fault: "fault_step cfg p q \<Longrightarrow> process_inv p \<Longrightarrow> process_inv q"
  by (elim fault_stepE) (auto intro!: inv_return)

lemma process_inv_step:
  assumes "proc_step L cfg p q" "process_inv p"
  shows "process_inv q"
proof -
  have "process_inv q" if "data_step L cfg p q"
  proof -
    have "process_inv (p\<lparr>ps_sys := s\<rparr>)" for s using assms(2) by (simp add: process_inv_def undisturbed_def)
    then show ?thesis using data_step_sys(2) [OF that] by metis
  qed
  then show ?thesis using assms process_inv_run process_inv_fault unfolding proc_step_def by blast
qed

lemma reachable_process_inv: "(proc_step L cfg)\<^sup>*\<^sup>* (new_process L cfg) p \<Longrightarrow> process_inv p"
  by (induction rule: rtranclp_induct) (auto intro: process_inv_new process_inv_step)

lemma sys_inv_roles:
  assumes "sys_inv L opts s"
  shows "roles_agree (sy_m s)"
proof -
  have mgr: "mgr_inv (sy_infl s) (sy_m s)" using assms by (simp add: sys_inv_def)
  show ?thesis unfolding roles_agree_def using assms Get_bound [OF mgr] by (auto simp: sys_inv_def)
qed

text \<open>What is shown of the manager holds in every state of the process.\<close>

lemma reachable_manager:
  assumes "(proc_step L cfg)\<^sup>*\<^sup>* (new_process L cfg) p"
  shows "(sys_step L (manager_options cfg))\<^sup>*\<^sup>* (sys_start L cfg) (ps_sys p)"
    and "sys_inv L (manager_options cfg) (ps_sys p)"
    and "mgr_inv (sy_infl (ps_sys p)) (sy_m (ps_sys p))" and "roles_agree (sy_m (ps_sys p))"
proof -
  show run: "(sys_step L (manager_options cfg))\<^sup>*\<^sup>* (sys_start L cfg) (ps_sys p)"
    using process_run_sys [OF assms] by (simp add: sys_start_def)
  show inv: "sys_inv L (manager_options cfg) (ps_sys p)"
    using run_grows [OF run sys_inv_start] by blast
  then show "mgr_inv (sy_infl (ps_sys p)) (sy_m (ps_sys p))" by (simp add: sys_inv_def)
  show "roles_agree (sy_m (ps_sys p))" by (rule sys_inv_roles [OF inv])
qed

section \<open>Shutting down\<close>

text \<open>How many steps a goroutine has left once the context is cancelled, the cells the gate looks at apart;
  how many the goroutine that stops a server, with the listening before it; how many \<open>run\<close> itself.\<close>

fun steps_left :: "task_pc \<Rightarrow> nat" where
  "steps_left Serving = 1"
| "steps_left (InSelect b) = (if b then 2 else 1)"
| "steps_left GateSync = 4"
| "steps_left GatePoll = 3"
| "steps_left (GateScan _ _) = 2"
| "steps_left (GateSleep b) = (if b then 4 else 1)"
| "steps_left TaskDone = 0"

fun server_left :: "server_state \<Rightarrow> nat" where
  "server_left Listening = 2"
| "server_left Accepting = 1"
| "server_left Stopped = 0"

definition main_left :: "process \<Rightarrow> nat" where
  "main_left p = (if ps_result p \<noteq> None then 0
     else case ps_main p of MainWait \<Rightarrow> 3 | MainStopExtProc \<Rightarrow> 2 | MainStopHealth \<Rightarrow> 1)"

definition tasks :: "task list" where
  "tasks = [ExtProcTask, HealthTask, MetricsTask, DiscoveryTask, EppDataTask, GateTask]"

definition shutdown_measure :: "process \<Rightarrow> nat" where
  "shutdown_measure p = sum_list (map (\<lambda>t. steps_left (ps_pc p t)) tasks) +
     sum_list (map (\<lambda>t. server_left (ps_server p t)) [ExtProcTask, HealthTask, MetricsTask]) + main_left p"

text \<open>The cells the gate has still to look at, and whether it may still list the registry.\<close>

fun scan_left :: "task_pc \<Rightarrow> nat" where
  "scan_left (GateScan _ cs) = length cs"
| "scan_left _ = 0"

fun to_scan :: "task_pc \<Rightarrow> bool" where
  "to_scan GateSync = True"
| "to_scan GatePoll = True"
| "to_scan (GateSleep b) = b"
| "to_scan _ = False"

lemma set_tasks: "t \<in> set tasks"
  by (cases t) (simp_all add: tasks_def)

lemma measure_update:
  assumes "ps_pc q = (ps_pc p)(t := c)" "ps_server q = ps_server p" "ps_main q = ps_main p" "ps_result q = ps_result p"
    "steps_left c < steps_left (ps_pc p t)"
  shows "shutdown_measure q < shutdown_measure p"
  using assms by (cases t) (auto simp: shutdown_measure_def tasks_def main_left_def)

lemma measure_server:
  assumes "t \<in> {ExtProcTask, HealthTask, MetricsTask}" "server_left x < server_left (ps_server p t)"
  shows "shutdown_measure (set_server t x p) < shutdown_measure p"
  using assms by (auto simp: shutdown_measure_def main_left_def)

lemma measure_stopped: "shutdown_measure (set_server t Stopped p) \<le> shutdown_measure p"
  by (auto simp: shutdown_measure_def main_left_def)

lemma measure_bound: "process_inv p \<Longrightarrow> shutdown_measure p \<le> 19"
proof -
  assume inv: "process_inv p"
  have b: "steps_left (ps_pc p t) \<le> (case t of DiscoveryTask \<Rightarrow> 2 | EppDataTask \<Rightarrow> 2 | GateTask \<Rightarrow> 4 | _ \<Rightarrow> 1)" for t
  proof -
    have "pc_shape t (ps_pc p t)" using inv by (simp add: process_inv_def)
    then show ?thesis by (auto simp: pc_shape_def split: task.splits)
  qed
  have v: "server_left x \<le> 2" for x by (cases x) simp_all
  have "ps_server p MetricsTask \<noteq> Listening" using inv by (simp add: process_inv_def)
  then have "server_left (ps_server p MetricsTask) \<le> 1" by (cases "ps_server p MetricsTask") simp_all
  moreover have "main_left p \<le> 3" by (simp add: main_left_def split: main_pc.split)
  ultimately show ?thesis
    using b [of ExtProcTask] b [of HealthTask] b [of MetricsTask] b [of DiscoveryTask] b [of EppDataTask] b [of GateTask]
      v [of "ps_server p ExtProcTask"] v [of "ps_server p HealthTask"]
    by (simp add: shutdown_measure_def tasks_def)
qed

lemma list_bound:
  assumes "mgr_inv infl m"
  shows "length (Manager_List m) \<le> m_nextCell m"
proof -
  have wf: "gomap_wf (m_cells m)" "registry_wf m" using assms by (simp_all add: mgr_inv_def registry_wf_def)
  have entry: "c < m_nextCell m \<and> c_Key (st_cells m c) = k" if "(k, c) \<in> set (m_cells m)" for k c
    using that wf by (simp add: registry_wf_def smap_Load_def)
  have "inj_on snd (set (m_cells m))"
  proof (rule inj_onI)
    fix x y assume a: "x \<in> set (m_cells m)" "y \<in> set (m_cells m)" "snd x = snd y"
    have "fst z = c_Key (st_cells m (snd z))" if "z \<in> set (m_cells m)" for z
      using entry [of "fst z" "snd z"] that by simp
    with a show "x = y" by (metis prod_eqI)
  qed
  then have "distinct (Manager_List m)"
    using wf(1) by (simp add: Manager_List_def smap_Range_def distinct_map)
  moreover have "set (Manager_List m) \<subseteq> {..<m_nextCell m}" using entry by (auto simp: Manager_List_def smap_Range_def)
  ultimately show ?thesis by (metis card_lessThan card_mono distinct_card finite_lessThan)
qed

text \<open>A step of the program after the cancellation brings it nearer to its end: it spends one of the steps left, or
  it is the one step in which the gate lists the registry.\<close>

definition nearer :: "process \<Rightarrow> process \<Rightarrow> bool" where
  "nearer p q \<longleftrightarrow>
     shutdown_measure q \<le> shutdown_measure p \<and> scan_left (ps_pc q GateTask) \<le> scan_left (ps_pc p GateTask) \<and>
       shutdown_measure q + scan_left (ps_pc q GateTask) < shutdown_measure p + scan_left (ps_pc p GateTask) \<and>
       (to_scan (ps_pc q GateTask) \<longrightarrow> to_scan (ps_pc p GateTask)) \<or>
     shutdown_measure q < shutdown_measure p \<and> to_scan (ps_pc p GateTask) \<and> \<not> to_scan (ps_pc q GateTask) \<and>
       scan_left (ps_pc q GateTask) \<le> m_nextCell (sy_m (ps_sys q))"

lemma nearer_other:
  assumes "shutdown_measure q < shutdown_measure p" "ps_pc q GateTask = ps_pc p GateTask"
  shows "nearer p q"
  using assms by (simp add: nearer_def)

lemma nearer_done:
  assumes "ps_pc p t \<noteq> TaskDone" "q = task_return t r p"
  shows "nearer p q"
proof -
  have "0 < steps_left (ps_pc p t)" using assms(1) by (cases "ps_pc p t") simp_all
  then have "shutdown_measure q < shutdown_measure p"
    using assms(2) by (intro measure_update [of q p t TaskDone]) (simp_all add: task_return_fields)
  then show ?thesis using assms(2) by (cases "t = GateTask") (auto simp: nearer_def task_return_fields)
qed

lemma nearer_gate:
  assumes "q = set_pc GateTask c p" "steps_left c < steps_left (ps_pc p GateTask)"
    "to_scan c \<longrightarrow> to_scan (ps_pc p GateTask)" "scan_left c = 0"
  shows "nearer p q"
  using assms measure_update [of q p GateTask c] by (simp add: nearer_def)

lemma run_step_cancelled:
  assumes "run_step L cfg p q" "process_inv p" "ps_cancelled p" "mgr_inv (sy_infl (ps_sys p)) (sy_m (ps_sys p))"
  shows "ps_cancelled q \<and> nearer p q"
  using assms(1)
proof cases
  case signal
  with assms(3) show ?thesis by simp
next
  case (discovery_round ReadFile net now delay poller d)
  have "0 < sint delay" using round_wf(3) [OF _ discovery_round(3)] assms(2) by (simp add: process_inv_def)
  then have "\<not> timer_can_fire (ps_cancelled p) delay" using assms(3) by (simp add: timer_can_fire_def)
  with discovery_round(1,2) assms(3) measure_update [of q p DiscoveryTask "InSelect False"] show ?thesis by (simp add: nearer_other)
next
  case (eppData_round now ReadFile net delay poller m)
  have "0 < sint delay" using round_wf(3) [OF _ eppData_round(3)] assms(2) by (simp add: process_inv_def)
  then have "\<not> timer_can_fire (ps_cancelled p) delay" using assms(3) by (simp add: timer_can_fire_def)
  with eppData_round(1,2) assms(3) measure_update [of q p EppDataTask "InSelect False"] show ?thesis by (simp add: nearer_other)
next
  case (loop_done t b)
  then show ?thesis using assms(3) nearer_done [of p t q "Inr ()"] by (simp add: task_return_fields)
next
  case (grpc_listen t Listen lis)
  then show ?thesis using assms(3) measure_server [of t Accepting p] by (auto intro: nearer_other)
next
  case (server_stop t)
  then show ?thesis using assms(3) measure_server [of t Stopped p] by (auto intro: nearer_other)
next
  case (grpc_done t)
  then show ?thesis using assms(3) nearer_done [of p t q "Inr ()"] by (simp add: task_return_fields)
next
  case metrics_done
  then show ?thesis using assms(3) nearer_done [of p MetricsTask q "Inr ()"] by (simp add: task_return_fields)
next
  case gate_synced
  then show ?thesis using assms(3) nearer_gate [of q p GatePoll] by simp
next
  case gate_list
  then have "shutdown_measure q < shutdown_measure p"
    using measure_update [of q p GateTask "GateScan True (Manager_List (sy_m (ps_sys p)))"] by simp
  with gate_list assms(3) list_bound [OF assms(4)] show ?thesis by (simp add: nearer_def)
next
  case (gate_cell ok c cs)
  then show ?thesis using assms(3) by (simp add: nearer_def shutdown_measure_def tasks_def main_left_def)
next
  case gate_ready
  have "shutdown_measure q < shutdown_measure p"
    using gate_ready measure_update [of q p GateTask TaskDone] by (simp add: task_return_fields)
  then show ?thesis using gate_ready assms(3) by (simp add: nearer_def task_return_fields)
next
  case (gate_not_ready ok)
  then show ?thesis using assms(3) nearer_gate [of q p "GateSleep False"] by simp
next
  case gate_again
  then show ?thesis using assms(3) nearer_gate [of q p GatePoll] by simp
next
  case (gate_done b)
  then show ?thesis using assms(3) nearer_done [of p GateTask q "Inr ()"] by (auto simp: task_return_fields)
next
  case wait
  have "ps_result p = None" using wait assms(2) by (cases "ps_result p") (auto simp: process_inv_def)
  then have "shutdown_measure (p\<lparr>ps_main := MainStopExtProc\<rparr>) < shutdown_measure p"
    using wait by (simp add: shutdown_measure_def main_left_def)
  then show ?thesis
    using wait assms(3) measure_stopped [of "p\<lparr>ps_main := MainStopExtProc\<rparr>" ExtProcTask] by (auto intro: nearer_other)
next
  case stop_extproc
  have "ps_result p = None" using stop_extproc assms(2) by (cases "ps_result p") (auto simp: process_inv_def)
  then have "shutdown_measure (p\<lparr>ps_main := MainStopHealth\<rparr>) < shutdown_measure p"
    using stop_extproc by (simp add: shutdown_measure_def main_left_def)
  then show ?thesis
    using stop_extproc assms(3) measure_stopped [of "p\<lparr>ps_main := MainStopHealth\<rparr>" HealthTask] by (auto intro: nearer_other)
next
  case stop_health
  then show ?thesis using assms(3) by (simp add: nearer_def shutdown_measure_def main_left_def)
qed

lemma fault_step_cancelled:
  assumes "fault_step cfg p q" "ps_cancelled p"
  shows "ps_cancelled q \<and> nearer p q"
proof -
  obtain t e where "ps_pc p t = Serving" "q = task_return t (Inl e) p" using assms(1) by (rule fault_stepE)
  then show ?thesis using nearer_done [of p t q "Inl e"] assms(2) by (simp add: task_return_fields)
qed

text \<open>What \<open>run\<close> may still have to wait for: request streams, in \<open>GracefulStop\<close>.\<close>

definition streams_pending :: "process \<Rightarrow> bool" where
  "streams_pending p \<longleftrightarrow> ps_main p = MainStopExtProc \<and> (\<exists>pc \<in> set (sy_reqs (ps_sys p)). pc \<noteq> ReqDone)"

lemma server_enabled:
  assumes "t \<in> {ExtProcTask, HealthTask, MetricsTask}" "ps_pc p t = Serving" "ps_cancelled p"
    "ps_server p MetricsTask \<noteq> Listening"
  shows "\<exists>q. run_step L cfg p q"
proof (cases "ps_server p t")
  case Listening
  have "serveGRPC_listen (\<lambda>a. Inr a :: string result) (BindAddress cfg) (grpc_port cfg t) = Inr (JoinHostPort (BindAddress cfg) (Itoa (grpc_port cfg t)))"
    by (simp add: serveGRPC_listen_def)
  moreover have "t \<in> {ExtProcTask, HealthTask}" using assms(1,4) Listening by auto
  ultimately show ?thesis using run_step.grpc_listen assms(2) Listening by blast
next
  case Accepting
  then show ?thesis using run_step.server_stop assms(1,3) by blast
next
  case Stopped
  then show ?thesis using run_step.grpc_done run_step.metrics_done assms(1,2) by (metis insert_iff singletonD)
qed

lemma gate_moves_on:
  assumes "pc_shape GateTask (ps_pc p GateTask)" "ps_pc p GateTask \<noteq> TaskDone" "ps_cancelled p"
  shows "\<exists>q. run_step L cfg p q"
proof -
  consider "ps_pc p GateTask = GateSync" | "ps_pc p GateTask = GatePoll" | b where "ps_pc p GateTask = GateSleep b"
    | ok where "ps_pc p GateTask = GateScan ok []" | ok c cs where "ps_pc p GateTask = GateScan ok (c # cs)"
    using assms(1,2) by (auto simp: pc_shape_def image_iff) (metis neq_Nil_conv)
  then show ?thesis
  proof cases
    case (4 ok)
    show ?thesis
    proof (cases "ok \<and> 0 < length (Manager_List (sy_m (ps_sys p)))")
      case True
      with 4 run_step.gate_ready [of p L cfg] show ?thesis by auto
    next
      case False
      with run_step.gate_not_ready [OF 4, of L cfg] show ?thesis by blast
    qed
  qed (use assms(3) run_step.gate_done run_step.gate_list run_step.gate_cell in blast)+
qed

lemma run_step_enabled:
  assumes "process_inv p" "ps_cancelled p" "ps_result p = None" "\<not> streams_pending p"
  shows "\<exists>q. run_step L cfg p q"
proof (cases "\<forall>t. ps_pc p t = TaskDone")
  case True
  show ?thesis
  proof (cases "ps_main p")
    case MainWait
    with True show ?thesis using run_step.wait by blast
  next
    case MainStopExtProc
    with assms(4) show ?thesis using run_step.stop_extproc unfolding streams_pending_def by blast
  next
    case MainStopHealth
    with assms(3) show ?thesis using run_step.stop_health by blast
  qed
next
  case False
  then obtain t where t: "ps_pc p t \<noteq> TaskDone" by blast
  have shape: "pc_shape t (ps_pc p t)" and metrics: "ps_server p MetricsTask \<noteq> Listening"
    using assms(1) by (simp_all add: process_inv_def)
  consider "t \<in> {ExtProcTask, HealthTask, MetricsTask}" | "t \<in> {DiscoveryTask, EppDataTask}" | "t = GateTask" by (cases t) auto
  then show ?thesis
  proof cases
    case 1
    then have "ps_pc p t = Serving" using t shape by (auto simp: pc_shape_def)
    from server_enabled [OF 1 this assms(2) metrics] show ?thesis .
  next
    case 2
    with t shape obtain b where "ps_pc p t = InSelect b" by (auto simp: pc_shape_def)
    with 2 assms(2) show ?thesis using run_step.loop_done by blast
  next
    case 3
    then show ?thesis using gate_moves_on assms(2) t shape by blast
  qed
qed

text \<open>Runs of the whole process, counting the steps of the main goroutines, failures of servers included.\<close>

inductive counted :: "llmd \<Rightarrow> Config \<Rightarrow> nat \<Rightarrow> process \<Rightarrow> process \<Rightarrow> bool" for L cfg where
  none: "counted L cfg 0 p p"
| main: "counted L cfg n p q \<Longrightarrow> run_step L cfg q r \<Longrightarrow> counted L cfg (Suc n) p r"
| fault: "counted L cfg n p q \<Longrightarrow> fault_step cfg q r \<Longrightarrow> counted L cfg (Suc n) p r"
| data: "counted L cfg n p q \<Longrightarrow> data_step L cfg q r \<Longrightarrow> counted L cfg n p r"

lemma data_step_measure:
  assumes "data_step L cfg p q"
  shows "shutdown_measure q = shutdown_measure p" "ps_cancelled q = ps_cancelled p" "ps_result q = ps_result p"
    "ps_err q = ps_err p" "ps_pc q = ps_pc p"
proof -
  note q = data_step_sys(2) [OF assms]
  show "shutdown_measure q = shutdown_measure p" "ps_cancelled q = ps_cancelled p" "ps_result q = ps_result p"
    "ps_err q = ps_err p" "ps_pc q = ps_pc p"
    by (subst q, simp add: shutdown_measure_def main_left_def)+
qed

lemma step_nextCell:
  assumes "proc_step L cfg p q" "sys_inv L (manager_options cfg) (ps_sys p)"
  shows "sys_inv L (manager_options cfg) (ps_sys q)" "m_nextCell (sy_m (ps_sys p)) \<le> m_nextCell (sy_m (ps_sys q))"
proof -
  have "(sys_step L (manager_options cfg))\<^sup>*\<^sup>* (ps_sys p) (ps_sys q)" using process_run_sys assms(1) by blast
  from run_grows [OF this assms(2)]
  show "sys_inv L (manager_options cfg) (ps_sys q)" "m_nextCell (sy_m (ps_sys p)) \<le> m_nextCell (sy_m (ps_sys q))"
    by (simp_all add: grows_def)
qed

text \<open>The steps taken and those left stay within the steps there were, plus, once the gate has listed the registry, one
  for each cell.\<close>

definition cells_seen :: "process \<Rightarrow> nat" where
  "cells_seen p = (if to_scan (ps_pc p GateTask) then 0 else m_nextCell (sy_m (ps_sys p)))"

lemma nearer_budget:
  assumes "nearer q r" "m_nextCell (sy_m (ps_sys q)) \<le> m_nextCell (sy_m (ps_sys r))"
    "n + shutdown_measure q + scan_left (ps_pc q GateTask) \<le> k + cells_seen q"
  shows "Suc n + shutdown_measure r + scan_left (ps_pc r GateTask) \<le> k + cells_seen r"
  using assms by (auto simp: nearer_def cells_seen_def split: if_splits)

lemma counted_measure:
  assumes "counted L cfg n p q" "process_inv p" "ps_cancelled p" "sys_inv L (manager_options cfg) (ps_sys p)"
    "scan_left (ps_pc p GateTask) \<le> cells_seen p"
  shows "process_inv q \<and> ps_cancelled q \<and> sys_inv L (manager_options cfg) (ps_sys q) \<and>
    n + shutdown_measure q + scan_left (ps_pc q GateTask) \<le> shutdown_measure p + cells_seen q"
  using assms
proof induction
  case (main n p q r)
  then have IH: "process_inv q" "ps_cancelled q" "sys_inv L (manager_options cfg) (ps_sys q)"
    "n + shutdown_measure q + scan_left (ps_pc q GateTask) \<le> shutdown_measure p + cells_seen q" by blast+
  have step: "proc_step L cfg q r" using main(2) by (simp add: proc_step_def)
  have "mgr_inv (sy_infl (ps_sys q)) (sy_m (ps_sys q))" using IH(3) by (simp add: sys_inv_def)
  then have "ps_cancelled r \<and> nearer q r" using run_step_cancelled [OF main(2) IH(1,2)] by blast
  with nearer_budget [OF _ step_nextCell(2) [OF step IH(3)] IH(4)] step_nextCell(1) [OF step IH(3)] process_inv_step [OF step IH(1)]
  show ?case by blast
next
  case (fault n p q r)
  then have IH: "process_inv q" "ps_cancelled q" "sys_inv L (manager_options cfg) (ps_sys q)"
    "n + shutdown_measure q + scan_left (ps_pc q GateTask) \<le> shutdown_measure p + cells_seen q" by blast+
  have step: "proc_step L cfg q r" using fault(2) by (simp add: proc_step_def)
  have "ps_cancelled r \<and> nearer q r" using fault_step_cancelled [OF fault(2) IH(2)] .
  with nearer_budget [OF _ step_nextCell(2) [OF step IH(3)] IH(4)] step_nextCell(1) [OF step IH(3)] process_inv_step [OF step IH(1)]
  show ?case by blast
next
  case (data n p q r)
  then have IH: "process_inv q" "ps_cancelled q" "sys_inv L (manager_options cfg) (ps_sys q)"
    "n + shutdown_measure q + scan_left (ps_pc q GateTask) \<le> shutdown_measure p + cells_seen q" by blast+
  have step: "proc_step L cfg q r" using data(2) by (simp add: proc_step_def)
  note d = data_step_measure [OF data(2)]
  have "cells_seen q \<le> cells_seen r" using d(5) step_nextCell(2) [OF step IH(3)] by (simp add: cells_seen_def)
  with IH(2,4) d step_nextCell(1) [OF step IH(3)] process_inv_step [OF step IH(1)] show ?case by simp
qed simp

text \<open>The list the gate goes through is never longer than the number of cells there have been.\<close>

lemma scan_bound:
  assumes "(proc_step L cfg)\<^sup>*\<^sup>* (new_process L cfg) p"
  shows "scan_left (ps_pc p GateTask) \<le> m_nextCell (sy_m (ps_sys p))"
  using assms
proof (induction rule: rtranclp_induct)
  case base
  then show ?case by (simp add: new_process_def Let_def)
next
  case (step p q)
  have inv: "sys_inv L (manager_options cfg) (ps_sys p)" by (rule reachable_manager(2) [OF step(1)])
  have mono: "m_nextCell (sy_m (ps_sys p)) \<le> m_nextCell (sy_m (ps_sys q))" by (rule step_nextCell(2) [OF step(2) inv])
  have "scan_left (ps_pc q GateTask) \<le> m_nextCell (sy_m (ps_sys q))" if "run_step L cfg p q"
    using that
  proof cases
    case gate_list
    then show ?thesis using list_bound inv by (auto simp: sys_inv_def)
  qed (use step(3) mono in \<open>auto simp: task_return_fields\<close>)
  moreover have "scan_left (ps_pc q GateTask) \<le> m_nextCell (sy_m (ps_sys q))" if "fault_step cfg p q"
    using that step(3) mono by (auto elim!: fault_stepE simp: task_return_fields)
  moreover have "scan_left (ps_pc q GateTask) \<le> m_nextCell (sy_m (ps_sys q))" if "data_step L cfg p q"
    using data_step_measure(5) [OF that] step(3) mono by simp
  ultimately show ?case using step(2) unfolding proc_step_def by blast
qed

lemma shutdown_counted:
  assumes "(proc_step L cfg)\<^sup>*\<^sup>* (new_process L cfg) p" "ps_cancelled p" "counted L cfg n p q"
  shows "process_inv q" "ps_cancelled q" "n \<le> 19 + m_nextCell (sy_m (ps_sys q))"
proof -
  have inv: "process_inv p" by (rule reachable_process_inv [OF assms(1)])
  have "scan_left (ps_pc p GateTask) \<le> cells_seen p"
  proof (cases "to_scan (ps_pc p GateTask)")
    case True
    then show ?thesis by (cases "ps_pc p GateTask") simp_all
  qed (use scan_bound [OF assms(1)] in \<open>simp add: cells_seen_def\<close>)
  note c = counted_measure [OF assms(3) inv assms(2) reachable_manager(2) [OF assms(1)] this]
  then show "process_inv q" "ps_cancelled q" by blast+
  have "cells_seen q \<le> m_nextCell (sy_m (ps_sys q))" by (simp add: cells_seen_def)
  with c measure_bound [OF inv] show "n \<le> 19 + m_nextCell (sy_m (ps_sys q))" by linarith
qed

text \<open>
  C15. The process shuts down. Once a signal or an error has cancelled the context, the main
  goroutines and those that stop the servers take at most 19 more steps and one for each cell there has been, in any
  interleaving with the control plane, the files, the requests, the engines and with servers that fail. As long as \<open>run\<close>
  has not returned, one of them can take a step of its own, without any server failing: the only thing \<open>run\<close> can be
  left waiting for are request streams that have not ended, when it is in the \<open>GracefulStop\<close> of the ext-proc server; and
  then no new stream arrives.
\<close>

theorem shutdown_terminates:
  assumes "(proc_step L cfg)\<^sup>*\<^sup>* (new_process L cfg) p" and "ps_cancelled p" and "counted L cfg n p q"
  shows "n \<le> 19 + m_nextCell (sy_m (ps_sys q)) \<and>
    (ps_result q = None \<longrightarrow> (\<exists>r. run_step L cfg q r) \<or>
       ps_main q = MainStopExtProc \<and> (\<exists>pc \<in> set (sy_reqs (ps_sys q)). pc \<noteq> ReqDone) \<and>
       (\<forall>r. data_step L cfg q r \<longrightarrow> length (sy_reqs (ps_sys r)) = length (sy_reqs (ps_sys q))))"
proof -
  note c = shutdown_counted [OF assms]
  have "length (sy_reqs (ps_sys r)) = length (sy_reqs (ps_sys q))" if "data_step L cfg q r" "ps_main q = MainStopExtProc" for r
  proof -
    have "ps_server q ExtProcTask = Stopped" using c(1) that(2) by (simp add: process_inv_def)
    with that(1) show ?thesis by cases simp_all
  qed
  moreover have "(\<exists>r. run_step L cfg q r) \<or> streams_pending q" if "ps_result q = None"
    using run_step_enabled [OF c(1,2) that] by blast
  ultimately show ?thesis using c(3) unfolding streams_pending_def by blast
qed

text \<open>When no request stream is left running, the steps of the program alone lead to the end of \<open>run\<close>.\<close>

lemma run_step_reqs:
  assumes "run_step L cfg p q"
  shows "sy_reqs (ps_sys q) = sy_reqs (ps_sys p)"
  using assms by cases simp_all

lemma shutdown_returns:
  assumes "process_inv p" "ps_cancelled p" "sys_inv L (manager_options cfg) (ps_sys p)"
    "\<forall>pc \<in> set (sy_reqs (ps_sys p)). pc = ReqDone"
  shows "\<exists>n q. counted L cfg n p q \<and> ps_result q \<noteq> None"
proof -
  have "\<exists>q. (run_step L cfg)\<^sup>*\<^sup>* p q \<and> ps_result q \<noteq> None"
    using assms
  proof (induction "(shutdown_measure p, scan_left (ps_pc p GateTask))" arbitrary: p
      rule: wf_induct_rule [OF wf_lex_prod [OF wf_less_than wf_less_than]])
    case (1 p)
    show ?case
    proof (cases "ps_result p")
      case None
      have "\<not> streams_pending p" using 1(5) by (auto simp: streams_pending_def)
      then obtain q where q: "run_step L cfg p q" using run_step_enabled [OF 1(2,3) None] by blast
      then have step: "proc_step L cfg p q" by (simp add: proc_step_def)
      have "mgr_inv (sy_infl (ps_sys p)) (sy_m (ps_sys p))" using 1(4) by (simp add: sys_inv_def)
      note n = run_step_cancelled [OF q 1(2,3) this]
      have "((shutdown_measure q, scan_left (ps_pc q GateTask)), (shutdown_measure p, scan_left (ps_pc p GateTask)))
          \<in> less_than <*lex*> less_than" using n by (auto simp: nearer_def)
      from 1(1) [OF this process_inv_step [OF step 1(2)] _ step_nextCell(1) [OF step 1(4)]] n 1(5) run_step_reqs [OF q]
      show ?thesis using q by (auto intro: converse_rtranclp_into_rtranclp)
    qed auto
  qed
  then obtain q where q: "(run_step L cfg)\<^sup>*\<^sup>* p q" "ps_result q \<noteq> None" by blast
  from q(1) have "\<exists>n. counted L cfg n p q" by (induction rule: rtranclp_induct) (auto intro: counted.intros)
  with q(2) show ?thesis by blast
qed

definition demo_cfg :: Config where
  "demo_cfg = parseConfig (\<lambda>_. []) (Inr ''epp-0'') \<lparr>fl_string = (\<lambda>_. None), fl_duration = (\<lambda>_. None),
     fl_int = (\<lambda>_. None), fl_bool = (\<lambda>_. None)\<rparr>"

definition signalled :: process where
  "signalled = (new_process demo_llmd demo_cfg)\<lparr>ps_cancelled := True\<rparr>"

lemma signalled_reachable: "(proc_step demo_llmd demo_cfg)\<^sup>*\<^sup>* (new_process demo_llmd demo_cfg) signalled"
proof -
  have "run_step demo_llmd demo_cfg (new_process demo_llmd demo_cfg) signalled"
    unfolding signalled_def by (rule run_step.signal) (simp_all add: new_process_def Let_def)
  then show ?thesis by (simp add: proc_step_def r_into_rtranclp)
qed

lemma signalled_fields: "ps_cancelled signalled" "sy_reqs (ps_sys signalled) = []"
  by (simp_all add: signalled_def new_process_def Let_def)

theorem shutdown_terminates_witness:
  "\<exists>n q. counted demo_llmd demo_cfg n signalled q \<and> ps_result q \<noteq> None \<and> n \<le> 19 + m_nextCell (sy_m (ps_sys q))"
proof -
  obtain n q where q: "counted demo_llmd demo_cfg n signalled q" "ps_result q \<noteq> None"
    using shutdown_returns [OF reachable_process_inv [OF signalled_reachable] signalled_fields(1)
        reachable_manager(2) [OF signalled_reachable]] signalled_fields(2) by auto
  from shutdown_terminates [OF signalled_reachable signalled_fields(1) q(1)] q show ?thesis by blast
qed

text \<open>
  C14. The process is the concurrent system under its pollers. In every state the process can reach,
  with the answers of the control plane, the files, signals, servers, engines, workers and requests
  in any order, the manager, its cells, engines and requests are in a state the concurrent system
  can reach on its own, so everything shown of that system holds of the process: in particular its
  invariant. The hub is consistent, no first-sync channel was closed twice, and the process reports
  ready only after its first clean sync of the assignments.
\<close>

theorem process_refines_system:
  assumes "(proc_step L cfg)\<^sup>*\<^sup>* (new_process L cfg) p"
  shows "(sys_step L (manager_options cfg))\<^sup>*\<^sup>* (sys_start L cfg) (ps_sys p) \<and>
    sys_inv L (manager_options cfg) (ps_sys p) \<and> hub_inv (cd_hub (ps_discovery p)) \<and>
    p_firstSync (ps_discoveryLoop p) \<le> 1 \<and> p_firstSync (ps_eppDataLoop p) \<le> 1 \<and>
    (\<forall>service. service \<noteq> ''liveness'' \<and> health_Check service (ps_health p) = Inr SERVING \<longrightarrow>
       p_firstSync (ps_eppDataLoop p) = 1)"
proof -
  note run = reachable_manager(1) [OF assms]
  have inv: "process_inv p" by (rule reachable_process_inv [OF assms])
  have "sys_inv L (manager_options cfg) (ps_sys p)" by (rule reachable_manager(2) [OF assms])
  moreover have "p_firstSync (ps_eppDataLoop p) = 1" if "hs_ready (ps_health p)"
    using inv that by (auto simp: process_inv_def poller_wf_def Poller_FirstSync_def split: if_splits)
  moreover have "hub_inv (cd_hub (ps_discovery p))" "p_firstSync (ps_discoveryLoop p) \<le> 1" "p_firstSync (ps_eppDataLoop p) \<le> 1"
    using inv by (simp_all add: process_inv_def poller_wf_def)
  ultimately show ?thesis using run by (simp add: health_Check_def)
qed

theorem process_refines_system_witness:
  "(sys_step demo_llmd (manager_options demo_cfg))\<^sup>*\<^sup>* (sys_start demo_llmd demo_cfg) (ps_sys signalled) \<and>
   hub_inv (cd_hub (ps_discovery signalled))"
  using process_refines_system [OF signalled_reachable] by blast

text \<open>
  C16. Only a signal or a failing server stops the process, and the first error is reported. Until
  its context is cancelled all servers serve and both polling loops run: no answer of the control
  plane, no file and no request ends them. The step that cancels the context is the signal or the
  return of a server with an error; the first such error is kept whatever fails later, and is what
  \<open>run\<close> returns; without one it returns nil.
\<close>

theorem only_signal_or_server_stops:
  assumes "(proc_step L cfg)\<^sup>*\<^sup>* (new_process L cfg) p"
  shows "(\<not> ps_cancelled p \<longrightarrow> undisturbed p) \<and>
    (\<forall>q. proc_step L cfg p q \<and> \<not> ps_cancelled p \<and> ps_cancelled q \<longrightarrow>
       q = p\<lparr>ps_cancelled := True\<rparr> \<or>
       (\<exists>t e. t \<in> {ExtProcTask, HealthTask, MetricsTask} \<and> q = task_return t (Inl e) p \<and> ps_err q = Some e)) \<and>
    (\<forall>q e. proc_step L cfg p q \<and> ps_err p = Some e \<longrightarrow> ps_err q = Some e) \<and>
    (\<forall>r. ps_result p = Some r \<longrightarrow> r = (case ps_err p of None \<Rightarrow> Inr () | Some err \<Rightarrow> Inl err))"
proof -
  have inv: "process_inv p" by (rule reachable_process_inv [OF assms])
  have stop: "q = p\<lparr>ps_cancelled := True\<rparr>" if "run_step L cfg p q" "\<not> ps_cancelled p" "ps_cancelled q" for q
    using that(1) by cases (use that(2,3) in \<open>auto simp: task_return_fields\<close>)
  have fault: "\<exists>t e. t \<in> {ExtProcTask, HealthTask, MetricsTask} \<and> q = task_return t (Inl e) p \<and> ps_err q = Some e"
    if step: "fault_step cfg p q" and c: "\<not> ps_cancelled p" for q
  proof -
    obtain t e where t: "t \<in> {ExtProcTask, HealthTask, MetricsTask}" "q = task_return t (Inl e) p" using step by (rule fault_stepE)
    moreover have "ps_err p = None" using inv c by (simp add: process_inv_def undisturbed_def)
    ultimately show ?thesis by (auto simp: task_return_fields)
  qed
  have err: "ps_err q = Some e" if "run_step L cfg p q \<or> fault_step cfg p q" "ps_err p = Some e" for q e
    using that(1)
  proof
    assume "run_step L cfg p q"
    then show ?thesis using that(2) by cases (auto simp: task_return_fields)
  qed (use that(2) in \<open>auto elim!: fault_stepE simp: task_return_fields\<close>)
  show ?thesis
  proof (intro conjI allI impI)
    show "undisturbed p" if "\<not> ps_cancelled p" using inv that by (simp add: process_inv_def)
    show "q = p\<lparr>ps_cancelled := True\<rparr> \<or>
        (\<exists>t e. t \<in> {ExtProcTask, HealthTask, MetricsTask} \<and> q = task_return t (Inl e) p \<and> ps_err q = Some e)"
      if "proc_step L cfg p q \<and> \<not> ps_cancelled p \<and> ps_cancelled q" for q
      using that stop fault data_step_measure(2) unfolding proc_step_def by metis
    show "ps_err q = Some e" if "proc_step L cfg p q \<and> ps_err p = Some e" for q e
      using that err data_step_measure(4) unfolding proc_step_def by metis
    show "r = (case ps_err p of None \<Rightarrow> Inr () | Some err \<Rightarrow> Inl err)" if "ps_result p = Some r" for r
      using inv that unfolding process_inv_def by blast
  qed
qed

theorem only_signal_or_server_stops_witness:
  "undisturbed (new_process demo_llmd demo_cfg)"
  using only_signal_or_server_stops [of demo_llmd demo_cfg "new_process demo_llmd demo_cfg"]
  by (simp add: new_process_def Let_def)

text \<open>The exit status tells the two ways to end apart: it is 0 exactly when no server has failed.\<close>

lemma exit_status:
  assumes "(proc_step L cfg)\<^sup>*\<^sup>* (new_process L cfg) p" "ps_result p = Some r"
  shows "main_status r = 0 \<longleftrightarrow> ps_err p = None"
proof -
  have "r = (case ps_err p of None \<Rightarrow> Inr () | Some err \<Rightarrow> Inl err)"
    using reachable_process_inv [OF assms(1)] assms(2) unfolding process_inv_def by blast
  then show ?thesis by (simp add: main_status_def split: option.split)
qed

section \<open>When the process reports ready\<close>

text \<open>A pass of the gate that is still good: it began, after the first sync, with the registry of an earlier state, and
  each cell of that registry is one it has still to look at or is ready.\<close>

definition pass_began :: "llmd \<Rightarrow> Config \<Rightarrow> nat list \<Rightarrow> process \<Rightarrow> process \<Rightarrow> bool" where
  "pass_began L cfg cs p0 p \<longleftrightarrow> (proc_step L cfg)\<^sup>*\<^sup>* (new_process L cfg) p0 \<and> (proc_step L cfg)\<^sup>*\<^sup>* p0 p \<and>
     Poller_FirstSync (ps_eppDataLoop p0) \<and>
     (\<forall>c \<in> set (Manager_List (sy_m (ps_sys p0))). c \<in> set cs \<or> c_ready (st_cells (sy_m (ps_sys p)) c))"

lemma ready_stays:
  assumes "(proc_step L cfg)\<^sup>*\<^sup>* p q" "sys_inv L (manager_options cfg) (ps_sys p)"
    "c < m_nextCell (sy_m (ps_sys p))" "c_ready (st_cells (sy_m (ps_sys p)) c)"
  shows "c_ready (st_cells (sy_m (ps_sys q)) c)"
  using run_grows [OF process_run_sys [OF assms(1)] assms(2)] assms(3,4) by (auto simp: grows_def cell_evolves_def)

lemma listed_known: "mgr_inv infl m \<Longrightarrow> c \<in> set (Manager_List m) \<Longrightarrow> c < m_nextCell m"
  by (force simp: mgr_inv_def registry_wf_def Manager_List_def smap_Range_def smap_Load_def)

lemma pass_goes_on:
  assumes "pass_began L cfg cs p0 p" "proc_step L cfg p q"
  shows "pass_began L cfg cs p0 q"
proof -
  have reach: "(proc_step L cfg)\<^sup>*\<^sup>* (new_process L cfg) p0" "(proc_step L cfg)\<^sup>*\<^sup>* p0 p"
    using assms(1) by (simp_all add: pass_began_def)
  then have rp: "(proc_step L cfg)\<^sup>*\<^sup>* (new_process L cfg) p" by simp
  note i0 = reachable_manager [OF reach(1)]
  have "c < m_nextCell (sy_m (ps_sys p))" if "c \<in> set (Manager_List (sy_m (ps_sys p0)))" for c
    using listed_known [OF i0(3) that] run_grows [OF process_run_sys [OF reach(2)] i0(2)] by (simp add: grows_def)
  moreover have "(proc_step L cfg)\<^sup>*\<^sup>* p q" using assms(2) by (rule r_into_rtranclp)
  ultimately have "c_ready (st_cells (sy_m (ps_sys q)) c)"
    if "c \<in> set (Manager_List (sy_m (ps_sys p0)))" "c_ready (st_cells (sy_m (ps_sys p)) c)" for c
    using ready_stays reachable_manager(2) [OF rp] that by blast
  with assms(1) \<open>(proc_step L cfg)\<^sup>*\<^sup>* p q\<close> show ?thesis unfolding pass_began_def by (meson rtranclp_trans)
qed

lemma gate_pass:
  assumes "(proc_step L cfg)\<^sup>*\<^sup>* (new_process L cfg) p" "ps_pc p GateTask = GateScan True cs"
  shows "\<exists>p0. pass_began L cfg cs p0 p"
  using assms
proof (induction arbitrary: cs rule: rtranclp_induct)
  case base
  then show ?case by (simp add: new_process_def Let_def)
next
  case (step p q)
  have kept: "\<exists>p0. pass_began L cfg cs p0 q" if "ps_pc p GateTask = GateScan True cs"
    using step(3) [OF that] pass_goes_on [OF _ step(2)] by blast
  have run: "\<exists>p0. pass_began L cfg cs p0 q" if "run_step L cfg p q"
    using that
  proof cases
    case gate_list
    have "Poller_FirstSync (ps_eppDataLoop p)"
      using reachable_process_inv [OF step(1)] gate_list by (simp add: process_inv_def)
    then have "pass_began L cfg cs p q"
      using step(1,2,4) gate_list by (auto simp: pass_began_def)
    then show ?thesis by blast
  next
    case (gate_cell ok c cs')
    then have ok: "ok" "c_ready (st_cells (sy_m (ps_sys p)) c)" "cs' = cs"
      using step(4) by (auto simp: Cell_Ready_def split: if_splits)
    have "ps_pc p GateTask = GateScan True (c # cs)" using gate_cell(2) ok(1,3) by simp
    then obtain p0 where "pass_began L cfg (c # cs) p0 q" using step(3) pass_goes_on [OF _ step(2)] by blast
    moreover have "ps_sys q = ps_sys p" using gate_cell(1) by simp
    ultimately have "pass_began L cfg cs p0 q" using ok(2) by (auto simp: pass_began_def)
    then show ?thesis by blast
  qed (use step(4) kept in \<open>auto simp: task_return_fields split: if_splits\<close>)
  have fault: "\<exists>p0. pass_began L cfg cs p0 q" if "fault_step cfg p q"
    using that step(4) kept by (auto elim!: fault_stepE simp: task_return_fields)
  have data: "\<exists>p0. pass_began L cfg cs p0 q" if "data_step L cfg p q"
    using data_step_measure(5) [OF that] step(4) kept by simp
  show ?case using run fault data step(2) unfolding proc_step_def by blast
qed

text \<open>
  C32. The process reports ready only after a full pass of the gate. The liveness check always answers SERVING. If the health
  check of any other service does, there are two earlier moments: one, after the first clean sync of the
  assignments, when the gate listed the registry, and a later one when every cell of that list had become ready, the
  registry was not empty and the check still answered NOT_SERVING. The cells listed are ready from then on.
\<close>

theorem ready_only_after_full_pass:
  assumes "(proc_step L cfg)\<^sup>*\<^sup>* (new_process L cfg) p"
  shows "health_Check ''liveness'' (ps_health p) = Inr SERVING \<and>
    (\<forall>service. service \<noteq> ''liveness'' \<and> health_Check service (ps_health p) = Inr SERVING \<longrightarrow>
      (\<exists>p0 p1. (proc_step L cfg)\<^sup>*\<^sup>* (new_process L cfg) p0 \<and> (proc_step L cfg)\<^sup>*\<^sup>* p0 p1 \<and> (proc_step L cfg)\<^sup>*\<^sup>* p1 p \<and>
         Poller_FirstSync (ps_eppDataLoop p0) \<and> Manager_List (sy_m (ps_sys p1)) \<noteq> [] \<and>
         health_Check service (ps_health p1) = Inr NOT_SERVING \<and>
         (\<forall>c \<in> set (Manager_List (sy_m (ps_sys p0))).
            c_ready (st_cells (sy_m (ps_sys p1)) c) \<and> c_ready (st_cells (sy_m (ps_sys p)) c))))"
proof -
  have opened: "\<exists>p0 p1. pass_began L cfg [] p0 p1 \<and> (proc_step L cfg)\<^sup>*\<^sup>* p1 p \<and> Manager_List (sy_m (ps_sys p1)) \<noteq> [] \<and>
      \<not> hs_ready (ps_health p1)" if "hs_ready (ps_health p)"
    using assms that
  proof (induction rule: rtranclp_induct)
    case base
    then show ?case by (simp add: new_process_def Let_def)
  next
    case (step p q)
    show ?case
    proof (cases "hs_ready (ps_health p)")
      case True
      with step(2,3) show ?thesis by (meson rtranclp.rtrancl_into_rtrancl)
    next
      case False
      have "run_step L cfg p q"
      proof (rule ccontr)
        assume "\<not> run_step L cfg p q"
        then have "fault_step cfg p q \<or> q = p\<lparr>ps_sys := ps_sys q\<rparr>"
          using step(2) data_step_sys(2) unfolding proc_step_def by blast
        then have "ps_health q = ps_health p"
        proof
          assume "q = p\<lparr>ps_sys := ps_sys q\<rparr>"
          then have "ps_health q = ps_health (p\<lparr>ps_sys := ps_sys q\<rparr>)" by (rule arg_cong)
          then show ?thesis by simp
        qed (auto elim!: fault_stepE simp: task_return_fields)
        with False step(4) show False by simp
      qed
      then have open_now: "ps_pc p GateTask = GateScan True [] \<and> Manager_List (sy_m (ps_sys p)) \<noteq> []"
        using False step(4) by cases (auto simp: task_return_fields)
      obtain p0 where "pass_began L cfg [] p0 p" using gate_pass [OF step(1)] open_now by blast
      with open_now False step(2) show ?thesis by blast
    qed
  qed
  show ?thesis
  proof (intro conjI allI impI)
    show "health_Check ''liveness'' (ps_health p) = Inr SERVING" by (simp add: health_Check_def)
    fix service assume a: "service \<noteq> ''liveness'' \<and> health_Check service (ps_health p) = Inr SERVING"
    then have "hs_ready (ps_health p)" by (auto simp: health_Check_def split: if_splits)
    from opened [OF this] obtain p0 p1 where o: "pass_began L cfg [] p0 p1" "(proc_step L cfg)\<^sup>*\<^sup>* p1 p"
      "Manager_List (sy_m (ps_sys p1)) \<noteq> []" "\<not> hs_ready (ps_health p1)" by blast
    have b: "(proc_step L cfg)\<^sup>*\<^sup>* (new_process L cfg) p0" "(proc_step L cfg)\<^sup>*\<^sup>* p0 p1" "Poller_FirstSync (ps_eppDataLoop p0)"
      "\<forall>c \<in> set (Manager_List (sy_m (ps_sys p0))). c_ready (st_cells (sy_m (ps_sys p1)) c)"
      using o(1) by (simp_all add: pass_began_def)
    have "pass_began L cfg [] p0 p"
      using o(2,1) by (induction rule: rtranclp_induct) (auto intro: pass_goes_on)
    then have "\<forall>c \<in> set (Manager_List (sy_m (ps_sys p0))). c_ready (st_cells (sy_m (ps_sys p)) c)" by (simp add: pass_began_def)
    with a b o show "\<exists>p0 p1. (proc_step L cfg)\<^sup>*\<^sup>* (new_process L cfg) p0 \<and> (proc_step L cfg)\<^sup>*\<^sup>* p0 p1 \<and> (proc_step L cfg)\<^sup>*\<^sup>* p1 p \<and>
         Poller_FirstSync (ps_eppDataLoop p0) \<and> Manager_List (sy_m (ps_sys p1)) \<noteq> [] \<and>
         health_Check service (ps_health p1) = Inr NOT_SERVING \<and>
         (\<forall>c \<in> set (Manager_List (sy_m (ps_sys p0))).
            c_ready (st_cells (sy_m (ps_sys p1)) c) \<and> c_ready (st_cells (sy_m (ps_sys p)) c))"
      by (intro exI [of _ p0] exI [of _ p1]) (simp add: health_Check_def)
  qed
qed

text \<open>The two times the gate lists the registry are not one: it may list an empty registry, and find a cell when it lists
  the registry again.\<close>

lemma empty_list: "Manager_List m = [] \<longleftrightarrow> (\<forall>k. Manager_Get k m = None)"
  by (cases "m_cells m") (auto simp: Manager_List_def Manager_Get_def smap_Range_def smap_Load_def)

lemma empty_pass_opens:
  assumes "(proc_step L cfg)\<^sup>*\<^sup>* (new_process L cfg) p" and "\<not> ps_cancelled p"
    and "ps_pc p GateTask = GatePoll" and "Manager_List (sy_m (ps_sys p)) = []"
    and "eppDataSrc cfg ReadFile (with_deadline (PollTimeout cfg) False net) (Poller_Version (ps_eppDataLoop p)) = Inr (True, ver, conf)"
    and "gomap_wf (ed_Assignment conf)"
    and "my_role (InstanceID cfg) (ed_Assignment conf) k = Some r" and "k \<notin> set (keys (ed_EppConfig conf))"
  shows "\<exists>q c. (proc_step L cfg)\<^sup>*\<^sup>* p q \<and> (\<forall>service. health_Check service (ps_health q) = Inr SERVING) \<and>
    Manager_Get k (sy_m (ps_sys q)) = Some c \<and> \<not> c_ready (st_cells (sy_m (ps_sys q)) c)"
proof -
  let ?handle = "EppDataWatcher_Handle (production_cfg L (manager_options cfg)) (InstanceID cfg) 0"
  let ?src = "eppDataSrc cfg ReadFile (with_deadline (PollTimeout cfg) False net)"
  let ?p1 = "set_pc GateTask (GateScan True []) p"
  have "none_ready (sy_m (ps_sys p))" using assms(4) by (simp add: none_ready_def empty_list)
  from Handle_unconfigured [OF reachable_manager(3,4) [OF assms(1)] assms(6) this assms(7,8), where L = L and opts = "manager_options cfg" and now = 0]
  obtain m c where m: "?handle conf (sy_m (ps_sys p)) = (Inr (), m)" "Manager_Get k m = Some c" "\<not> c_ready (st_cells m c)" by blast
  obtain delay loop where round: "Poller_round ?handle ?src 0 (ps_eppDataLoop p, sy_m (ps_sys p)) = (delay, loop, m)"
    using assms(5) m(1) by (simp add: Poller_round_def Poller_Version_def)
  have inv: "process_inv p" by (rule reachable_process_inv [OF assms(1)])
  then have "ps_pc ?p1 EppDataTask = InSelect True" using assms(2) by (simp add: process_inv_def undisturbed_def)
  define p2 where "p2 = set_pc EppDataTask (InSelect (timer_can_fire False delay)) (?p1\<lparr>ps_eppDataLoop := loop, ps_sys := (ps_sys p)\<lparr>sy_m := m\<rparr>\<rparr>)"
  have s1: "run_step L cfg p ?p1" using run_step.gate_list [OF assms(3), of L cfg] assms(4) by simp
  have s2: "run_step L cfg ?p1 p2"
    using run_step.eppData_round [where p = ?p1 and L = L and cfg = cfg and now = 0 and ReadFile = ReadFile and net = net
        and delay = delay and q = loop and m = m] round assms(2) \<open>ps_pc ?p1 EppDataTask = InSelect True\<close> by (simp add: p2_def)
  have "Manager_List m \<noteq> []" using m(2) by (auto simp: empty_list)
  then have s3: "run_step L cfg p2 (task_return GateTask (Inr ()) (p2\<lparr>ps_health := setReady True (ps_health p2)\<rparr>))"
    by (intro run_step.gate_ready) (simp_all add: p2_def)
  have "(proc_step L cfg)\<^sup>*\<^sup>* p (task_return GateTask (Inr ()) (p2\<lparr>ps_health := setReady True (ps_health p2)\<rparr>))"
    using s1 s2 s3 by (meson proc_step_def converse_rtranclp_into_rtranclp rtranclp.rtrancl_refl)
  with m(2,3) show ?thesis
    by (intro exI [of _ "task_return GateTask (Inr ()) (p2\<lparr>ps_health := setReady True (ps_health p2)\<rparr>)"] exI [of _ c])
      (simp add: task_return_fields setReady_def health_Check_def p2_def)
qed

text \<open>
  C37. The gate can open on a cell that is not ready. The gate lists the registry twice, first to look at the cells and then to
  see that there are some. When the first list is empty, since the first snapshot assigned nothing to this instance, and a
  snapshot that does assign it a cluster is handled before the second, the process reports ready with a cell it has never looked
  at, here one that has no configuration yet.
\<close>

theorem gate_opens_on_unready_cell:
  assumes "(proc_step L cfg)\<^sup>*\<^sup>* (new_process L cfg) p" and "\<not> ps_cancelled p"
    and "ps_pc p GateTask = GatePoll" and "Manager_List (sy_m (ps_sys p)) = []"
    and "eppDataSrc cfg ReadFile (with_deadline (PollTimeout cfg) False net) (Poller_Version (ps_eppDataLoop p)) = Inr (True, ver, conf)"
    and "gomap_wf (ed_Assignment conf)"
    and "my_role (InstanceID cfg) (ed_Assignment conf) k = Some r" and "k \<notin> set (keys (ed_EppConfig conf))"
  shows "\<exists>q c. (proc_step L cfg)\<^sup>*\<^sup>* p q \<and> (\<forall>service. health_Check service (ps_health q) = Inr SERVING) \<and>
    Manager_Get k (sy_m (ps_sys q)) = Some c \<and> \<not> c_ready (st_cells (sy_m (ps_sys q)) c)"
  by (rule empty_pass_opens [OF assms])

text \<open>Two answers of the control plane: nothing is assigned to this instance, then one cluster.\<close>

definition idle_conf :: EppDataConfig where
  "idle_conf = \<lparr>ed_EppConfig = [], ed_Assignment = []\<rparr>"

definition assigned_conf :: EppDataConfig where
  "assigned_conf = \<lparr>ed_EppConfig = [], ed_Assignment = [(''c1'', \<lparr>ae_Primary = Some ''epp-0'', ae_Standby = None\<rparr>)]\<rparr>"

definition answering :: "string \<Rightarrow> EppDataConfig \<Rightarrow> http" where
  "answering ver conf = \<lparr>NewRequest = (\<lambda>_. None),
     Do = (\<lambda>_. Inr \<lparr>rs_StatusCode = 200, rs_Body = Inr (jraw (answer_tree ver (enc_EppDataConfig conf)))\<rparr>)\<rparr>"

lemma demo_cfg_fields: "LocalConfigDir demo_cfg = []" "0 < sint (PollTimeout demo_cfg)" "InstanceID demo_cfg = ''epp-0''"
  by (simp_all add: demo_cfg_def parseConfig_def flag_or_def getenv_def Second_def)

lemma answering_fetch:
  assumes "snapshot_ok conf" "utf8_valid ver" "length (jraw (answer_tree ver (enc_EppDataConfig conf))) \<le> body_limit"
  shows "eppDataSrc demo_cfg ReadFile (with_deadline (PollTimeout demo_cfg) False (answering ver conf)) v = Inr (True, ver, conf)"
proof -
  have "answers (answering ver conf) client EppDataConfigPath v (jraw (answer_tree ver (enc_EppDataConfig conf)))" for client
    by (simp add: answers_def answering_def)
  from fetched_snapshot [OF assms(1,2) this assms(3)] show ?thesis
    using demo_cfg_fields(1,2) by (simp add: eppDataSrc_def with_deadline_def)
qed

lemma two_answers:
  "eppDataSrc demo_cfg ReadFile (with_deadline (PollTimeout demo_cfg) False (answering ''v1'' idle_conf)) v = Inr (True, ''v1'', idle_conf)"
  "eppDataSrc demo_cfg ReadFile (with_deadline (PollTimeout demo_cfg) False (answering ''v2'' assigned_conf)) v =
     Inr (True, ''v2'', assigned_conf)"
proof -
  have ok: "snapshot_ok idle_conf" "snapshot_ok assigned_conf"
    by (simp_all add: snapshot_ok_def idle_conf_def assigned_conf_def entry_ok_def)
  have "length (jraw (answer_tree ''v1'' (enc_EppDataConfig idle_conf))) \<le> body_limit"
    "length (jraw (answer_tree ''v2'' (enc_EppDataConfig assigned_conf))) \<le> body_limit"
    by (simp_all add: text_size enc_EppDataConfig_def enc_AssignmentEntry_def enc_ptr_def enc_null_def idle_conf_def assigned_conf_def)
  then show
    "eppDataSrc demo_cfg ReadFile (with_deadline (PollTimeout demo_cfg) False (answering ''v1'' idle_conf)) v = Inr (True, ''v1'', idle_conf)"
    "eppDataSrc demo_cfg ReadFile (with_deadline (PollTimeout demo_cfg) False (answering ''v2'' assigned_conf)) v =
       Inr (True, ''v2'', assigned_conf)"
    using answering_fetch [OF ok(1), of "''v1''"] answering_fetch [OF ok(2), of "''v2''"] by simp_all
qed

definition idle_process :: process where
  "idle_process =
     (let p = new_process demo_llmd demo_cfg; loop = ps_eppDataLoop p;
          m = (sy_m (ps_sys p))\<lparr>w_assignmentNoMatch := 1\<rparr>
      in set_pc GateTask GatePoll (p\<lparr>ps_sys := (ps_sys p)\<lparr>sy_m := m\<rparr>,
           ps_eppDataLoop := Poller_synced 5 (loop\<lparr>p_backoff := backoff_reset (p_backoff loop), p_backoffState := 0, p_version := ''v1''\<rparr>)\<rparr>))"

lemma idle_reachable: "(proc_step demo_llmd demo_cfg)\<^sup>*\<^sup>* (new_process demo_llmd demo_cfg) idle_process"
proof -
  let ?p = "new_process demo_llmd demo_cfg"
  let ?loop = "ps_eppDataLoop idle_process" and ?m = "sy_m (ps_sys idle_process)"
  define p1 where "p1 = set_pc EppDataTask (InSelect True) (?p\<lparr>ps_eppDataLoop := ?loop, ps_sys := (ps_sys ?p)\<lparr>sy_m := ?m\<rparr>\<rparr>)"
  let ?handle = "EppDataWatcher_Handle (production_cfg demo_llmd (manager_options demo_cfg)) (InstanceID demo_cfg) 5"
  have handled: "?handle idle_conf (sy_m (ps_sys ?p)) = (Inr (), (sy_m (ps_sys ?p))\<lparr>w_assignmentNoMatch := 1\<rparr>)"
    by (simp add: EppDataWatcher_Handle_def idle_conf_def new_process_def Let_def NewEppDataWatcher_def NewManager_def
        Manager.extend_def Manager_List_def smap_Range_def)
  have round: "Poller_round ?handle (eppDataSrc demo_cfg (\<lambda>_. Inr []) (with_deadline (PollTimeout demo_cfg) False (answering ''v1'' idle_conf))) 5
      (ps_eppDataLoop ?p, sy_m (ps_sys ?p)) = (poll_interval (ps_eppDataLoop ?p), ps_eppDataLoop idle_process, sy_m (ps_sys idle_process))"
    by (simp add: Poller_round_def two_answers handled) (simp add: idle_process_def Let_def)
  have start: "ps_pc ?p EppDataTask = InSelect True" "\<not> ps_cancelled ?p" "ps_pc ?p GateTask = GateSync"
    by (simp_all add: new_process_def Let_def)
  from run_step.eppData_round [OF start(1) round [folded eq_False [THEN iffD2, OF start(2)]]]
  have "run_step demo_llmd demo_cfg ?p p1" using start(2) by (simp add: p1_def timer_can_fire_def)
  moreover have "run_step demo_llmd demo_cfg p1 (set_pc GateTask GatePoll p1)"
    by (rule run_step.gate_synced)
      (simp_all add: p1_def start idle_process_def new_process_def Let_def Poller_FirstSync_def Poller_synced_def syncOnce_do_def Poller_New_def)
  moreover have "set_pc GateTask GatePoll p1 = idle_process"
    using start by (simp add: p1_def idle_process_def Let_def fun_upd_idem)
  ultimately show ?thesis by (metis proc_step_def converse_rtranclp_into_rtranclp rtranclp.rtrancl_refl)
qed

lemma idle_fields: "\<not> ps_cancelled idle_process" "ps_pc idle_process GateTask = GatePoll" "Manager_List (sy_m (ps_sys idle_process)) = []"
  by (simp_all add: idle_process_def new_process_def Let_def NewEppDataWatcher_def NewManager_def Manager.extend_def
      Manager_List_def smap_Range_def)

lemma assigned_conf_facts: "gomap_wf (ed_Assignment assigned_conf)" "''c1'' \<notin> set (keys (ed_EppConfig assigned_conf))"
  "my_role (InstanceID demo_cfg) (ed_Assignment assigned_conf) ''c1'' = Some RolePrimary"
  by (simp_all add: assigned_conf_def my_role_def resolveRole_def demo_cfg_fields)

theorem gate_opens_on_unready_cell_witness:
  "\<exists>q c. (proc_step demo_llmd demo_cfg)\<^sup>*\<^sup>* (new_process demo_llmd demo_cfg) q \<and> health_Check [] (ps_health q) = Inr SERVING \<and>
     Manager_Get ''c1'' (sy_m (ps_sys q)) = Some c \<and> \<not> c_ready (st_cells (sy_m (ps_sys q)) c)"
  using gate_opens_on_unready_cell [OF idle_reachable idle_fields two_answers(2) assigned_conf_facts(1,3,2)] idle_reachable
  by (meson rtranclp_trans)

theorem ready_only_after_full_pass_witness:
  "\<exists>q p1. (proc_step demo_llmd demo_cfg)\<^sup>*\<^sup>* (new_process demo_llmd demo_cfg) q \<and> health_Check [] (ps_health q) = Inr SERVING \<and>
     (proc_step demo_llmd demo_cfg)\<^sup>*\<^sup>* p1 q \<and> Manager_List (sy_m (ps_sys p1)) \<noteq> [] \<and> health_Check [] (ps_health p1) = Inr NOT_SERVING"
proof -
  obtain q where q: "(proc_step demo_llmd demo_cfg)\<^sup>*\<^sup>* idle_process q" "\<forall>service. health_Check service (ps_health q) = Inr SERVING"
    using empty_pass_opens [OF idle_reachable idle_fields two_answers(2) assigned_conf_facts(1,3,2)] by blast
  have reach: "(proc_step demo_llmd demo_cfg)\<^sup>*\<^sup>* (new_process demo_llmd demo_cfg) q" using idle_reachable q(1) by (rule rtranclp_trans)
  show ?thesis using ready_only_after_full_pass [OF reach] q(2) reach by (metis list.distinct(1))
qed

section \<open>A poll timeout that is not positive\<close>

lemma expired_fetch:
  assumes "LocalConfigDir cfg = []" "sint (PollTimeout cfg) \<le> 0"
  shows "\<exists>err. eppDataSrc cfg ReadFile (with_deadline (PollTimeout cfg) c net) v = Inl err"
  using assms by (auto simp: eppDataSrc_def EppDataWatcher_Fetch_def Client_Get_def with_deadline_def Let_def split: option.split)

lemma data_step_no_cells:
  assumes "data_step L cfg p q" "m_cells (sy_m (ps_sys p)) = []"
  shows "m_cells (sy_m (ps_sys q)) = []"
  using assms(1)
proof cases
  case (request i pc m)
  from request(3) show ?thesis using assms(2) request(1) by cases (auto simp: Track_check_def wg_Add_def wg_Done_def split: if_splits)
qed (use assms(2) in \<open>auto simp: Engine_await_ready_def discovery_round_fields Manager_drain_begin_def Manager_drain_end_def
       Let_def smap_CompareAndDelete_def smap_Load_def\<close>)

lemma run_step_no_sync:
  assumes "run_step L cfg p q" "LocalConfigDir cfg = []" "sint (PollTimeout cfg) \<le> 0"
  shows "sy_m (ps_sys q) = sy_m (ps_sys p) \<and> p_firstSync (ps_eppDataLoop q) = p_firstSync (ps_eppDataLoop p) \<and>
    p_version (ps_eppDataLoop q) = p_version (ps_eppDataLoop p)"
  using assms(1)
proof cases
  case (eppData_round now ReadFile net delay poller m)
  obtain err where "eppDataSrc cfg ReadFile (with_deadline (PollTimeout cfg) (ps_cancelled p) net) (p_version (ps_eppDataLoop p)) = Inl err"
    using expired_fetch [OF assms(2,3)] by blast
  with eppData_round(1,3) show ?thesis by (auto simp: Poller_round_def Let_def Poller_fail_def split: prod.splits)
qed (simp_all add: task_return_fields)

text \<open>
  C33. A poll timeout that is not positive never syncs. The client replaces such a timeout by three
  seconds, but the polling loop makes the deadline of every fetch from it: with a control plane and
  a timeout of zero or less every fetch fails at once, whatever the control plane would answer. The
  process runs, but it never applies a snapshot, holds no cell and never reports ready.
\<close>

theorem nonpositive_timeout_never_syncs:
  assumes "LocalConfigDir cfg = []" and "sint (PollTimeout cfg) \<le> 0"
    and "(proc_step L cfg)\<^sup>*\<^sup>* (new_process L cfg) p"
  shows "cl_timeout (NewClient (APIAddr cfg) (APIToken cfg) (PollTimeout cfg)) = 3 * Second \<and>
    Poller_Version (ps_eppDataLoop p) = [] \<and> \<not> Poller_FirstSync (ps_eppDataLoop p) \<and>
    Manager_List (sy_m (ps_sys p)) = [] \<and> health_Check [] (ps_health p) = Inr NOT_SERVING"
proof -
  have "p_version (ps_eppDataLoop p) = [] \<and> p_firstSync (ps_eppDataLoop p) = 0 \<and> m_cells (sy_m (ps_sys p)) = []"
    using assms(3)
  proof (induction rule: rtranclp_induct)
    case base
    show ?case
      by (simp add: new_process_def Let_def Poller_New_def NewEppDataWatcher_def NewManager_def Manager.extend_def)
  next
    case (step q r)
    show ?case
    proof (cases "run_step L cfg q r \<or> fault_step cfg q r")
      case True
      then show ?thesis
        using step(3) run_step_no_sync [OF _ assms(1,2), of L q r] by (auto elim!: fault_stepE simp: task_return_fields)
    next
      case False
      then have d: "data_step L cfg q r" using step(2) by (simp add: proc_step_def)
      have "ps_eppDataLoop r = ps_eppDataLoop q" by (subst data_step_sys(2) [OF d]) simp
      with step(3) data_step_no_cells [OF d] show ?thesis by simp
    qed
  qed
  moreover have "process_inv p" by (rule reachable_process_inv [OF assms(3)])
  ultimately show ?thesis
    using assms(2)
    by (auto simp: NewClient_def Poller_Version_def Poller_FirstSync_def Manager_List_def smap_Range_def health_Check_def process_inv_def)
qed

theorem nonpositive_timeout_never_syncs_witness:
  "Manager_List (sy_m (ps_sys ((new_process demo_llmd (demo_cfg\<lparr>PollTimeout := 0\<rparr>))\<lparr>ps_cancelled := True\<rparr>))) = []"
proof -
  let ?cfg = "demo_cfg\<lparr>PollTimeout := 0\<rparr>" and ?p = "(new_process demo_llmd (demo_cfg\<lparr>PollTimeout := 0\<rparr>))\<lparr>ps_cancelled := True\<rparr>"
  have "run_step demo_llmd ?cfg (new_process demo_llmd ?cfg) ?p"
    by (rule run_step.signal) (simp_all add: new_process_def Let_def)
  then have reach: "(proc_step demo_llmd ?cfg)\<^sup>*\<^sup>* (new_process demo_llmd ?cfg) ?p"
    by (simp add: proc_step_def r_into_rtranclp)
  have "LocalConfigDir ?cfg = []" "sint (PollTimeout ?cfg) \<le> 0"
    by (simp_all add: demo_cfg_def parseConfig_def flag_or_def Let_def)
  from nonpositive_timeout_never_syncs [OF this reach] show ?thesis by blast
qed

end
