(* ===== verification/Worker_Pool.thy ===== *)
theory Worker_Pool
  imports Fair_Progress "HOL-Library.Multiset"
begin

text \<open>
  A queue served by a fixed number of workers, seen through a step relation: what is queued, what
  is being worked on, and that a step puts work at the back of the queue, or a free worker takes
  the front of it, or a worker finishes. Runs may stutter, so that other parts of a system can
  move. The locale \<open>worker_pool\<close> states the contract,
  and shows that under a fair scheduler no work is left behind.
\<close>

definition pool_take :: "('s \<Rightarrow> 'w list) \<Rightarrow> ('s \<Rightarrow> 'w list) \<Rightarrow> 's \<Rightarrow> 's \<Rightarrow> bool" where
  "pool_take queue busy s s' \<longleftrightarrow> (\<exists>w. queue s = w # queue s' \<and> busy s' = w # busy s)"

definition pool_finish :: "('s \<Rightarrow> 'w list) \<Rightarrow> ('s \<Rightarrow> 'w list) \<Rightarrow> 'w \<Rightarrow> 's \<Rightarrow> 's \<Rightarrow> bool" where
  "pool_finish queue busy w s s' \<longleftrightarrow> w \<in> set (busy s) \<and> busy s' = remove1 w (busy s) \<and> queue s' = queue s"

definition pool_put :: "('s \<Rightarrow> 'w list) \<Rightarrow> ('s \<Rightarrow> 'w list) \<Rightarrow> 's \<Rightarrow> 's \<Rightarrow> bool" where
  "pool_put queue busy s s' \<longleftrightarrow> (\<exists>ws. queue s' = queue s @ ws) \<and> busy s' = busy s"

text \<open>Weak fairness: a worker that could take work all the time takes some, and work that could be
  finished all the time is finished.\<close>

definition fair_pool :: "('s \<Rightarrow> 'w list) \<Rightarrow> ('s \<Rightarrow> 'w list) \<Rightarrow> nat \<Rightarrow> (nat \<Rightarrow> 's) \<Rightarrow> bool" where
  "fair_pool queue busy n run \<longleftrightarrow>
     (\<forall>i. (\<forall>j \<ge> i. queue (run j) \<noteq> [] \<and> length (busy (run j)) < n) \<longrightarrow>
        (\<exists>j \<ge> i. pool_take queue busy (run j) (run (Suc j)))) \<and>
     (\<forall>i w. (\<forall>j \<ge> i. w \<in> set (busy (run j))) \<longrightarrow>
        (\<exists>j \<ge> i. pool_finish queue busy w (run j) (run (Suc j))))"

lemma pool_finish_unique:
  "pool_finish queue busy w s s' \<Longrightarrow> w' \<in> set (busy s) \<Longrightarrow> busy s' = remove1 w' (busy s) \<Longrightarrow> w' = w"
proof -
  assume a: "pool_finish queue busy w s s'" "w' \<in> set (busy s)" "busy s' = remove1 w' (busy s)"
  then have "mset (remove1 w (busy s)) = mset (remove1 w' (busy s))" and "w \<in># mset (busy s)"
    by (simp_all add: pool_finish_def)
  moreover have "w' \<in># mset (busy s)" using a(2) by simp
  ultimately have "add_mset w (mset (busy s) - {#w#}) = add_mset w' (mset (busy s) - {#w#})" by (metis insert_DiffM mset_remove1)
  then show "w' = w" by simp
qed

locale worker_pool =
  fixes step :: "'s \<Rightarrow> 's \<Rightarrow> bool" and queue :: "'s \<Rightarrow> 'w list" and busy :: "'s \<Rightarrow> 'w list" and n :: nat
  assumes workers: "0 < n"
    and steps: "step s s' \<Longrightarrow> pool_put queue busy s s' \<or> pool_take queue busy s s' \<or> (\<exists>w. pool_finish queue busy w s s')"
begin

lemma run_cases:
  assumes "is_run step run"
  obtains (put) "pool_put queue busy (run i) (run (Suc i))"
  | (take) "pool_take queue busy (run i) (run (Suc i))"
  | (finish) w where "pool_finish queue busy w (run i) (run (Suc i))"
proof -
  have "pool_put queue busy s s" for s by (simp add: pool_put_def)
  then show thesis using assms steps that unfolding is_run_def by metis
qed

text \<open>What a worker works on is finished.\<close>

lemma busy_finished:
  assumes "is_run step run" "fair_pool queue busy n run" "w \<in> set (busy (run i))"
  shows "\<exists>j \<ge> i. pool_finish queue busy w (run j) (run (Suc j))"
proof (rule ccontr)
  assume none: "\<not> ?thesis"
  have "w \<in> set (busy (run j))" if "i \<le> j" for j
    using that
  proof (induction rule: dec_induct)
    case (step j)
    from assms(1) show ?case
    proof (cases rule: run_cases [of run j])
      case (finish v)
      with none step have "v \<noteq> w" by auto
      with finish step.IH show ?thesis by (simp add: pool_finish_def)
    qed (use step.IH in \<open>auto simp: pool_put_def pool_take_def\<close>)
  qed (rule assms(3))
  with assms(2) none show False unfolding fair_pool_def by blast
qed

text \<open>Without a take the queue keeps its front, and no worker becomes busy.\<close>

lemma no_take:
  assumes "is_run step run" "i \<le> j" "\<And>l. i \<le> l \<Longrightarrow> l < j \<Longrightarrow> \<not> pool_take queue busy (run l) (run (Suc l))"
  shows "(\<exists>ws. queue (run j) = queue (run i) @ ws) \<and> length (busy (run j)) \<le> length (busy (run i))"
  using assms(2,3)
proof (induction rule: dec_induct)
  case (step j)
  then have IH: "\<exists>ws. queue (run j) = queue (run i) @ ws" "length (busy (run j)) \<le> length (busy (run i))" by auto
  from assms(1) show ?case
  proof (cases rule: run_cases [of run j])
    case put
    with IH show ?thesis unfolding pool_put_def by (metis append.assoc)
  next
    case take
    with step show ?thesis by simp
  next
    case (finish w)
    with IH show ?thesis by (auto simp: pool_finish_def length_remove1)
  qed
qed simp

text \<open>A queue that is not empty is taken from.\<close>

lemma front_taken:
  assumes "is_run step run" "fair_pool queue busy n run" "queue (run i) \<noteq> []"
  shows "\<exists>j \<ge> i. pool_take queue busy (run j) (run (Suc j)) \<and> (\<exists>ws. queue (run j) = queue (run i) @ ws)"
proof -
  have "\<exists>j \<ge> i. pool_take queue busy (run j) (run (Suc j))"
  proof (rule ccontr)
    assume none: "\<not> ?thesis"
    have keep: "length (busy (run j)) \<le> length (busy (run l))" if "i \<le> l" "l \<le> j" for j l
      using no_take [OF assms(1) that(2)] none that(1) by auto
    have full: "queue (run j) \<noteq> []" if "i \<le> j" for j
      using no_take [OF assms(1) that] none assms(3) by auto
    have "\<exists>l \<ge> i'. length (busy (run l)) < n" if "i \<le> i'" for i'
      using that
    proof (induction "length (busy (run i'))" arbitrary: i' rule: less_induct)
      case less
      show ?case
      proof (cases "busy (run i')")
        case Nil
        with workers show ?thesis by auto
      next
        case (Cons w ws)
        then obtain j where j: "i' \<le> j" "pool_finish queue busy w (run j) (run (Suc j))"
          using busy_finished [OF assms(1,2), of w i'] by auto
        then have "length (busy (run (Suc j))) < length (busy (run j))"
          by (auto simp: pool_finish_def length_remove1 dest: length_pos_if_in_set)
        with keep [OF less.prems j(1)] have "length (busy (run (Suc j))) < length (busy (run i'))" by simp
        from less.hyps [OF this] j(1) less.prems show ?thesis by (meson le_SucI order_trans)
      qed
    qed
    then obtain l where l: "i \<le> l" "length (busy (run l)) < n" by blast
    have "queue (run j) \<noteq> [] \<and> length (busy (run j)) < n" if "l \<le> j" for j
      using full [of j] keep [of l j] l that by auto
    with assms(2) none l(1) show False unfolding fair_pool_def by (meson order_trans)
  qed
  then obtain j where j: "i \<le> j" "pool_take queue busy (run j) (run (Suc j))"
    "\<And>l. i \<le> l \<Longrightarrow> l < j \<Longrightarrow> \<not> pool_take queue busy (run l) (run (Suc l))"
    using exists_least_iff [of "\<lambda>j. i \<le> j \<and> pool_take queue busy (run j) (run (Suc j))"] by blast
  then show ?thesis using no_take [OF assms(1) j(1,3)] by blast
qed

text \<open>No work is left behind.\<close>

theorem work_finished:
  assumes "is_run step run" "fair_pool queue busy n run" "w \<in> set (queue (run i)) \<union> set (busy (run i))"
  shows "\<exists>j \<ge> i. pool_finish queue busy w (run j) (run (Suc j))"
proof -
  have "\<exists>j \<ge> i. pool_finish queue busy w (run j) (run (Suc j))" if "p < length (queue (run i))" "queue (run i) ! p = w" for p
    using that
  proof (induction p arbitrary: i)
    case (0 i)
    then have "queue (run i) \<noteq> []" by auto
    from front_taken [OF assms(1,2) this] obtain j ws v where j: "i \<le> j" "queue (run j) = v # queue (run (Suc j))"
      "busy (run (Suc j)) = v # busy (run j)" "queue (run j) = queue (run i) @ ws" unfolding pool_take_def by blast
    have "v = w" using 0 j(2,4) by (metis nth_Cons_0 nth_append)
    then have "w \<in> set (busy (run (Suc j)))" by (simp add: j(3))
    from busy_finished [OF assms(1,2) this] j(1) show ?case by (meson Suc_leD order_trans)
  next
    case (Suc p i)
    then have "queue (run i) \<noteq> []" by auto
    from front_taken [OF assms(1,2) this] obtain j ws v where j: "i \<le> j" "queue (run j) = v # queue (run (Suc j))"
      "queue (run j) = queue (run i) @ ws" unfolding pool_take_def by blast
    have "queue (run (Suc j)) ! p = queue (run j) ! Suc p" "length (queue (run j)) = Suc (length (queue (run (Suc j))))"
      by (simp_all add: j(2))
    with Suc.prems j(3) have "p < length (queue (run (Suc j)))" "queue (run (Suc j)) ! p = w"
      by (simp_all add: nth_append)
    from Suc.IH [OF this] j(1) show ?case by (meson Suc_leD order_trans)
  qed
  then show ?thesis using assms(3) busy_finished [OF assms(1,2), of w i] by (metis Un_iff in_set_conv_nth)
qed

end

end
