(* ===== verification/Drain_Liveness.thy ===== *)
theory Drain_Liveness
  imports Epp_Run Worker_Pool
begin

text \<open>
  Drains come to an end. The drain queue of the manager and its workers are a worker pool, seen from
  the whole running process: whatever the pollers, servers, engines and requests do, they only put
  drains at the back of the queue. Under a scheduler that is fair to the workers (which includes that a drain
  that has begun ends, as its timeout makes it) every drain is taken and finished, so every cell that is being torn down disappears and every engine that was
  replaced is cancelled. The workers end with the signal context: a fair run is one in which the
  process is not stopped, or that is looked at before.
\<close>

definition drain_queue :: "process \<Rightarrow> drainTask list" where
  "drain_queue p = m_drainCh (sy_m (ps_sys p))"

definition drains_running :: "process \<Rightarrow> drainTask list" where
  "drains_running p = sy_infl (ps_sys p)"

definition drain_workers :: "llmd \<Rightarrow> Config \<Rightarrow> nat" where
  "drain_workers L cfg = nat (mc_drainWorkers (production_cfg L (manager_options cfg)))"

section \<open>Everybody else only puts drains at the back\<close>

definition appends :: "'a Manager_scheme \<Rightarrow> 'a Manager_scheme \<Rightarrow> bool" where
  "appends m m' \<longleftrightarrow> (\<exists>ts. m_drainCh m' = m_drainCh m @ ts)"

lemma appends_same [simp]: "m_drainCh m' = m_drainCh m \<Longrightarrow> appends m m'"
  by (simp add: appends_def)

lemma appends_trans [trans]: "appends a b \<Longrightarrow> appends b c \<Longrightarrow> appends a c"
  by (auto simp: appends_def)

lemma appends_scheduleDrain: "m_drainCh m' = m_drainCh m \<Longrightarrow> appends m (scheduleDrain c e td m')"
  by (cases rule: scheduleDrain_cases [of m' c e td]) (simp_all add: appends_def Manager_drain_def)

lemma appends_Promote: "appends m (Manager_Promote key m)"
  by (simp add: Manager_Promote_def Let_def split: option.split)

lemma appends_Demote: "appends m (Manager_Demote key m)"
  by (auto simp: Manager_Demote_def Let_def intro: appends_scheduleDrain split: option.split)

lemma appends_Drop: "appends m (Manager_Drop key m)"
  by (auto simp: Manager_Drop_def Let_def intro: appends_scheduleDrain split: option.split)

lemma appends_Ensure_role: "appends m (Ensure_role c key role m)"
  by (simp add: Ensure_role_def appends_Promote appends_Demote)

lemma create_drainCh: "m_drainCh (snd (Ensure_create cfg key m)) = m_drainCh m"
  by (simp add: Ensure_create_def Let_def case_prod_unfold split: sum.split)

lemma appends_Ensure: "appends m (snd (Manager_Ensure cfg key role m))"
proof -
  obtain r m1 where c: "Ensure_create cfg key m = (r, m1)" by fastforce
  have "appends m m1" using create_drainCh [of cfg key m] c by simp
  then have "appends m (Ensure_role c key role m1)" for c by (rule appends_trans [OF _ appends_Ensure_role])
  then show ?thesis
    using c \<open>appends m m1\<close> by (auto simp: Manager_Ensure_def appends_Ensure_role split: option.split sum.split)
qed

lemma appends_ApplyConfig: "appends m (snd (Manager_ApplyConfig cfg key raw now m))"
  by (auto simp: Manager_ApplyConfig_def Let_def intro: appends_scheduleDrain split: option.split prod.split sum.split)

lemma appends_ensure_all: "appends m (snd (ensure_all cfg mine m))"
proof (induction mine arbitrary: m)
  case (Cons x mine)
  obtain key role r m1 where x: "x = (key, role)" "Manager_Ensure cfg key role m = (r, m1)" by (metis surj_pair)
  then have "appends m m1" using appends_Ensure [of m cfg key role] by simp
  with x appends_trans [OF this Cons.IH] show ?case by (simp split: sum.split)
qed simp

lemma appends_drop_unassigned: "appends m (drop_unassigned mine cs m)"
  by (induction cs arbitrary: m) (auto intro: appends_trans [OF appends_Drop])

lemma appends_apply_all: "appends m (apply_all cfg mine now configs m)"
proof (induction configs arbitrary: m)
  case (Cons x configs)
  obtain cluster raw where x: "x = (cluster, raw)" by fastforce
  have "appends m (if map_of mine cluster = None then m else snd (Manager_ApplyConfig cfg cluster raw now m))"
    by (simp add: appends_ApplyConfig)
  from appends_trans [OF this Cons.IH] show ?case unfolding x by (simp only: apply_all_step)
qed simp

lemma appends_Handle:
  fixes m :: EppDataWatcher
  shows "appends m (snd (EppDataWatcher_Handle cfg self now conf m))"
proof -
  define mine where "mine = handle_mine self (ed_Assignment conf) []"
  define m1 where "m1 = m\<lparr>w_assignmentNoMatch := (if mine = [] then 1 else 0)\<rparr>"
  obtain r m2 where m2: "ensure_all cfg mine m1 = (r, m2)" by fastforce
  have "appends m m1" by (simp add: m1_def)
  also have "appends m1 m2" using appends_ensure_all [of m1 cfg mine] m2 by simp
  finally have "appends m m2" .
  moreover from this have "appends m (apply_all cfg mine now (ed_EppConfig conf) (drop_unassigned mine (Manager_List m2) m2))"
    by (meson appends_trans appends_drop_unassigned appends_apply_all)
  ultimately show ?thesis
    using m2 by (auto simp: EppDataWatcher_Handle_def mine_def [symmetric] m1_def Let_def split: option.split if_splits)
qed

section \<open>The process as a worker pool\<close>

lemma run_step_put:
  assumes "run_step L cfg p q"
  shows "pool_put drain_queue drains_running p q"
proof -
  have "appends (sy_m (ps_sys p)) (sy_m (ps_sys q)) \<and> sy_infl (ps_sys q) = sy_infl (ps_sys p)"
    using assms
  proof cases
    case (eppData_round now ReadFile net delay loop m)
    from eppData_round(3) have "appends (sy_m (ps_sys p)) m"
      by (cases rule: round_state) (simp_all add: appends_Handle)
    with eppData_round(1) show ?thesis by simp
  qed simp_all
  then show ?thesis by (simp add: pool_put_def appends_def drain_queue_def drains_running_def)
qed

lemma fault_step_put: "fault_step cfg p q \<Longrightarrow> pool_put drain_queue drains_running p q"
  by (simp add: fault_step_sys pool_put_def drain_queue_def drains_running_def)

lemma data_step_pool:
  assumes "data_step L cfg p q"
  shows "pool_put drain_queue drains_running p q \<or> pool_take drain_queue drains_running p q \<or>
    (\<exists>t. pool_finish drain_queue drains_running t p q \<and> sy_m (ps_sys q) = Manager_drain_end t (sy_m (ps_sys p)))"
  using assms
proof cases
  case (request i pc m)
  then show ?thesis
    using req_step_facts(9) [OF request(3)] by (simp add: pool_put_def drain_queue_def drains_running_def)
qed (auto simp: pool_put_def pool_take_def pool_finish_def drain_queue_def drains_running_def Engine_await_ready_def
    discovery_round_fields)

interpretation drains: worker_pool "proc_step L cfg" drain_queue drains_running "drain_workers L cfg" for L cfg
proof
  show "0 < drain_workers L cfg" by (simp add: drain_workers_def production_cfg_def NewManager_def)
  show "pool_put drain_queue drains_running p q \<or> pool_take drain_queue drains_running p q \<or>
      (\<exists>t. pool_finish drain_queue drains_running t p q)" if "proc_step L cfg p q" for p q
    using that run_step_put fault_step_put data_step_pool unfolding proc_step_def by blast
qed

text \<open>A worker that finishes a drain has done what \<open>drain\<close> does after the wait.\<close>

lemma finish_drain_end:
  assumes "proc_step L cfg p q \<or> q = p" "pool_finish drain_queue drains_running t p q"
  shows "sy_m (ps_sys q) = Manager_drain_end t (sy_m (ps_sys p))"
proof -
  have short: "length (drains_running q) < length (drains_running p)"
    using assms(2) by (auto simp: pool_finish_def length_remove1 dest: length_pos_if_in_set)
  then have "\<not> pool_put drain_queue drains_running p q" "\<not> pool_take drain_queue drains_running p q"
    by (auto simp: pool_put_def pool_take_def)
  then have "data_step L cfg p q"
    using assms(1) short run_step_put fault_step_put unfolding proc_step_def by auto
  with data_step_pool [OF this] \<open>\<not> pool_put _ _ p q\<close> \<open>\<not> pool_take _ _ p q\<close>
  obtain u where u: "pool_finish drain_queue drains_running u p q" "sy_m (ps_sys q) = Manager_drain_end u (sy_m (ps_sys p))"
    by blast
  from pool_finish_unique [OF u(1)] assms(2) have "t = u" by (simp add: pool_finish_def)
  with u(2) show ?thesis by simp
qed

lemma run_from:
  assumes "is_run (proc_step L cfg) run" "i \<le> j"
  shows "(proc_step L cfg)\<^sup>*\<^sup>* (run i) (run j)"
  using assms(2)
proof (induction rule: dec_induct)
  case (step j)
  with assms(1) show ?case unfolding is_run_def by (metis rtranclp.rtrancl_into_rtrancl)
qed simp

lemma run_keeps:
  assumes "is_run (proc_step L cfg) run" "sys_inv L (manager_options cfg) (ps_sys (run 0))" "i \<le> j"
  shows "sys_inv L (manager_options cfg) (ps_sys (run i))" "grows (sy_m (ps_sys (run i))) (sy_m (ps_sys (run j)))"
proof -
  show inv: "sys_inv L (manager_options cfg) (ps_sys (run i))"
    using run_grows [OF process_run_sys [OF run_from [OF assms(1)]] assms(2)] by simp
  show "grows (sy_m (ps_sys (run i))) (sy_m (ps_sys (run j)))"
    using run_grows [OF process_run_sys [OF run_from [OF assms(1,3)]] inv] by simp
qed

section \<open>No drain is left behind\<close>

lemma drain_finished:
  assumes "is_run (proc_step L cfg) run" "fair_pool drain_queue drains_running (drain_workers L cfg) run"
    and "t \<in> set (drain_queue (run i)) \<union> set (drains_running (run i))"
  obtains j where "i \<le> j" "t \<in> set (sy_infl (ps_sys (run j)))"
    "sy_m (ps_sys (run (Suc j))) = Manager_drain_end t (sy_m (ps_sys (run j)))"
proof -
  obtain j where j: "i \<le> j" "pool_finish drain_queue drains_running t (run j) (run (Suc j))"
    using drains.work_finished [OF assms] by blast
  have "proc_step L cfg (run j) (run (Suc j)) \<or> run (Suc j) = run j"
    using assms(1) by (simp add: is_run_def)
  then have "sy_m (ps_sys (run (Suc j))) = Manager_drain_end t (sy_m (ps_sys (run j)))"
    using finish_drain_end j(2) by blast
  moreover have "t \<in> set (sy_infl (ps_sys (run j)))" using j(2) by (simp add: pool_finish_def drains_running_def)
  ultimately show thesis using that j(1) by blast
qed

text \<open>
  C9. Teardowns and drains complete. In every run of the process, with any interleaving of polls,
  requests, engines and workers, in which the workers are scheduled fairly (a worker that is free takes the next drain, and a
  drain that has begun ends: it waits for its requests no longer than the drain timeout): a cell that is being
  torn down is eventually closed and gone from the registry for good, so that its cluster can be
  assigned again; and an engine that has been replaced is eventually cancelled.
\<close>

theorem teardown_completes:
  assumes "is_run (proc_step L cfg) run" and "sys_inv L (manager_options cfg) (ps_sys (run 0))"
    and "fair_pool drain_queue drains_running (drain_workers L cfg) run"
  shows "(\<forall>i k c. Manager_Get k (sy_m (ps_sys (run i))) = Some c \<and> c_state (st_cells (sy_m (ps_sys (run i))) c) = StateDraining \<longrightarrow>
      (\<exists>j \<ge> i. \<forall>l \<ge> j. c_closed (st_cells (sy_m (ps_sys (run l))) c) \<and> Manager_Get k (sy_m (ps_sys (run l))) \<noteq> Some c)) \<and>
    (\<forall>i e. retired e (sy_m (ps_sys (run i))) \<longrightarrow> (\<exists>j \<ge> i. \<forall>l \<ge> j. eng_cancelled (st_engines (sy_m (ps_sys (run l))) e)))"
proof (intro conjI allI impI)
  let ?m = "\<lambda>i. sy_m (ps_sys (run i))"
  have inv: "mgr_inv (sy_infl (ps_sys (run i))) (?m i)" for i
    using run_keeps(1) [OF assms(1,2) order_refl] by (simp add: sys_inv_def)
  note grow = run_keeps(2) [OF assms(1,2)]
  {
    fix i k c assume a: "Manager_Get k (?m i) = Some c \<and> c_state (st_cells (?m i) c) = StateDraining"
    have c: "c < m_nextCell (?m i)" using Get_bound [OF inv] a by blast
    have "\<not> c_closed (st_cells (?m i) c)"
      using inv [of i] a by (auto simp: mgr_inv_def registered_open_def Manager_Get_def)
    then obtain t where t: "t \<in> set (drain_queue (run i)) \<union> set (drains_running (run i))" "t_teardown t" "t_cell t = c"
      using inv [of i] a c by (auto simp: mgr_inv_def draining_pending_def drain_queue_def drains_running_def)
    obtain j where j: "i \<le> j" "?m (Suc j) = Manager_drain_end t (?m j)"
      using drain_finished [OF assms(1,3) t(1)] by blast
    then have "c_closed (st_cells (?m (Suc j)) c)" using t by simp
    moreover have "c < m_nextCell (?m (Suc j))" using c grow [of i "Suc j"] j(1) by (auto simp: grows_def)
    ultimately have closed: "c_closed (st_cells (?m l) c)" if "Suc j \<le> l" for l
      using grow [OF that] by (auto simp: grows_def cell_evolves_def)
    then have "Manager_Get k (?m l) \<noteq> Some c" if "Suc j \<le> l" for l
      using inv [of l] that by (auto simp: mgr_inv_def registered_open_def Manager_Get_def)
    with closed j(1) show "\<exists>j \<ge> i. \<forall>l \<ge> j. c_closed (st_cells (?m l) c) \<and> Manager_Get k (?m l) \<noteq> Some c"
      by (intro exI [of _ "Suc j"]) auto
  next
    fix i e assume a: "retired e (?m i)"
    have "\<exists>j \<ge> i. eng_cancelled (st_engines (?m j) e)"
    proof (cases "eng_cancelled (st_engines (?m i) e)")
      case False
      then obtain t where t: "t \<in> set (drain_queue (run i))" "t_eng t = e"
        using inv [of i] a by (auto simp: mgr_inv_def no_engine_leak_def retired_def drain_queue_def)
      obtain j where "i \<le> j" "t \<in> set (sy_infl (ps_sys (run j)))"
        using drain_finished [OF assms(1,3)] t(1) by blast
      then show ?thesis using inv [of j] t(2) by (auto simp: mgr_inv_def tasks_wf_def)
    qed blast
    then obtain j where j: "i \<le> j" "eng_cancelled (st_engines (?m j) e)" by blast
    moreover have "e < m_nextEngine (?m j)" using a grow [OF j(1)] by (auto simp: retired_def grows_def)
    ultimately show "\<exists>j \<ge> i. \<forall>l \<ge> j. eng_cancelled (st_engines (?m l) e)"
      using grow by (intro exI [of _ j]) (auto simp: grows_def)
  }
qed

text \<open>A run: a cell is being torn down, its drain is queued; a worker takes it and finishes it.\<close>

definition demo_teardown :: "nat \<Rightarrow> process" where
  "demo_teardown i =
     (let p = new_process demo_llmd demo_cfg;
          t = mk_task 0 0 True;
          m = demo_watcher\<lparr>st_cells := (st_cells demo_watcher)(0 := (st_cells demo_watcher 0)\<lparr>c_state := StateDraining\<rparr>),
                m_drainCh := [t]\<rparr>;
          m1 = Manager_drain_begin t (m\<lparr>m_drainCh := []\<rparr>)
      in p\<lparr>ps_sys := (if i = 0 then \<lparr>sy_m = m, sy_infl = [], sy_reqs = []\<rparr>
              else if i = 1 then \<lparr>sy_m = m1, sy_infl = [t], sy_reqs = []\<rparr>
              else \<lparr>sy_m = Manager_drain_end t m1, sy_infl = [], sy_reqs = []\<rparr>)\<rparr>)"

lemma demo_teardown_run: "is_run (proc_step demo_llmd demo_cfg) demo_teardown"
  unfolding is_run_def
proof
  fix i
  let ?p = "demo_teardown i"
  have drainers: "mc_drainWorkers (production_cfg demo_llmd (manager_options demo_cfg)) = 4"
    by (simp add: production_cfg_def NewManager_def manager_options_def)
  consider "i = 0" | "i = 1" | "2 \<le> i" by linarith
  then show "proc_step demo_llmd demo_cfg ?p (demo_teardown (Suc i)) \<or> demo_teardown (Suc i) = ?p"
  proof cases
    case 1
    have "data_step demo_llmd demo_cfg ?p (demo_teardown (Suc i))"
      using data_step.take [of ?p "mk_task 0 0 True" "[]" demo_llmd demo_cfg] 1
      by (simp add: demo_teardown_def Let_def drainers)
    then show ?thesis by (simp add: proc_step_def)
  next
    case 2
    have "data_step demo_llmd demo_cfg ?p (demo_teardown (Suc i))"
      using data_step.finish [of "mk_task 0 0 True" ?p demo_llmd demo_cfg] 2
      by (simp add: demo_teardown_def Let_def)
    then show ?thesis by (simp add: proc_step_def)
  next
    case 3
    then show ?thesis by (simp add: demo_teardown_def Let_def)
  qed
qed

lemma demo_teardown_fair: "fair_pool drain_queue drains_running n demo_teardown"
proof -
  have idle: "drain_queue (demo_teardown j) = []" "drains_running (demo_teardown j) = []" if "2 \<le> j" for j
    using that by (simp_all add: demo_teardown_def Let_def drain_queue_def drains_running_def)
  then have "\<exists>j \<ge> i. drain_queue (demo_teardown j) = [] \<and> drains_running (demo_teardown j) = []" for i
    by (intro exI [of _ "i + 2"]) simp
  then show ?thesis unfolding fair_pool_def by (metis empty_iff empty_set)
qed

lemma demo_teardown_inv: "sys_inv demo_llmd (manager_options demo_cfg) (ps_sys (demo_teardown 0))"
proof -
  have "mgr_inv [] (sy_m (ps_sys (demo_teardown 0)))"
    by (auto simp: demo_teardown_def demo_watcher_def Let_def mgr_inv_defs Manager_Get_def
        demo_mgr_def demo_cell_def zero_defs smap_Load_def drainCh_cap_def Manager.extend_def split: if_splits)
  then show ?thesis
    by (auto simp: sys_inv_def demo_teardown_def Let_def role_state_ok_def demo_watcher_def demo_mgr_def demo_cell_def
        zero_defs Manager.extend_def production_cfg_def NewManager_def manager_options_def)
qed

theorem teardown_completes_witness:
  "Manager_Get ''c1'' (sy_m (ps_sys (demo_teardown 0))) = Some 0 \<and>
   (\<exists>j. \<forall>l \<ge> j. Manager_Get ''c1'' (sy_m (ps_sys (demo_teardown l))) \<noteq> Some 0)"
proof -
  have "Manager_Get ''c1'' (sy_m (ps_sys (demo_teardown 0))) = Some 0"
    "c_state (st_cells (sy_m (ps_sys (demo_teardown 0))) 0) = StateDraining"
    by (simp_all add: demo_teardown_def Let_def demo_watcher_def demo_mgr_def Manager.extend_def Manager_Get_def smap_Load_def)
  with teardown_completes [OF demo_teardown_run demo_teardown_inv demo_teardown_fair] show ?thesis by blast
qed

end
