(* ===== verification/Ready_Liveness.thy ===== *)
theory Ready_Liveness
  imports Epp_Run Fair_Progress
begin

text \<open>
  The readiness gate (\<open>cmd/epp/main.go\<close>, the last goroutine of \<open>run\<close>) does open: in a run in which
  the gate is scheduled, and in which from some time on the assignments are synced and all cells
  are ready, the health service reports serving from some time on.
\<close>

definition gate_moves :: "process \<Rightarrow> process \<Rightarrow> bool" where
  "gate_moves p q \<longleftrightarrow> ps_pc q GateTask \<noteq> ps_pc p GateTask"

lemma data_step_fields:
  assumes "data_step L cfg p q"
  shows "ps_pc q = ps_pc p" "ps_health q = ps_health p" "ps_eppDataLoop q = ps_eppDataLoop p"
  by (subst data_step_sys(2) [OF assms], simp)+

text \<open>There is a cell and all cells are ready.\<close>

definition cells_ready :: "'a Manager_scheme \<Rightarrow> bool" where
  "cells_ready m \<longleftrightarrow> Manager_List m \<noteq> [] \<and> (\<forall>c \<in> set (Manager_List m). c_ready (st_cells m c))"

text \<open>A pass that will succeed: the cells it has still to look at are ready. Ready cells stay ready, so it stays one. How far
  the gate is from opening: a pass that will not succeed has to end first, with the sleep after it.\<close>

definition good_pass :: "bool \<Rightarrow> nat list \<Rightarrow> 'a Manager_scheme \<Rightarrow> bool" where
  "good_pass ok cs m \<longleftrightarrow> ok \<and> (\<forall>c \<in> set cs. c < m_nextCell m \<and> c_ready (st_cells m c))"

definition gate_rank :: "process \<Rightarrow> nat \<times> nat" where
  "gate_rank p = (case ps_pc p GateTask of
       GateScan ok cs \<Rightarrow> (if good_pass ok cs (sy_m (ps_sys p)) then 0 else 3, length cs)
     | GatePoll \<Rightarrow> (1, 0)
     | _ \<Rightarrow> (2, 0))"

text \<open>What the gate waits for.\<close>

definition may_open :: "llmd \<Rightarrow> Config \<Rightarrow> process \<Rightarrow> bool" where
  "may_open L cfg p \<longleftrightarrow> process_inv p \<and> sys_inv L (manager_options cfg) (ps_sys p) \<and> \<not> ps_cancelled p \<and>
     Poller_FirstSync (ps_eppDataLoop p) \<and> cells_ready (sy_m (ps_sys p))"

lemma not_gate:
  assumes "fault_step cfg p q \<or> data_step L cfg p q" "process_inv p"
  shows "ps_pc q GateTask = ps_pc p GateTask" "ps_health q = ps_health p"
  using assms data_step_fields [of L cfg p q]
  by (auto elim!: fault_stepE simp: task_return_fields)

lemma gate_step:
  assumes "may_open L cfg p" "proc_step L cfg p q" "gate_moves p q"
  shows "hs_ready (ps_health q) \<or> (gate_rank q, gate_rank p) \<in> less_than <*lex*> less_than"
proof -
  have inv: "process_inv p" "mgr_inv (sy_infl (ps_sys p)) (sy_m (ps_sys p))" "\<not> ps_cancelled p" "cells_ready (sy_m (ps_sys p))"
    using assms(1) by (simp_all add: may_open_def sys_inv_def)
  have step: "run_step L cfg p q"
    using assms(2,3) not_gate(1) [OF _ inv(1)] by (auto simp: proc_step_def gate_moves_def)
  then show ?thesis
  proof cases
    case gate_list
    have "good_pass True (Manager_List (sy_m (ps_sys p))) (sy_m (ps_sys p))"
      using inv(4) listed_known [OF inv(2)] by (simp add: good_pass_def cells_ready_def)
    with gate_list show ?thesis by (simp add: gate_rank_def)
  next
    case (gate_cell ok c cs)
    have "good_pass (if Cell_Ready c (sy_m (ps_sys p)) then ok else False) cs (sy_m (ps_sys p))"
      if "good_pass ok (c # cs) (sy_m (ps_sys p))" using that by (simp add: good_pass_def Cell_Ready_def)
    with gate_cell show ?thesis by (simp add: gate_rank_def)
  next
    case (gate_not_ready ok)
    then have "\<not> ok" using inv(4) by (auto simp: cells_ready_def)
    with gate_not_ready show ?thesis by (simp add: gate_rank_def good_pass_def)
  qed (use assms(3) inv(3) in \<open>auto simp: gate_moves_def gate_rank_def task_return_fields setReady_def\<close>)
qed

lemma gate_waits:
  assumes "may_open L cfg p" "proc_step L cfg p q" "\<not> gate_moves p q"
  shows "gate_rank q = gate_rank p \<or> (gate_rank q, gate_rank p) \<in> less_than <*lex*> less_than"
proof -
  have inv: "sys_inv L (manager_options cfg) (ps_sys p)" using assms(1) by (simp add: may_open_def)
  have "c < m_nextCell (sy_m (ps_sys q)) \<and> c_ready (st_cells (sy_m (ps_sys q)) c)"
    if "c < m_nextCell (sy_m (ps_sys p))" "c_ready (st_cells (sy_m (ps_sys p)) c)" for c
    using that step_nextCell(2) [OF assms(2) inv] ready_stays [OF r_into_rtranclp [of "proc_step L cfg", OF assms(2)] inv] by simp
  then have "good_pass ok cs (sy_m (ps_sys q))" if "good_pass ok cs (sy_m (ps_sys p))" for ok cs
    using that by (simp add: good_pass_def)
  then show ?thesis using assms(3) by (auto simp: gate_moves_def gate_rank_def split: task_pc.split)
qed

lemma ready_kept:
  assumes "proc_step L cfg p q" "hs_ready (ps_health p)"
  shows "hs_ready (ps_health q)"
proof -
  have "hs_ready (ps_health q)" if "run_step L cfg p q"
    using that assms(2) by cases (auto simp: task_return_fields setReady_def)
  moreover have "ps_health q = ps_health p" if "fault_step cfg p q"
    using that by (auto elim!: fault_stepE simp: task_return_fields)
  ultimately show ?thesis using assms data_step_fields(2) by (auto simp: proc_step_def)
qed

text \<open>As long as the gate is not open it can take a step.\<close>

lemma gate_enabled:
  assumes "may_open L cfg p" "\<not> hs_ready (ps_health p)"
  shows "\<exists>q. run_step L cfg p q \<and> gate_moves p q"
proof -
  have sync: "Poller_FirstSync (ps_eppDataLoop p)" and gate: "ps_pc p GateTask \<noteq> GateSleep False" "ps_pc p GateTask \<noteq> TaskDone"
      "pc_shape GateTask (ps_pc p GateTask)"
    using assms by (auto simp: may_open_def process_inv_def undisturbed_def)
  consider "ps_pc p GateTask = GateSync" | "ps_pc p GateTask = GatePoll" | "ps_pc p GateTask = GateSleep True"
    | ok where "ps_pc p GateTask = GateScan ok []" | ok c cs where "ps_pc p GateTask = GateScan ok (c # cs)"
    using gate by (auto simp: pc_shape_def image_iff) (metis neq_Nil_conv)
  then show ?thesis
  proof cases
    case 1
    from run_step.gate_synced [OF 1 sync, of L cfg] 1 show ?thesis by (auto simp: gate_moves_def)
  next
    case 2
    from run_step.gate_list [OF 2, of L cfg] 2 show ?thesis by (auto simp: gate_moves_def)
  next
    case 3
    from run_step.gate_again [OF 3, of L cfg] 3 show ?thesis by (auto simp: gate_moves_def)
  next
    case (4 ok)
    show ?thesis
    proof (cases "ok \<and> 0 < length (Manager_List (sy_m (ps_sys p)))")
      case True
      with 4 run_step.gate_ready [of p L cfg] show ?thesis by (fastforce simp: gate_moves_def task_return_fields)
    next
      case False
      from run_step.gate_not_ready [OF 4 False, of L cfg] 4 show ?thesis by (auto simp: gate_moves_def)
    qed
  next
    case (5 ok c cs)
    from run_step.gate_cell [OF 5, of L cfg] 5 show ?thesis by (fastforce simp: gate_moves_def)
  qed
qed

interpretation gate: fair_progress "proc_step L cfg" gate_moves "may_open L cfg" "\<lambda>p. hs_ready (ps_health p)" gate_rank for L cfg
proof
  show "\<exists>q. proc_step L cfg p q \<and> gate_moves p q" if "may_open L cfg p" "\<not> hs_ready (ps_health p)" for p
    using gate_enabled [OF that] by (auto simp: proc_step_def)
  show "hs_ready (ps_health q) \<or> (gate_rank q, gate_rank p) \<in> less_than <*lex*> less_than"
    if "may_open L cfg p" "proc_step L cfg p q" "gate_moves p q" for p q by (rule gate_step [OF that])
  show "gate_rank q = gate_rank p \<or> (gate_rank q, gate_rank p) \<in> less_than <*lex*> less_than"
    if "may_open L cfg p" "proc_step L cfg p q" "\<not> gate_moves p q" for p q by (rule gate_waits [OF that])
qed (simp add: gate_moves_def)

text \<open>
  C10. The gate opens. In every run of the process (from its start, or from any state in the invariants
  of its reachable states) that is fair to the readiness gate and is not stopped: if from some time on the assignments have been
  synced once, there is a cell and all cells are ready, then from some time on the health service answers serving. The gate
  may be in the middle of a pass that fails, since a cell it has seen was not ready, and cells may come and go while it looks at them
  one by one. Nothing takes the answer back.
\<close>

theorem gate_opens:
  assumes "is_run (proc_step L cfg) run" and "process_inv (run 0)" and "sys_inv L (manager_options cfg) (ps_sys (run 0))"
    and "weakly_fair (proc_step L cfg) gate_moves run" and "\<And>i. \<not> ps_cancelled (run i)"
    and "\<And>i. n \<le> i \<Longrightarrow> Poller_FirstSync (ps_eppDataLoop (run i)) \<and> cells_ready (sy_m (ps_sys (run i)))"
  shows "\<exists>j \<ge> n. \<forall>l \<ge> j. \<forall>service. health_Check service (ps_health (run l)) = Inr SERVING"
proof -
  have "process_inv (run i)" for i
    by (rule run_invariant [where P = process_inv, OF assms(1,2) process_inv_step]) simp_all
  moreover have "sys_inv L (manager_options cfg) (ps_sys (run i))" for i
    by (rule run_invariant [where P = "\<lambda>p. sys_inv L (manager_options cfg) (ps_sys p)", OF assms(1,3) step_nextCell(1)]) simp_all
  ultimately have "may_open L cfg (run i)" if "n \<le> i" for i using assms(5) assms(6) [OF that] by (simp add: may_open_def)
  then obtain j where j: "n \<le> j" "hs_ready (ps_health (run j))"
    using gate.reaches_goal [OF assms(1,4)] by blast
  have "hs_ready (ps_health (run l))" if "j \<le> l" for l
    by (rule run_invariant [where P = "\<lambda>p. hs_ready (ps_health p)", OF assms(1) j(2) ready_kept that])
  with j(1) show ?thesis by (intro exI [of _ j]) (auto simp: health_Check_def)
qed

text \<open>A run: the assignments are synced and the one cell is ready; the gate wakes up, lists the registry, looks at the cell,
  and opens.\<close>

definition demo_synced :: process where
  "demo_synced =
     (let p = new_process demo_llmd demo_cfg
      in p\<lparr>ps_sys := \<lparr>sy_m = demo_watcher, sy_infl = [], sy_reqs = []\<rparr>,
           ps_eppDataLoop := Poller_synced 5 (ps_eppDataLoop p)\<rparr>)"

definition demo_gate :: "nat \<Rightarrow> process" where
  "demo_gate i =
     (let scanned = set_pc GateTask (GateScan True []) demo_synced
      in if i = 0 then demo_synced else if i = 1 then set_pc GateTask GatePoll demo_synced
         else if i = 2 then set_pc GateTask (GateScan True [0]) demo_synced else if i = 3 then scanned
         else task_return GateTask (Inr ()) (scanned\<lparr>ps_health := setReady True (ps_health scanned)\<rparr>))"

lemma demo_watcher_list: "Manager_List demo_watcher = [0]" "Cell_Ready 0 demo_watcher"
  by (simp_all add: Manager_List_def smap_Range_def demo_watcher_def Manager.extend_def demo_mgr_def demo_cell_def Cell_Ready_def)

lemma demo_gate_fields:
  "ps_eppDataLoop (demo_gate i) = Poller_synced 5 (ps_eppDataLoop (new_process demo_llmd demo_cfg))"
  "sy_m (ps_sys (demo_gate i)) = demo_watcher" "\<not> ps_cancelled (demo_gate i)"
  "ps_pc (demo_gate i) GateTask = (if i = 0 then GateSync else if i = 1 then GatePoll else if i = 2 then GateScan True [0]
     else if i = 3 then GateScan True [] else TaskDone)"
  by (simp_all add: demo_gate_def demo_synced_def new_process_def Let_def task_return_def)

lemma demo_gate_open:
  "Poller_FirstSync (ps_eppDataLoop (demo_gate i))" "cells_ready (sy_m (ps_sys (demo_gate i)))"
  using demo_watcher_list
  by (simp_all add: demo_gate_fields new_process_def Let_def Poller_FirstSync_def Poller_synced_def syncOnce_do_def
      Poller_New_def cells_ready_def Cell_Ready_def)

lemma demo_gate_inv: "process_inv (demo_gate 0)" "sys_inv demo_llmd (manager_options demo_cfg) (ps_sys (demo_gate 0))"
proof -
  have start: "process_inv (new_process demo_llmd demo_cfg)" by (rule process_inv_new)
  have "poller_wf (Poller_synced 5 (ps_eppDataLoop (new_process demo_llmd demo_cfg)))"
    by (simp add: new_process_def Let_def poller_wf_def Poller_synced_def syncOnce_do_def Poller_New_def)
  with start demo_gate_open(1) [of 0] show "process_inv (demo_gate 0)"
    by (simp add: process_inv_def undisturbed_def demo_gate_def demo_synced_def Let_def)
  show "sys_inv demo_llmd (manager_options demo_cfg) (ps_sys (demo_gate 0))"
  proof -
    have "ps_sys (demo_gate 0) = \<lparr>sy_m = demo_watcher, sy_infl = [], sy_reqs = []\<rparr>"
      by (simp add: demo_gate_def demo_synced_def Let_def)
    moreover have "role_state_ok (st_cells demo_watcher c)" "e < m_nextEngine demo_watcher \<Longrightarrow> eng_wg (st_engines demo_watcher e) = 0" for c e
      by (simp_all add: demo_watcher_def Manager.extend_def demo_mgr_def demo_cell_def zero_defs role_state_ok_def)
    ultimately show ?thesis
      using demo_watcher_ok(1) by (simp add: sys_inv_def production_cfg_def NewManager_def manager_options_def)
  qed
qed

lemma demo_gate_run: "is_run (proc_step demo_llmd demo_cfg) demo_gate"
  unfolding is_run_def
proof
  fix i :: nat
  note steps = demo_gate_fields demo_gate_open
  have upd: "demo_gate 1 = set_pc GateTask GatePoll (demo_gate 0)" "demo_gate 2 = set_pc GateTask (GateScan True [0]) (demo_gate 1)"
    "demo_gate 3 = set_pc GateTask (GateScan True []) (demo_gate 2)"
    "demo_gate 4 = task_return GateTask (Inr ()) ((demo_gate 3)\<lparr>ps_health := setReady True (ps_health (demo_gate 3))\<rparr>)"
    by (simp_all add: demo_gate_def)
  consider "i = 0" | "i = 1" | "i = 2" | "i = 3" | "4 \<le> i" by linarith
  then show "proc_step demo_llmd demo_cfg (demo_gate i) (demo_gate (Suc i)) \<or> demo_gate (Suc i) = demo_gate i"
  proof cases
    case 1
    then show ?thesis using run_step.gate_synced [of "demo_gate 0"] steps upd(1) by (simp add: proc_step_def)
  next
    case 2
    then show ?thesis
      using run_step.gate_list [of "demo_gate 1"] steps upd(2) demo_watcher_list(1) by (simp add: proc_step_def numeral_2_eq_2)
  next
    case 3
    then show ?thesis
      using run_step.gate_cell [of "demo_gate 2" True 0 "[]"] steps upd(3) demo_watcher_list(2)
      by (simp add: proc_step_def numeral_3_eq_3 numeral_2_eq_2)
  next
    case 4
    then show ?thesis
      using run_step.gate_ready [of "demo_gate 3"] steps upd(4) demo_watcher_list(1) by (simp add: proc_step_def)
  next
    case 5
    then show ?thesis by (simp add: demo_gate_def)
  qed
qed

lemma demo_gate_fair: "weakly_fair (proc_step demo_llmd demo_cfg) gate_moves demo_gate"
proof -
  have over: "ps_pc (demo_gate (i + 4)) GateTask = TaskDone" for i using demo_gate_fields(4) [of "i + 4"] by simp
  have "\<not> gate_moves (demo_gate (i + 4)) q" if "run_step demo_llmd demo_cfg (demo_gate (i + 4)) q" for i q
    using that over [of i] by cases (auto simp: gate_moves_def task_return_fields)
  moreover have "\<not> gate_moves (demo_gate (i + 4)) q" if "fault_step demo_cfg (demo_gate (i + 4)) q" for i q
    using that over [of i] by (auto elim!: fault_stepE simp: gate_moves_def task_return_fields)
  ultimately have "\<not> gate_moves (demo_gate (i + 4)) q" if "proc_step demo_llmd demo_cfg (demo_gate (i + 4)) q" for i q
    using that data_step_fields(1) by (auto simp: proc_step_def gate_moves_def)
  then show ?thesis unfolding weakly_fair_def by (metis le_add1)
qed

theorem gate_opens_witness:
  "health_Check [] (ps_health (demo_gate 0)) \<noteq> Inr SERVING \<and>
   (\<exists>j. \<forall>l \<ge> j. health_Check [] (ps_health (demo_gate l)) = Inr SERVING)"
proof -
  have "health_Check [] (ps_health (demo_gate 0)) \<noteq> Inr SERVING"
    by (simp add: demo_gate_def demo_synced_def new_process_def Let_def health_Check_def)
  moreover have "\<exists>j \<ge> 0. \<forall>l \<ge> j. \<forall>service. health_Check service (ps_health (demo_gate l)) = Inr SERVING"
    by (rule gate_opens [OF demo_gate_run demo_gate_inv demo_gate_fair demo_gate_fields(3)]) (simp add: demo_gate_open)
  ultimately show ?thesis by blast
qed

end
