(* ===== verification/Interleaving.thy ===== *)
theory Interleaving
  imports EPP_Prelude
begin

text \<open>
  A sequence of atomic actions with interference: between any two of them, before the first and
  after the last, the environment takes any number of steps. The locale \<open>interference\<close> is what an
  argument about such a sequence needs: the environment and the actions keep an invariant; the rest
  is which predicates are stable.
\<close>

inductive interleaved :: "('s \<Rightarrow> 's \<Rightarrow> bool) \<Rightarrow> ('s \<Rightarrow> 's) list \<Rightarrow> 's \<Rightarrow> 's \<Rightarrow> bool" for env where
  rest: "env\<^sup>*\<^sup>* s t \<Longrightarrow> interleaved env [] s t"
| act: "env\<^sup>*\<^sup>* s s' \<Longrightarrow> interleaved env fs (f s') t \<Longrightarrow> interleaved env (f # fs) s t"

inductive_cases interleaved_NilE: "interleaved env [] s t"
inductive_cases interleaved_ConsE: "interleaved env (f # fs) s t"

text \<open>Without interference the actions are run one after the other.\<close>

lemma interleaved_alone: "interleaved env fs s (fold (\<lambda>f. f) fs s)"
  by (induction fs arbitrary: s) (auto intro: interleaved.intros)

lemma interleaved_split:
  assumes "interleaved env (as @ f # bs) s t"
  obtains u where "interleaved env as s u" "interleaved env bs (f u) t"
  using assms
proof (induction as arbitrary: s thesis)
  case Nil
  then show ?case by (auto elim!: interleaved_ConsE intro: interleaved.rest)
next
  case (Cons a as)
  from Cons.prems(2) obtain s' where s': "env\<^sup>*\<^sup>* s s'" "interleaved env (as @ f # bs) (a s') t"
    by (auto elim: interleaved_ConsE)
  obtain u where "interleaved env as (a s') u" "interleaved env bs (f u) t" by (rule Cons.IH [OF _ s'(2)])
  then show ?case using Cons.prems(1) interleaved.act [OF s'(1)] by blast
qed

locale interference =
  fixes env :: "'s \<Rightarrow> 's \<Rightarrow> bool" and inv :: "'s \<Rightarrow> bool" and act_ok :: "('s \<Rightarrow> 's) \<Rightarrow> bool"
  assumes env_inv: "inv s \<Longrightarrow> env s t \<Longrightarrow> inv t"
    and act_inv: "inv s \<Longrightarrow> act_ok f \<Longrightarrow> inv (f s)"
begin

lemma env_stable:
  assumes "env\<^sup>*\<^sup>* s t" "inv s" "P s" "\<And>u v. inv u \<Longrightarrow> env u v \<Longrightarrow> P u \<Longrightarrow> P v"
  shows "inv t \<and> P t"
  using assms(1) by (induction rule: rtranclp_induct) (use assms(2-4) env_inv in blast)+

lemma sequence_stable:
  assumes "interleaved env fs s t" "list_all act_ok fs" "inv s" "P s"
    and "\<And>u v. inv u \<Longrightarrow> env u v \<Longrightarrow> P u \<Longrightarrow> P v"
    and "\<And>f u. f \<in> set fs \<Longrightarrow> inv u \<Longrightarrow> P u \<Longrightarrow> P (f u)"
  shows "inv t \<and> P t"
  using assms(1,2,3,4,6)
proof (induction rule: interleaved.induct)
  case (rest s t)
  then show ?case using env_stable assms(5) by blast
next
  case (act s s' fs f t)
  have s': "inv s' \<and> P s'" using env_stable [where P = P, OF act.hyps(1) act.prems(2,3)] assms(5) by blast
  with act.prems(1,4) have "inv (f s') \<and> P (f s')" by (simp add: act_inv)
  then show ?case using act.IH act.prems(1,4) by simp
qed

lemma sequence_inv: "interleaved env fs s t \<Longrightarrow> list_all act_ok fs \<Longrightarrow> inv s \<Longrightarrow> inv t"
  using sequence_stable [where P = "\<lambda>_. True"] by blast

text \<open>One action of the sequence establishes \<open>Q\<close> where \<open>P\<close> holds; \<open>P\<close> is stable before it, \<open>Q\<close> after it.\<close>

lemma sequence_establishes:
  assumes "interleaved env (as @ f # bs) s t" "list_all act_ok (as @ f # bs)" "inv s" "P s"
    and "\<And>u v. inv u \<Longrightarrow> env u v \<Longrightarrow> P u \<Longrightarrow> P v" "\<And>g u. g \<in> set as \<Longrightarrow> inv u \<Longrightarrow> P u \<Longrightarrow> P (g u)"
    and "\<And>u. inv u \<Longrightarrow> P u \<Longrightarrow> Q (f u)"
    and "\<And>u v. inv u \<Longrightarrow> env u v \<Longrightarrow> Q u \<Longrightarrow> Q v" "\<And>g u. g \<in> set bs \<Longrightarrow> inv u \<Longrightarrow> Q u \<Longrightarrow> Q (g u)"
  shows "inv t \<and> Q t"
proof -
  obtain u where u: "interleaved env as s u" "interleaved env bs (f u) t"
    by (rule interleaved_split [OF assms(1)])
  have "inv u \<and> P u" using sequence_stable [where P = P, OF u(1) _ assms(3,4)] assms(2,5,6) by simp
  then have "inv (f u)" "Q (f u)" using act_inv assms(2,7) by simp_all
  then show ?thesis using sequence_stable [where P = Q, OF u(2)] assms(2,8,9) by simp
qed

end

end
