(* ===== verification/Watcher_Concurrent.thy ===== *)
theory Watcher_Concurrent
  imports Epp_Run Interleaving
begin

text \<open>
  \<open>EppDataWatcher.Handle\<close> (\<open>pkg/poller/epp_data.go\<close>) is not atomic: while it goes through the
  snapshot, drain workers finish teardowns, engines become ready, plugins write their datastores,
  requests come and go, and the other goroutines of the process run. Here the handler is the
  sequence of its operations on the manager, and anything can happen between two of them. Only the
  handler itself creates, promotes, demotes or drops cells; what the others do to the registry is
  the relation \<open>plane\<close>.

  In production \<open>newCell\<close> never fails (\<open>defaultNewCell\<close> returns no error), so \<open>Ensure\<close> never does and
  the handler has no early return.
\<close>

section \<open>The handler as a sequence of operations\<close>

abbreviation mgr :: "process \<Rightarrow> EppDataWatcher" where
  "mgr p \<equiv> sy_m (ps_sys p)"

definition on_mgr :: "(EppDataWatcher \<Rightarrow> EppDataWatcher) \<Rightarrow> process \<Rightarrow> process" where
  "on_mgr f p = p\<lparr>ps_sys := (ps_sys p)\<lparr>sy_m := f (mgr p)\<rparr>\<rparr>"

lemma mgr_on_mgr [simp]: "mgr (on_mgr f p) = f (mgr p)"
  by (simp add: on_mgr_def)

definition gauge_op :: "(string, Role) gomap \<Rightarrow> EppDataWatcher \<Rightarrow> EppDataWatcher" where
  "gauge_op mine m = m\<lparr>w_assignmentNoMatch := (if mine = [] then 1 else 0)\<rparr>"

definition ensure_op :: "ManagerCfg \<Rightarrow> string \<times> Role \<Rightarrow> EppDataWatcher \<Rightarrow> EppDataWatcher" where
  "ensure_op pc kr m = snd (Manager_Ensure pc (fst kr) (snd kr) m)"

definition drop_op :: "(string, Role) gomap \<Rightarrow> nat \<Rightarrow> EppDataWatcher \<Rightarrow> EppDataWatcher" where
  "drop_op mine c m =
     (if map_of mine (c_Key (st_cells m c)) = None then Manager_Drop (c_Key (st_cells m c)) m else m)"

definition apply_op :: "ManagerCfg \<Rightarrow> (string, Role) gomap \<Rightarrow> int \<Rightarrow> string \<times> string \<Rightarrow> EppDataWatcher \<Rightarrow> EppDataWatcher" where
  "apply_op pc mine now kr m =
     (if map_of mine (fst kr) = None then m else snd (Manager_ApplyConfig pc (fst kr) (snd kr) now m))"

text \<open>The other goroutines: a step of the data plane, or one that does not touch cells and drains.\<close>

definition other_step :: "llmd \<Rightarrow> Config \<Rightarrow> process \<Rightarrow> process \<Rightarrow> bool" where
  "other_step L cfg p q \<longleftrightarrow> data_step L cfg p q \<or> ps_sys q = ps_sys p"

definition handling :: "llmd \<Rightarrow> Config \<Rightarrow> int \<Rightarrow> EppDataConfig \<Rightarrow> process \<Rightarrow> process \<Rightarrow> bool" where
  "handling L cfg now conf p q \<longleftrightarrow>
     (let pc = production_cfg L (manager_options cfg);
          mine = handle_mine (InstanceID cfg) (ed_Assignment conf) []
      in \<exists>p1 p2.
        interleaved (other_step L cfg) (map on_mgr (gauge_op mine # map (ensure_op pc) mine)) p p1 \<and>
        interleaved (other_step L cfg) (map on_mgr (map (drop_op mine) (Manager_List (mgr p1)))) p1 p2 \<and>
        interleaved (other_step L cfg) (map on_mgr (map (apply_op pc mine now) (ed_EppConfig conf))) p2 q)"

section \<open>Without interference it is the handler\<close>

lemma on_mgr_twice: "on_mgr f (on_mgr g p) = on_mgr (\<lambda>m. f (g m)) p"
  by (simp add: on_mgr_def)

lemma fold_on_mgr: "fold (\<lambda>f. f) (map on_mgr fs) p = on_mgr (fold (\<lambda>f. f) fs) p"
proof (induction fs arbitrary: p)
  case (Cons f fs)
  show ?case by (simp add: Cons.IH) (simp add: on_mgr_def)
qed (simp add: on_mgr_def)

lemma fold_ensure:
  "fst (ensure_all cfg mine m) = None \<Longrightarrow> fold (\<lambda>f. f) (map (ensure_op cfg) mine) m = snd (ensure_all cfg mine m)"
  by (induction mine arbitrary: m) (auto simp: ensure_op_def split: prod.splits sum.splits)

lemma fold_drop: "fold (\<lambda>f. f) (map (drop_op mine) cs) m = drop_unassigned mine cs m"
  by (induction cs arbitrary: m) (simp_all add: drop_op_def)

lemma fold_apply: "fold (\<lambda>f. f) (map (apply_op cfg mine now) configs) m = apply_all cfg mine now configs m"
proof (induction configs arbitrary: m)
  case (Cons x configs)
  obtain cluster raw where "x = (cluster, raw)" by fastforce
  with Cons.IH show ?case by (simp add: apply_op_def apply_all_step del: apply_all.simps)
qed simp

lemma handling_alone:
  assumes "sys_inv L (manager_options cfg) (ps_sys p)" "gomap_wf (ed_Assignment conf)"
  shows "handling L cfg now conf p
    (on_mgr (\<lambda>_. snd (EppDataWatcher_Handle (production_cfg L (manager_options cfg)) (InstanceID cfg) now conf (mgr p))) p)"
proof -
  let ?pc = "production_cfg L (manager_options cfg)"
  define mine where "mine = handle_mine (InstanceID cfg) (ed_Assignment conf) []"
  note facts = handle_mine_facts(2,3) [OF assms(2), of "InstanceID cfg", folded mine_def]
  have inv: "mgr_inv (sy_infl (ps_sys p)) (gauge_op mine (mgr p))" "roles_agree (gauge_op mine (mgr p))"
    using sys_inv_roles [OF assms(1)] assms(1) by (simp_all add: gauge_op_def sys_inv_def roles_agree_def)
  obtain m2 where m2: "ensure_all ?pc mine (gauge_op mine (mgr p)) = (None, m2)"
    using ensure_all_effect [OF inv facts, of L "manager_options cfg"] by metis
  let ?p1 = "on_mgr (\<lambda>_. m2) p"
  let ?p2 = "on_mgr (drop_unassigned mine (Manager_List m2)) ?p1"
  have "fold (\<lambda>f. f) (map on_mgr (gauge_op mine # map (ensure_op ?pc) mine)) p = ?p1"
    unfolding fold_on_mgr using fold_ensure [of ?pc mine "gauge_op mine (mgr p)"] m2 by (simp add: on_mgr_def)
  then have 1: "interleaved (other_step L cfg) (map on_mgr (gauge_op mine # map (ensure_op ?pc) mine)) p ?p1"
    using interleaved_alone by metis
  have "fold (\<lambda>f. f) (map on_mgr (map (drop_op mine) (Manager_List m2))) ?p1 = ?p2"
    unfolding fold_on_mgr by (simp add: on_mgr_def fold_drop)
  then have 2: "interleaved (other_step L cfg) (map on_mgr (map (drop_op mine) (Manager_List m2))) ?p1 ?p2"
    using interleaved_alone by metis
  have "fold (\<lambda>f. f) (map on_mgr (map (apply_op ?pc mine now) (ed_EppConfig conf))) ?p2 =
      on_mgr (\<lambda>_. snd (EppDataWatcher_Handle ?pc (InstanceID cfg) now conf (mgr p))) p"
    unfolding fold_on_mgr using m2
    by (simp add: on_mgr_def fold_apply EppDataWatcher_Handle_def mine_def [symmetric] gauge_op_def Let_def split: if_splits)
  then have 3: "interleaved (other_step L cfg) (map on_mgr (map (apply_op ?pc mine now) (ed_EppConfig conf))) ?p2
      (on_mgr (\<lambda>_. snd (EppDataWatcher_Handle ?pc (InstanceID cfg) now conf (mgr p))) p)"
    using interleaved_alone by metis
  show ?thesis
    unfolding handling_def Let_def mine_def [symmetric] using 1 2 3 by (metis mgr_on_mgr)
qed

section \<open>What the others do to the registry\<close>

text \<open>
  A cluster is \<open>torn\<close> when the teardown of its registered cell is queued or under way, and \<open>gone\<close> when it is
  torn or has no cell. A registered cell in the draining state is torn; a torn cell can be out of the draining
  state again, when a late \<open>markReady\<close> has overwritten it.
\<close>

abbreviation tearing_in :: "process \<Rightarrow> nat \<Rightarrow> bool" where
  "tearing_in p \<equiv> tearing (sy_infl (ps_sys p)) (mgr p)"

definition torn :: "string \<Rightarrow> process \<Rightarrow> bool" where
  "torn k p \<longleftrightarrow> (\<exists>c. Manager_Get k (mgr p) = Some c \<and> tearing_in p c)"

definition gone :: "string \<Rightarrow> process \<Rightarrow> bool" where
  "gone k p \<longleftrightarrow> (\<forall>c. Manager_Get k (mgr p) = Some c \<longrightarrow> tearing_in p c)"

definition settled :: "string \<Rightarrow> Role \<Rightarrow> process \<Rightarrow> bool" where
  "settled k r p \<longleftrightarrow> holds_role k r (mgr p) \<and> \<not> torn k p"

lemma infl_on_mgr [simp]: "sy_infl (ps_sys (on_mgr f p)) = sy_infl (ps_sys p)"
  by (simp add: on_mgr_def)

lemma gone_iff: "gone k p \<longleftrightarrow> Manager_Get k (mgr p) = None \<or> torn k p"
  by (cases "Manager_Get k (mgr p)") (auto simp: gone_def torn_def)

lemma gone_settled: "gone k p \<Longrightarrow> \<not> settled k r p"
  by (auto simp: gone_def settled_def torn_def holds_role_def)

lemma draining_torn: "sys_inv L opts (ps_sys p) \<Longrightarrow> draining k (mgr p) \<Longrightarrow> torn k p"
  using draining_tearing unfolding sys_inv_def draining_def torn_def by blast

definition plane :: "process \<Rightarrow> process \<Rightarrow> bool" where
  "plane p q \<longleftrightarrow>
     (\<forall>k c. Manager_Get k (mgr q) = Some c \<longrightarrow> Manager_Get k (mgr p) = Some c \<and> tearing_in q c = tearing_in p c) \<and>
     (\<forall>k c. Manager_Get k (mgr p) = Some c \<and> \<not> tearing_in p c \<longrightarrow> Manager_Get k (mgr q) = Some c) \<and>
     (\<forall>c. c_Key (st_cells (mgr q) c) = c_Key (st_cells (mgr p) c) \<and>
        c_role (st_cells (mgr q) c) = c_role (st_cells (mgr p) c) \<and>
        (c_state (st_cells (mgr q) c) = c_state (st_cells (mgr p) c) \<or> c_state (st_cells (mgr q) c) = StateStandby))"

lemma planeI:
  assumes "m_cells (mgr q) = m_cells (mgr p)" "tearing_in q = tearing_in p"
    and "\<And>c. c_Key (st_cells (mgr q) c) = c_Key (st_cells (mgr p) c) \<and>
        c_role (st_cells (mgr q) c) = c_role (st_cells (mgr p) c) \<and>
        (c_state (st_cells (mgr q) c) = c_state (st_cells (mgr p) c) \<or> c_state (st_cells (mgr q) c) = StateStandby)"
  shows "plane p q"
  using assms by (simp add: plane_def Manager_Get_def)

lemma planeD:
  assumes "plane p q"
  shows "Manager_Get k (mgr q) = Some c \<Longrightarrow> Manager_Get k (mgr p) = Some c"
    "Manager_Get k (mgr q) = Some c \<Longrightarrow> tearing_in q c = tearing_in p c"
    "Manager_Get k (mgr p) = Some c \<Longrightarrow> \<not> tearing_in p c \<Longrightarrow> Manager_Get k (mgr q) = Some c"
    "c_Key (st_cells (mgr q) c) = c_Key (st_cells (mgr p) c)" "c_role (st_cells (mgr q) c) = c_role (st_cells (mgr p) c)"
    "c_state (st_cells (mgr q) c) = c_state (st_cells (mgr p) c) \<or> c_state (st_cells (mgr q) c) = StateStandby"
  using assms unfolding plane_def by blast+

text \<open>The end of a teardown removes exactly the cell whose teardown it is.\<close>

lemma drain_end_plane:
  assumes "mgr_inv (sy_infl (ps_sys p)) (mgr p)" "t \<in> set (sy_infl (ps_sys p))"
    "mgr q = Manager_drain_end t (mgr p)" "sy_infl (ps_sys q) = remove1 t (sy_infl (ps_sys p))"
  shows "plane p q"
proof -
  let ?c = "t_cell t"
  have get: "Manager_Get k (mgr q) = Some c \<longleftrightarrow>
      Manager_Get k (mgr p) = Some c \<and> \<not> (t_teardown t \<and> c = ?c)" for k c
    using Get_key [OF assms(1), of k c] unfolding assms(3) by (auto simp: Manager_Get_def)
  have old: "tearing_in p c" if "tearing_in q c" for c
    using that assms(3,4) by (auto simp: tearing_def dest: notin_set_remove1)
  have keep: "tearing_in q c" if "tearing_in p c" "\<not> (t_teardown t \<and> c = ?c)" for c
  proof -
    obtain u where u: "u \<in> set (m_drainCh (mgr p)) \<union> set (sy_infl (ps_sys p))" "t_teardown u" "t_cell u = c"
      using \<open>tearing_in p c\<close> by (auto simp: tearing_def)
    then have "u \<noteq> t" using that(2) by auto
    with u assms(3,4) have "u \<in> set (m_drainCh (mgr q)) \<union> set (sy_infl (ps_sys q))" by auto
    with u show ?thesis by (auto simp: tearing_def)
  qed
  have rest: "c_Key (st_cells (mgr q) c) = c_Key (st_cells (mgr p) c)" "c_role (st_cells (mgr q) c) = c_role (st_cells (mgr p) c)"
    "c_state (st_cells (mgr q) c) = c_state (st_cells (mgr p) c)" for c using assms(3) by simp_all
  have "tearing_in p ?c" if "t_teardown t" using assms(2) that by (auto simp: tearing_def)
  then show ?thesis unfolding plane_def get rest using old keep by blast
qed

lemma data_step_plane:
  assumes "data_step L cfg p q" "sys_inv L (manager_options cfg) (ps_sys p)"
  shows "plane p q"
  using assms(1)
proof cases
  case (await e now)
  then show ?thesis
    by (intro planeI) (auto simp: Engine_await_ready_def tearing_def)
next
  case (discover Equal e i)
  show ?thesis
  proof (rule planeI)
    show "m_cells (mgr q) = m_cells (mgr p)" using discover by (simp add: discovery_round_fields)
    show "tearing_in q = tearing_in p" using discover by (simp add: discovery_round_fields tearing_def fun_eq_iff)
    fix c
    obtain ds where "st_cells (mgr q) c = (st_cells (mgr p) c)\<lparr>c_ds := ds\<rparr>"
      using discover discovery_round_fields(5) by (metis Sys.select_convs(1) Sys.surjective Sys.update_convs(1) process.select_convs(1) process.surjective process.update_convs(1))
    then show "c_Key (st_cells (mgr q) c) = c_Key (st_cells (mgr p) c) \<and> c_role (st_cells (mgr q) c) = c_role (st_cells (mgr p) c) \<and>
        (c_state (st_cells (mgr q) c) = c_state (st_cells (mgr p) c) \<or> c_state (st_cells (mgr q) c) = StateStandby)" by simp
  qed
next
  case (take t ts)
  then show ?thesis by (intro planeI) (auto simp: tearing_def)
next
  case (finish t)
  then show ?thesis using drain_end_plane [of p t q] assms(2) by (simp add: sys_inv_def)
next
  case (request i pc m)
  then show ?thesis using req_step_facts [OF request(3)] by (intro planeI) (simp_all add: tearing_def fun_eq_iff)
qed (auto intro!: planeI simp: tearing_def fun_eq_iff)

section \<open>Stable facts\<close>

lemma plane_stable:
  assumes "plane p q"
  shows "settled k r p \<Longrightarrow> settled k r q" and "gone k p \<Longrightarrow> gone k q" and "\<not> torn k p \<Longrightarrow> \<not> torn k q"
proof -
  note P = planeD [OF assms]
  show torn: "\<not> torn k q" if "\<not> torn k p" using that P(1,2) unfolding torn_def by metis
  show "settled k r q" if s: "settled k r p"
  proof -
    obtain c where c: "Manager_Get k (mgr p) = Some c" "c_role (st_cells (mgr p) c) = r"
      "c_state (st_cells (mgr p) c) \<noteq> StateDraining" "role_state_ok (st_cells (mgr p) c)"
      using s by (auto simp: settled_def holds_role_def)
    then have "Manager_Get k (mgr q) = Some c" using s P(3) unfolding settled_def torn_def by blast
    then have "holds_role k r (mgr q)" unfolding holds_role_def using role_kept [OF P(5,6) c(3,4)] P(5) c(2) by auto
    then show ?thesis using s torn by (simp add: settled_def)
  qed
  show "gone k p \<Longrightarrow> gone k q" unfolding gone_def using P(1,2) by blast
qed

lemma cell_kept:
  assumes "Manager_Get k (f (mgr p)) = Manager_Get k (mgr p)"
    "\<And>d. Manager_Get k (mgr p) = Some d \<Longrightarrow> st_cells (f (mgr p)) d = st_cells (mgr p) d"
    "\<And>d. Manager_Get k (mgr p) = Some d \<Longrightarrow> tearing (sy_infl (ps_sys p)) (f (mgr p)) d = tearing_in p d"
  shows "settled k r (on_mgr f p) = settled k r p" "gone k (on_mgr f p) = gone k p" "torn k (on_mgr f p) = torn k p"
proof -
  have h: "holds_role k r (f (mgr p)) = holds_role k r (mgr p)" using assms(1,2) by (auto simp: holds_role_def)
  show t: "torn k (on_mgr f p) = torn k p" using assms(1,3) by (auto simp: torn_def)
  show "settled k r (on_mgr f p) = settled k r p" using h t by (simp add: settled_def)
  show "gone k (on_mgr f p) = gone k p" using assms(1,3) by (auto simp: gone_def)
qed

lemma gauge_plane: "plane p (on_mgr (gauge_op mine) p)"
  by (intro planeI) (simp_all add: gauge_op_def tearing_def fun_eq_iff)

lemma apply_plane: "plane p (on_mgr (apply_op (production_cfg L opts) mine now kr) p)"
  using ApplyConfig_frame [OF refl, where L = L and opts = opts and key = "fst kr" and raw = "snd kr" and now = now and m = "mgr p"]
  by (intro planeI) (auto simp: apply_op_def ApplyConfig_tearing)

section \<open>The environment and the operations keep the invariant\<close>

definition mgr_act :: "llmd \<Rightarrow> Config \<Rightarrow> (process \<Rightarrow> process) \<Rightarrow> bool" where
  "mgr_act L cfg g \<longleftrightarrow> (\<exists>f. g = on_mgr f \<and>
     (\<forall>s. (sys_step L (manager_options cfg))\<^sup>*\<^sup>* s (s\<lparr>sy_m := f (sy_m s)\<rparr>)))"

interpretation others: interference "other_step L cfg" "\<lambda>p. sys_inv L (manager_options cfg) (ps_sys p)" "mgr_act L cfg" for L cfg
proof
  fix p q :: process assume inv: "sys_inv L (manager_options cfg) (ps_sys p)"
  show "sys_inv L (manager_options cfg) (ps_sys q)" if "other_step L cfg p q"
    using that inv data_step_sys(1) sys_inv_step unfolding other_step_def by metis
  show "sys_inv L (manager_options cfg) (ps_sys (g p))" if "mgr_act L cfg g" for g
    using that run_grows inv unfolding mgr_act_def on_mgr_def by fastforce
qed

lemma handler_acts:
  "mgr_act L cfg (on_mgr (gauge_op mine))" "mgr_act L cfg (on_mgr (ensure_op (production_cfg L (manager_options cfg)) kr))"
  "mgr_act L cfg (on_mgr (drop_op mine c))" "mgr_act L cfg (on_mgr (apply_op (production_cfg L (manager_options cfg)) mine now kr'))"
proof -
  let ?S = "sys_step L (manager_options cfg)"
  have act: "mgr_act L cfg (on_mgr f)" if "\<And>s. ?S\<^sup>*\<^sup>* s (s\<lparr>sy_m := f (sy_m s)\<rparr>)" for f
    unfolding mgr_act_def using that by blast
  show "mgr_act L cfg (on_mgr (gauge_op mine))"
    by (rule act, rule r_into_rtranclp, rule sys_step.own) (simp add: gauge_op_def Manager.truncate_def)
  show "mgr_act L cfg (on_mgr (ensure_op (production_cfg L (manager_options cfg)) kr))"
    by (rule act, rule r_into_rtranclp) (simp add: ensure_op_def sys_step.ensure)
  show "mgr_act L cfg (on_mgr (drop_op mine c))"
    by (rule act) (auto simp: drop_op_def intro: sys_step.dropped)
  show "mgr_act L cfg (on_mgr (apply_op (production_cfg L (manager_options cfg)) mine now kr'))"
    by (rule act) (auto simp: apply_op_def intro: sys_step.apply_config)
qed

lemma other_plane:
  assumes "sys_inv L (manager_options cfg) (ps_sys p)" "other_step L cfg p q"
  shows "plane p q"
proof (cases "data_step L cfg p q")
  case True
  then show ?thesis using data_step_plane assms(1) by blast
next
  case False
  then have "ps_sys q = ps_sys p" using assms(2) by (simp add: other_step_def)
  then show ?thesis by (simp add: planeI)
qed

section \<open>What the handler leaves behind\<close>

text \<open>The lookup of one cluster is not affected by the operations for another one.\<close>

lemma ensure_other:
  assumes "sys_inv L (manager_options cfg) (ps_sys p)" "snd kr \<noteq> RoleNone" "k \<noteq> fst kr"
  shows "settled k r (on_mgr (ensure_op (production_cfg L (manager_options cfg)) kr) p) = settled k r p"
    and "gone k (on_mgr (ensure_op (production_cfg L (manager_options cfg)) kr) p) = gone k p"
    and "torn k (on_mgr (ensure_op (production_cfg L (manager_options cfg)) kr) p) = torn k p"
proof -
  let ?f = "ensure_op (production_cfg L (manager_options cfg)) kr"
  have inv: "mgr_inv (sy_infl (ps_sys p)) (mgr p)" using assms(1) by (simp add: sys_inv_def)
  have kept: "Manager_Get k (?f (mgr p)) = Manager_Get k (mgr p)"
    "\<And>d. Manager_Get k (mgr p) = Some d \<Longrightarrow> st_cells (?f (mgr p)) d = st_cells (mgr p) d"
    using Ensure_step [OF inv sys_inv_roles [OF assms(1)] assms(2), of L "manager_options cfg" "fst kr"] assms(3)
    unfolding ensure_op_def by (metis snd_conv)+
  have "tearing (sy_infl (ps_sys p)) (?f (mgr p)) d = tearing_in p d" for d
    by (simp add: ensure_op_def Ensure_tearing)
  note k = cell_kept [where f = ?f and k = k and p = p, OF kept this]
  show "settled k r (on_mgr ?f p) = settled k r p" "gone k (on_mgr ?f p) = gone k p" "torn k (on_mgr ?f p) = torn k p"
    by (rule k, assumption)+
qed

lemma ensure_own:
  assumes "sys_inv L (manager_options cfg) (ps_sys p)" "r \<noteq> RoleNone"
  shows "settled k r (on_mgr (ensure_op (production_cfg L (manager_options cfg)) (k, r)) p) \<or>
    torn k p \<and> gone k (on_mgr (ensure_op (production_cfg L (manager_options cfg)) (k, r)) p)"
proof -
  let ?f = "ensure_op (production_cfg L (manager_options cfg)) (k, r)"
  have inv: "mgr_inv (sy_infl (ps_sys p)) (mgr p)" using assms(1) by (simp add: sys_inv_def)
  have tear: "tearing_in (on_mgr ?f p) = tearing_in p" by (simp add: ensure_op_def Ensure_tearing)
  have reg: "Manager_Get k (mgr p) = Some c \<or> Manager_Get k (mgr p) = None \<and> c = m_nextCell (mgr p)"
    if "Manager_Get k (?f (mgr p)) = Some c" for c
    using Ensure_registered that by (simp add: ensure_op_def)
  show ?thesis
  proof (cases "torn k p")
    case True
    then have "gone k (on_mgr ?f p)" using reg unfolding gone_def torn_def tear by auto
    with True show ?thesis by blast
  next
    case False
    then have "\<not> draining k (mgr p)" using draining_torn [OF assms(1)] by blast
    then have "holds_role k r (?f (mgr p))"
      using Ensure_step [OF inv sys_inv_roles [OF assms(1)] assms(2), of L "manager_options cfg" k]
      unfolding ensure_op_def by (metis fst_conv snd_conv)
    moreover have "\<not> torn k (on_mgr ?f p)"
      using False reg tearing_known [OF inv] unfolding torn_def tear by auto
    ultimately show ?thesis by (simp add: settled_def)
  qed
qed

lemma drop_effect:
  assumes "sys_inv L opts (ps_sys p)"
  shows "map_of mine k \<noteq> None \<Longrightarrow> settled k r p \<Longrightarrow> settled k r (on_mgr (drop_op mine c) p)"
    and "gone k p \<Longrightarrow> gone k (on_mgr (drop_op mine c) p)"
    and "map_of mine k = None \<Longrightarrow> c_Key (st_cells (mgr p) c) = k \<Longrightarrow> gone k (on_mgr (drop_op mine c) p)"
    and "c_Key (st_cells (drop_op mine c (mgr p)) d) = c_Key (st_cells (mgr p) d)"
proof -
  let ?key = "c_Key (st_cells (mgr p) c)"
  have inv: "mgr_inv (sy_infl (ps_sys p)) (mgr p)" using assms by (simp add: sys_inv_def)
  note drop = Drop_step [OF inv, where key = ?key]
  have kept: "settled k r (on_mgr (drop_op mine c) p) = settled k r p" "gone k (on_mgr (drop_op mine c) p) = gone k p"
    if "k \<noteq> ?key \<or> map_of mine ?key \<noteq> None"
  proof (atomize (full), cases "map_of mine ?key")
    case None
    with that have k: "k \<noteq> ?key" by simp
    have "tearing (sy_infl (ps_sys p)) (Manager_Drop ?key (mgr p)) d = tearing_in p d" if "Manager_Get k (mgr p) = Some d" for d
    proof (cases "Manager_Get ?key (mgr p)")
      case (Some c')
      with that k have "d \<noteq> c'" using registered_distinct [OF inv] by metis
      then show ?thesis using Drop_tearing(1,2) [OF Some, of "sy_infl (ps_sys p)" d] by blast
    qed (simp add: Manager_Drop_def)
    with None show "settled k r (on_mgr (drop_op mine c) p) = settled k r p \<and> gone k (on_mgr (drop_op mine c) p) = gone k p"
      using cell_kept [of k "drop_op mine c" p] drop(3,4) [OF k] by (simp add: drop_op_def)
  qed (simp add: drop_op_def settled_def gone_def torn_def)
  show "map_of mine k \<noteq> None \<Longrightarrow> settled k r p \<Longrightarrow> settled k r (on_mgr (drop_op mine c) p)"
    using kept(1) by blast
  show own: "gone k (on_mgr (drop_op mine c) p)" if "map_of mine k = None" "c_Key (st_cells (mgr p) c) = k"
  proof -
    have "tearing (sy_infl (ps_sys p)) (Manager_Drop k (mgr p)) d" if d: "Manager_Get k (Manager_Drop k (mgr p)) = Some d" for d
    proof -
      have "Manager_Get k (mgr p) = Some d" using Drop_step(1) [OF inv d] .
      then show ?thesis using Drop_tearing(3) Get_key [OF inv] d by blast
    qed
    with that show ?thesis by (simp add: gone_def drop_op_def)
  qed
  show "gone k p \<Longrightarrow> gone k (on_mgr (drop_op mine c) p)"
    using kept(2) own by blast
  show "c_Key (st_cells (drop_op mine c (mgr p)) d) = c_Key (st_cells (mgr p) d)"
    using drop(6) [of d] by (simp add: drop_op_def)
qed

text \<open>An assigned cluster through the three phases. \<open>settled_or_gone\<close> is what the handler owes it.\<close>

definition settled_or_gone :: "bool \<Rightarrow> string \<Rightarrow> Role \<Rightarrow> process \<Rightarrow> bool" where
  "settled_or_gone late k r p \<longleftrightarrow> settled k r p \<or> late \<and> gone k p"

lemma plane_settled: "plane p q \<Longrightarrow> settled_or_gone late k r p \<Longrightarrow> settled_or_gone late k r q"
  using plane_stable(1,2) unfolding settled_or_gone_def by metis

lemma ensure_phase:
  assumes "interleaved (other_step L cfg)
      (map on_mgr (gauge_op mine # map (ensure_op (production_cfg L (manager_options cfg))) mine)) p q"
    and inv: "sys_inv L (manager_options cfg) (ps_sys p)" and wf: "gomap_wf mine" "\<forall>(k, r) \<in> set mine. r \<noteq> RoleNone"
    and k: "map_of mine k = Some r"
  shows "settled_or_gone (torn k p) k r q"
proof -
  let ?pc = "production_cfg L (manager_options cfg)"
  obtain xs ys where mine: "mine = xs @ (k, r) # ys" using map_of_SomeD [OF k] by (meson split_list)
  have other: "fst kr \<noteq> k" "snd kr \<noteq> RoleNone" if "kr \<in> set xs \<union> set ys" for kr
    using that wf by (auto simp: mine image_iff split_beta)
  have acts: "list_all (mgr_act L cfg) (map on_mgr (gauge_op mine # map (ensure_op ?pc) mine))"
    by (simp add: list_all_iff handler_acts)
  let ?as = "map on_mgr (gauge_op mine # map (ensure_op ?pc) xs)" and ?bs = "map on_mgr (map (ensure_op ?pc) ys)"
  have ops: "map on_mgr (gauge_op mine # map (ensure_op ?pc) mine) = ?as @ on_mgr (ensure_op ?pc (k, r)) # ?bs"
    by (simp add: mine)
  have "sys_inv L (manager_options cfg) (ps_sys q) \<and> settled_or_gone (torn k p) k r q"
  proof (rule others.sequence_establishes [where P = "\<lambda>u. torn k u \<longrightarrow> torn k p"])
    show "interleaved (other_step L cfg) (?as @ on_mgr (ensure_op ?pc (k, r)) # ?bs) p q" using assms(1) unfolding ops .
    show "list_all (mgr_act L cfg) (?as @ on_mgr (ensure_op ?pc (k, r)) # ?bs)" using acts unfolding ops .
    show "torn k v \<longrightarrow> torn k p"
      if "sys_inv L (manager_options cfg) (ps_sys u)" "other_step L cfg u v" "torn k u \<longrightarrow> torn k p" for u v
      using plane_stable(3) [OF other_plane [OF that(1,2)]] that(3) by blast
    show "torn k (g u) \<longrightarrow> torn k p"
      if g: "g \<in> set ?as" and u: "sys_inv L (manager_options cfg) (ps_sys u)" "torn k u \<longrightarrow> torn k p" for g u
    proof -
      consider "g = on_mgr (gauge_op mine)" | kr where "kr \<in> set xs" "g = on_mgr (ensure_op ?pc kr)" using g by auto
      then show ?thesis
      proof cases
        case (2 kr)
        then have "k \<noteq> fst kr" "snd kr \<noteq> RoleNone" using other [of kr] by auto
        with 2(2) u ensure_other(3) [OF u(1)] show ?thesis by simp
      qed (use u(2) plane_stable(3) [OF gauge_plane] in blast)
    qed
    show "settled_or_gone (torn k p) k r (on_mgr (ensure_op ?pc (k, r)) u)"
      if "sys_inv L (manager_options cfg) (ps_sys u)" "torn k u \<longrightarrow> torn k p" for u
      using ensure_own [OF that(1), of r k] that(2) wf(2) by (auto simp: mine settled_or_gone_def)
    show "settled_or_gone (torn k p) k r v"
      if "sys_inv L (manager_options cfg) (ps_sys u)" "other_step L cfg u v" "settled_or_gone (torn k p) k r u" for u v
      using plane_settled other_plane that by blast
    show "settled_or_gone (torn k p) k r (g u)"
      if g: "g \<in> set ?bs" and u: "sys_inv L (manager_options cfg) (ps_sys u)" "settled_or_gone (torn k p) k r u" for g u
    proof -
      obtain kr where kr: "kr \<in> set ys" "g = on_mgr (ensure_op ?pc kr)" using g by auto
      then have "k \<noteq> fst kr" "snd kr \<noteq> RoleNone" using other [of kr] by auto
      with kr(2) u(2) ensure_other(1,2) [OF u(1)] show ?thesis by (simp add: settled_or_gone_def)
    qed
  qed (use inv in simp_all)
  then show ?thesis by blast
qed

lemma drop_phase:
  assumes run: "interleaved (other_step L cfg) (map on_mgr (map (drop_op mine) (Manager_List (mgr p)))) p q"
    and inv: "sys_inv L (manager_options cfg) (ps_sys p)"
  shows "sys_inv L (manager_options cfg) (ps_sys q)"
    and "map_of mine k \<noteq> None \<Longrightarrow> settled_or_gone late k r p \<Longrightarrow> settled_or_gone late k r q"
    and "map_of mine k = None \<Longrightarrow> gone k q"
proof -
  let ?ops = "map on_mgr (map (drop_op mine) (Manager_List (mgr p)))"
  have acts: "list_all (mgr_act L cfg) ?ops" by (simp add: list_all_iff handler_acts)
  show "sys_inv L (manager_options cfg) (ps_sys q)" by (rule others.sequence_inv [OF run acts inv])
  show "settled_or_gone late k r q" if k: "map_of mine k \<noteq> None" "settled_or_gone late k r p"
  proof (rule conjunct2 [OF others.sequence_stable [OF run acts inv, where P = "\<lambda>u. settled_or_gone late k r u"]])
    show "settled_or_gone late k r v"
      if "sys_inv L (manager_options cfg) (ps_sys u)" "other_step L cfg u v" "settled_or_gone late k r u" for u v
      using plane_settled other_plane that by blast
    show "settled_or_gone late k r (g u)"
      if "g \<in> set ?ops" "sys_inv L (manager_options cfg) (ps_sys u)" "settled_or_gone late k r u" for g u
      using that drop_effect(1,2) [OF that(2)] k(1) by (auto simp: settled_or_gone_def)
  qed (rule k(2))
  have gone_env: "gone k v"
    if "sys_inv L (manager_options cfg) (ps_sys u)" "other_step L cfg u v" "gone k u" for u v
    using plane_stable(2) other_plane that by blast
  have gone_drop: "gone k (g u)"
    if "g \<in> on_mgr ` drop_op mine ` A" "sys_inv L (manager_options cfg) (ps_sys u)" "gone k u" for g u A
    using that drop_effect(2) [OF that(2)] by auto
  show "gone k q" if k: "map_of mine k = None"
  proof (cases "Manager_Get k (mgr p)")
    case None
    then have "gone k p" by (simp add: gone_def)
    have "sys_inv L (manager_options cfg) (ps_sys q) \<and> gone k q"
    proof (rule others.sequence_stable [OF run acts inv, where P = "\<lambda>u. gone k u"])
      show "gone k (g u)" if "g \<in> set ?ops" "sys_inv L (manager_options cfg) (ps_sys u)" "gone k u" for g u
        using gone_drop [of g "set (Manager_List (mgr p))" u] that by (simp add: image_image)
    qed (fact \<open>gone k p\<close>, fact gone_env)
    then show ?thesis by blast
  next
    case (Some c)
    have key: "c_Key (st_cells (mgr p) c) = k" using Get_key [OF _ Some] inv by (auto simp: sys_inv_def)
    have "c \<in> set (Manager_List (mgr p))"
      using Some by (force simp: Manager_Get_def Manager_List_def smap_Load_def smap_Range_def dest: map_of_SomeD)
    then obtain xs ys where cs: "Manager_List (mgr p) = xs @ c # ys" by (meson split_list)
    let ?as = "map on_mgr (map (drop_op mine) xs)" and ?bs = "map on_mgr (map (drop_op mine) ys)"
    have "sys_inv L (manager_options cfg) (ps_sys q) \<and> gone k q"
    proof (rule others.sequence_establishes [where P = "\<lambda>u. c_Key (st_cells (mgr u) c) = k"])
      show "interleaved (other_step L cfg) (?as @ on_mgr (drop_op mine c) # ?bs) p q" using run cs by simp
      show "list_all (mgr_act L cfg) (?as @ on_mgr (drop_op mine c) # ?bs)" using acts cs by simp
      show "c_Key (st_cells (mgr v) c) = k"
        if "sys_inv L (manager_options cfg) (ps_sys u)" "other_step L cfg u v" "c_Key (st_cells (mgr u) c) = k" for u v
        using other_plane [OF that(1,2)] that(3) by (simp add: planeD)
      show "c_Key (st_cells (mgr (g u)) c) = k"
        if "g \<in> set ?as" "sys_inv L (manager_options cfg) (ps_sys u)" "c_Key (st_cells (mgr u) c) = k" for g u
        using that drop_effect(4) [OF that(2)] by auto
      show "gone k (on_mgr (drop_op mine c) u)"
        if "sys_inv L (manager_options cfg) (ps_sys u)" "c_Key (st_cells (mgr u) c) = k" for u
        using drop_effect(3) [OF that(1) k that(2)] by simp
      show "gone k (g u)" if "g \<in> set ?bs" "sys_inv L (manager_options cfg) (ps_sys u)" "gone k u" for g u
        using gone_drop [of g "set ys" u] that by (simp add: image_image)
    qed (use inv key gone_env in simp_all)
    then show ?thesis by blast
  qed
qed

lemma apply_phase:
  assumes run: "interleaved (other_step L cfg)
      (map on_mgr (map (apply_op (production_cfg L (manager_options cfg)) mine now) configs)) p q"
    and inv: "sys_inv L (manager_options cfg) (ps_sys p)"
    and stable: "\<And>u v. plane u v \<Longrightarrow> Q u \<Longrightarrow> Q v" and "Q p"
  shows "sys_inv L (manager_options cfg) (ps_sys q) \<and> Q q"
proof (rule others.sequence_stable [OF run _ inv, where P = Q])
  show "list_all (mgr_act L cfg) (map on_mgr (map (apply_op (production_cfg L (manager_options cfg)) mine now) configs))"
    by (simp add: list_all_iff handler_acts)
  show "Q v" if "sys_inv L (manager_options cfg) (ps_sys u)" "other_step L cfg u v" "Q u" for u v
    using stable other_plane that by blast
  show "Q (g u)"
    if "g \<in> set (map on_mgr (map (apply_op (production_cfg L (manager_options cfg)) mine now) configs))" "Q u" for g u
    using that stable [OF apply_plane] by auto
qed (rule assms(4))

text \<open>What the handler has established when it is done, whatever ran between its operations.\<close>

lemma handled_assignment:
  assumes "sys_inv L (manager_options cfg) (ps_sys p)" and "gomap_wf (ed_Assignment conf)"
    and "handling L cfg now conf p q"
  shows "sys_inv L (manager_options cfg) (ps_sys q)"
    and "my_role (InstanceID cfg) (ed_Assignment conf) k = Some r \<Longrightarrow> settled_or_gone (torn k p) k r q"
    and "my_role (InstanceID cfg) (ed_Assignment conf) k = None \<Longrightarrow> gone k q"
proof -
  define mine where "mine = handle_mine (InstanceID cfg) (ed_Assignment conf) []"
  note facts = handle_mine_facts [OF assms(2), of "InstanceID cfg", folded mine_def]
  let ?pc = "production_cfg L (manager_options cfg)"
  obtain p1 p2 where h:
    "interleaved (other_step L cfg) (map on_mgr (gauge_op mine # map (ensure_op ?pc) mine)) p p1"
    "interleaved (other_step L cfg) (map on_mgr (map (drop_op mine) (Manager_List (mgr p1)))) p1 p2"
    "interleaved (other_step L cfg) (map on_mgr (map (apply_op ?pc mine now) (ed_EppConfig conf))) p2 q"
    using assms(3) unfolding handling_def Let_def mine_def [symmetric] by blast
  note inv = assms(1)
  have inv1: "sys_inv L (manager_options cfg) (ps_sys p1)"
    by (rule others.sequence_inv [OF h(1) _ inv]) (simp add: list_all_iff handler_acts)
  have inv2: "sys_inv L (manager_options cfg) (ps_sys p2)" by (rule drop_phase(1) [OF h(2) inv1])
  show "sys_inv L (manager_options cfg) (ps_sys q)"
    using apply_phase [OF h(3) inv2, where Q = "\<lambda>_. True"] by blast
  show "settled_or_gone (torn k p) k r q" if "my_role (InstanceID cfg) (ed_Assignment conf) k = Some r"
  proof -
    have k: "map_of mine k = Some r" using that facts(1) by simp
    have "settled_or_gone (torn k p) k r p1" by (rule ensure_phase [OF h(1) inv facts(2,3) k])
    then have "settled_or_gone (torn k p) k r p2" using drop_phase(2) [OF h(2) inv1] k by simp
    then show ?thesis
      using apply_phase [OF h(3) inv2, where Q = "settled_or_gone (torn k p) k r"] plane_settled by blast
  qed
  show "gone k q" if "my_role (InstanceID cfg) (ed_Assignment conf) k = None"
    using apply_phase [OF h(3) inv2, where Q = "gone k"] plane_stable(2) drop_phase(3) [OF h(2) inv1] that facts(1) by metis
qed

text \<open>Afterwards a settled cell has exactly the role the assignment gives this instance.\<close>

lemma handled_role:
  assumes "sys_inv L (manager_options cfg) (ps_sys p)" and "gomap_wf (ed_Assignment conf)"
    and "handling L cfg now conf p q" and "settled k r q"
  shows "my_role (InstanceID cfg) (ed_Assignment conf) k = Some r"
proof (cases "my_role (InstanceID cfg) (ed_Assignment conf) k")
  case None
  with handled_assignment(3) [OF assms(1-3)] assms(4) show ?thesis by (simp add: gone_settled)
next
  case (Some r')
  with handled_assignment(2) [OF assms(1-3) Some] assms(4) show ?thesis
    by (auto simp: settled_or_gone_def gone_settled) (auto simp: settled_def holds_role_def)
qed

text \<open>
  C6. The assignment is enforced in every interleaving. From any state the process can reach, let
  the handler go through a snapshot while drain workers, engine goroutines, plugins, requests and
  the other goroutines of the process run between any two of its operations. When it is done, each
  cluster assigned to this instance has a cell in exactly the assigned role that no teardown is ahead of,
  unless its teardown was queued or under way when the handler began: then it still is, or the cell
  is gone. Every cell of another cluster is being torn down or gone, and the invariant of the system holds.
\<close>

theorem assignment_enforced_concurrently:
  assumes "(proc_step L cfg)\<^sup>*\<^sup>* (new_process L cfg) p" and "gomap_wf (ed_Assignment conf)"
    and "handling L cfg now conf p q"
  shows "sys_inv L (manager_options cfg) (ps_sys q) \<and>
    (\<forall>k r. my_role (InstanceID cfg) (ed_Assignment conf) k = Some r \<longrightarrow>
       settled k r q \<or> torn k p \<and> (Manager_Get k (mgr q) = None \<or> torn k q)) \<and>
    (\<forall>k. my_role (InstanceID cfg) (ed_Assignment conf) k = None \<longrightarrow> Manager_Get k (mgr q) = None \<or> torn k q)"
  using handled_assignment [OF reachable_manager(2) [OF assms(1)] assms(2,3)]
  by (simp add: settled_or_gone_def gone_iff)

lemma demo_new_process:
  "\<not> torn k (new_process demo_llmd demo_cfg)" "\<not> ps_cancelled (new_process demo_llmd demo_cfg)"
  "LocalConfigDir demo_cfg = []" "0 < sint (PollTimeout demo_cfg)" "InstanceID demo_cfg = ''epp-0''"
  "\<not> draining k (mgr (new_process demo_llmd demo_cfg))"
  by (simp_all add: torn_def draining_def Manager_Get_def new_process_def Let_def NewEppDataWatcher_def NewManager_def
      Manager.extend_def smap_Load_def demo_cfg_def parseConfig_def flag_or_def getenv_def Second_def)

theorem assignment_enforced_concurrently_witness:
  "\<exists>q. handling demo_llmd demo_cfg 5 demo_conf (new_process demo_llmd demo_cfg) q \<and>
     settled ''c1'' RoleStandby q \<and> settled ''c2'' RolePrimary q"
proof -
  let ?p = "new_process demo_llmd demo_cfg"
  have start: "(proc_step demo_llmd demo_cfg)\<^sup>*\<^sup>* ?p ?p" by simp
  obtain q where q: "handling demo_llmd demo_cfg 5 demo_conf ?p q"
    using handling_alone [OF reachable_manager(2) [OF start] demo_conf_wf(1)] by blast
  have "my_role (InstanceID demo_cfg) (ed_Assignment demo_conf) ''c1'' = Some RoleStandby"
    "my_role (InstanceID demo_cfg) (ed_Assignment demo_conf) ''c2'' = Some RolePrimary"
    by (simp_all add: demo_new_process demo_conf_def my_role_def resolveRole_def)
  then show ?thesis
    using assignment_enforced_concurrently [OF start demo_conf_wf(1) q] q demo_new_process(1) by blast
qed

text \<open>
  C7. Never two primaries, across instances. Two instances with different names may have any
  past, any flags and any engine library; once each has gone through the same snapshot, in any
  interleaving with the rest of its process, no cluster has a cell in the same role on both, cells with
  their teardown ahead apart, and where both hold a cluster one is the primary and the other the standby.
\<close>

theorem one_primary_per_cluster:
  assumes "(proc_step L cfg)\<^sup>*\<^sup>* (new_process L cfg) p" and "(proc_step L' cfg')\<^sup>*\<^sup>* (new_process L' cfg') p'"
    and "gomap_wf (ed_Assignment conf)" and "handling L cfg now conf p q" and "handling L' cfg' now' conf p' q'"
    and "InstanceID cfg \<noteq> InstanceID cfg'"
  shows "\<not> (settled k r q \<and> settled k r q') \<and>
    (settled k r q \<and> settled k r' q' \<longrightarrow> {r, r'} = {RolePrimary, RoleStandby})"
proof -
  have "my_role (InstanceID cfg) (ed_Assignment conf) k = Some x" if "settled k x q" for x
    by (rule handled_role [OF reachable_manager(2) [OF assms(1)] assms(3,4) that])
  moreover have "my_role (InstanceID cfg') (ed_Assignment conf) k = Some x" if "settled k x q'" for x
    by (rule handled_role [OF reachable_manager(2) [OF assms(2)] assms(3,5) that])
  moreover have "x \<noteq> y \<and> {x, y} = {RolePrimary, RoleStandby}"
    if "my_role (InstanceID cfg) (ed_Assignment conf) k = Some x" "my_role (InstanceID cfg') (ed_Assignment conf) k = Some y" for x y
    using that assms(6) by (auto simp: my_role_def resolveRole_def split: option.splits if_splits)
  ultimately show ?thesis by blast
qed

theorem one_primary_per_cluster_witness:
  "\<exists>q q'. handling demo_llmd demo_cfg 5 demo_conf (new_process demo_llmd demo_cfg) q \<and>
     handling demo_llmd (demo_cfg\<lparr>InstanceID := ''epp-1''\<rparr>) 6 demo_conf (new_process demo_llmd (demo_cfg\<lparr>InstanceID := ''epp-1''\<rparr>)) q' \<and>
     settled ''c1'' RoleStandby q \<and> \<not> settled ''c1'' RoleStandby q'"
proof -
  let ?cfg = "demo_cfg\<lparr>InstanceID := ''epp-1''\<rparr>"
  let ?p = "new_process demo_llmd demo_cfg" and ?p' = "new_process demo_llmd ?cfg"
  have start: "(proc_step demo_llmd demo_cfg)\<^sup>*\<^sup>* ?p ?p" "(proc_step demo_llmd ?cfg)\<^sup>*\<^sup>* ?p' ?p'" by simp_all
  obtain q q' where q: "handling demo_llmd demo_cfg 5 demo_conf ?p q" "handling demo_llmd ?cfg 6 demo_conf ?p' q'"
    using handling_alone [OF reachable_manager(2) [OF start(1)] demo_conf_wf(1)]
      handling_alone [OF reachable_manager(2) [OF start(2)] demo_conf_wf(1)] by blast
  have "my_role (InstanceID demo_cfg) (ed_Assignment demo_conf) ''c1'' = Some RoleStandby"
    by (simp add: demo_new_process demo_conf_def my_role_def resolveRole_def)
  then have "settled ''c1'' RoleStandby q"
    using handled_assignment(2) [OF reachable_manager(2) [OF start(1)] demo_conf_wf(1) q(1)] demo_new_process(1)
    by (auto simp: settled_or_gone_def)
  with q show ?thesis
    using one_primary_per_cluster [OF start demo_conf_wf(1) q, of "''c1''" RoleStandby RoleStandby] demo_new_process(5) by auto
qed

section \<open>The configuration of a cluster\<close>

text \<open>A settled cell whose current configuration is the given one.\<close>

definition runs_config :: "string \<Rightarrow> Role \<Rightarrow> string \<Rightarrow> process \<Rightarrow> bool" where
  "runs_config k r raw p \<longleftrightarrow> settled k r p \<and>
     (\<exists>c. Manager_Get k (mgr p) = Some c \<and> c_currentHash (st_cells (mgr p) c) = Some (HashConfig raw))"

lemma other_hash:
  assumes "other_step L cfg p q"
  shows "c_currentHash (st_cells (mgr q) c) = c_currentHash (st_cells (mgr p) c)"
proof (cases "data_step L cfg p q")
  case True
  then show ?thesis
  proof cases
    case (discover Equal e i)
    then show ?thesis
      using cell_viewD(3) [OF discovery_round_views(1)] by simp
  next
    case (request i pc m)
    then show ?thesis using req_step_facts(2) [OF request(3)] by simp
  qed (auto simp: Engine_await_ready_def)
next
  case False
  then show ?thesis using assms by (simp add: other_step_def)
qed

lemma runs_config_plane:
  assumes "plane p q" "\<And>c. c_currentHash (st_cells (mgr q) c) = c_currentHash (st_cells (mgr p) c)" "runs_config k r raw p"
  shows "runs_config k r raw q"
  using plane_stable(1) [OF assms(1)] planeD(3) [OF assms(1)] assms(2,3)
  unfolding runs_config_def settled_def torn_def by metis

lemma apply_other:
  assumes "sys_inv L opts (ps_sys p)" "k \<noteq> fst kr" "runs_config k r raw p"
  shows "runs_config k r raw (on_mgr (apply_op (production_cfg L opts') mine now kr) p)"
proof -
  have inv: "mgr_inv (sy_infl (ps_sys p)) (mgr p)" using assms(1) by (simp add: sys_inv_def)
  obtain c where c: "Manager_Get k (mgr p) = Some c" "c_currentHash (st_cells (mgr p) c) = Some (HashConfig raw)"
    using assms(3) by (auto simp: runs_config_def)
  then have "Manager_Get (fst kr) (mgr p) \<noteq> Some c" using registered_distinct [OF inv] assms(2) by metis
  with ApplyConfig_frame [OF refl, where L = L and opts = opts' and key = "fst kr" and raw = "snd kr" and now = now and m = "mgr p"]
  have "Manager_Get k (apply_op (production_cfg L opts') mine now kr (mgr p)) = Some c"
    "st_cells (apply_op (production_cfg L opts') mine now kr (mgr p)) c = st_cells (mgr p) c"
    using c by (simp_all add: apply_op_def Manager_Get_def)
  moreover have "settled k r (on_mgr (apply_op (production_cfg L opts') mine now kr) p)"
    using plane_stable(1) [OF apply_plane] assms(3) by (simp add: runs_config_def)
  ultimately show ?thesis using c(2) by (simp add: runs_config_def)
qed

lemma apply_own:
  assumes "settled k r p" "map_of mine k \<noteq> None"
    and "\<And>c x. \<exists>eng. fst (Compile L \<lparr>dep_AllowExperimentalPlugins = opt_AllowExperimentalPlugins opts\<rparr> c k raw x) = Inr eng"
  shows "runs_config k r raw (on_mgr (apply_op (production_cfg L opts) mine now (k, raw)) p)"
proof -
  let ?m = "apply_op (production_cfg L opts) mine now (k, raw) (mgr p)"
  obtain c where c: "Manager_Get k (mgr p) = Some c" "c_state (st_cells (mgr p) c) \<noteq> StateDraining"
    using assms(1) by (auto simp: settled_def holds_role_def)
  have run: "?m = snd (Manager_ApplyConfig (production_cfg L opts) k raw now (mgr p))" using assms(2) by (auto simp: apply_op_def)
  have "fst (mc_compile (production_cfg L opts) c k raw (st_cells (mgr p) c)) \<noteq> Inl err" for err
    using assms(3) [of c "st_cells (mgr p) c"] by auto
  then have "c_currentHash (st_cells ?m c) = Some (HashConfig raw)"
    using ApplyConfig_hash [OF c, of L opts raw now] unfolding run by (auto split: prod.splits sum.splits)
  moreover have "Manager_Get k ?m = Some c"
    using ApplyConfig_frame [OF refl, where L = L and opts = opts and key = k and raw = raw and now = now and m = "mgr p"] c(1)
    by (simp add: run Manager_Get_def)
  ultimately show ?thesis
    using plane_stable(1) [OF apply_plane assms(1)] by (simp add: runs_config_def)
qed

lemma config_phase:
  assumes run: "interleaved (other_step L cfg)
      (map on_mgr (map (apply_op (production_cfg L (manager_options cfg)) mine now) configs)) p q"
    and inv: "sys_inv L (manager_options cfg) (ps_sys p)" and wf: "gomap_wf configs" "map_of configs k = Some raw"
    and role: "map_of mine k \<noteq> None" "settled k r p"
    and comp: "\<And>c x. \<exists>eng. fst (Compile L \<lparr>dep_AllowExperimentalPlugins = AllowExperimentalPlugins cfg\<rparr> c k raw x) = Inr eng"
  shows "sys_inv L (manager_options cfg) (ps_sys q) \<and> runs_config k r raw q"
proof -
  let ?op = "apply_op (production_cfg L (manager_options cfg)) mine now"
  obtain xs ys where configs: "configs = xs @ (k, raw) # ys" using map_of_SomeD [OF wf(2)] by (meson split_list)
  have other: "k \<noteq> fst kr" if "kr \<in> set ys" for kr using that wf(1) by (auto simp: configs image_iff)
  let ?as = "map on_mgr (map ?op xs)" and ?bs = "map on_mgr (map ?op ys)"
  show ?thesis
  proof (rule others.sequence_establishes [where P = "settled k r"])
    show "interleaved (other_step L cfg) (?as @ on_mgr (?op (k, raw)) # ?bs) p q" using run configs by simp
    show "list_all (mgr_act L cfg) (?as @ on_mgr (?op (k, raw)) # ?bs)" by (auto simp: list_all_iff handler_acts)
    show "settled k r v"
      if "sys_inv L (manager_options cfg) (ps_sys u)" "other_step L cfg u v" "settled k r u" for u v
      using plane_stable(1) other_plane that by blast
    show "settled k r (g u)" if "g \<in> set ?as" "settled k r u" for g u
      using that plane_stable(1) [OF apply_plane] by auto
    show "runs_config k r raw (on_mgr (?op (k, raw)) u)" if "settled k r u" for u
      using apply_own [OF that role(1), of L "manager_options cfg"] comp by (simp add: manager_options_def)
    show "runs_config k r raw v"
      if "sys_inv L (manager_options cfg) (ps_sys u)" "other_step L cfg u v" "runs_config k r raw u" for u v
      using runs_config_plane other_plane other_hash that by blast
    show "runs_config k r raw (g u)"
      if "g \<in> set ?bs" "sys_inv L (manager_options cfg) (ps_sys u)" "runs_config k r raw u" for g u
      using that apply_other [OF that(2)] other by auto
  qed (use inv role(2) in simp_all)
qed

text \<open>After a snapshot has been handled, in any interleaving, an assigned cluster runs the
  configuration the snapshot has for it.\<close>

lemma handled_config:
  assumes "sys_inv L (manager_options cfg) (ps_sys p)" "gomap_wf (ed_Assignment conf)" "gomap_wf (ed_EppConfig conf)"
    and "handling L cfg now conf p q" "\<not> torn k p"
    and "my_role (InstanceID cfg) (ed_Assignment conf) k = Some r" "map_of (ed_EppConfig conf) k = Some raw"
    and "\<And>c x. \<exists>eng. fst (Compile L \<lparr>dep_AllowExperimentalPlugins = AllowExperimentalPlugins cfg\<rparr> c k raw x) = Inr eng"
  shows "sys_inv L (manager_options cfg) (ps_sys q) \<and> runs_config k r raw q"
proof -
  define mine where "mine = handle_mine (InstanceID cfg) (ed_Assignment conf) []"
  note facts = handle_mine_facts [OF assms(2), of "InstanceID cfg", folded mine_def]
  let ?pc = "production_cfg L (manager_options cfg)"
  obtain p1 p2 where h:
    "interleaved (other_step L cfg) (map on_mgr (gauge_op mine # map (ensure_op ?pc) mine)) p p1"
    "interleaved (other_step L cfg) (map on_mgr (map (drop_op mine) (Manager_List (mgr p1)))) p1 p2"
    "interleaved (other_step L cfg) (map on_mgr (map (apply_op ?pc mine now) (ed_EppConfig conf))) p2 q"
    using assms(4) unfolding handling_def Let_def mine_def [symmetric] by blast
  have k: "map_of mine k = Some r" using facts(1) assms(6) by simp
  have inv1: "sys_inv L (manager_options cfg) (ps_sys p1)"
    by (rule others.sequence_inv [OF h(1) _ assms(1)]) (simp add: list_all_iff handler_acts)
  have inv2: "sys_inv L (manager_options cfg) (ps_sys p2)" by (rule drop_phase(1) [OF h(2) inv1])
  have "settled_or_gone False k r p1"
    using ensure_phase [OF h(1) assms(1) facts(2,3) k] assms(5) by simp
  then have "settled k r p2"
    using drop_phase(2) [OF h(2) inv1, of k False r] k by (simp add: settled_or_gone_def)
  with k show ?thesis by (intro config_phase [OF h(3) inv2 assms(3,7)] assms(8)) simp_all
qed

end
