(* ===== verification/Metric_Registry.thy ===== *)
theory Metric_Registry
  imports EPP_Prelude "HOL-Library.Multiset"
begin

text \<open>
  The metric collectors of the program and their registration: the package-level variables and
  \<open>init\<close> functions of \<open>pkg/cell/metrics.go\<close>, \<open>pkg/poller/poller.go\<close>, \<open>pkg/poller/epp_data.go\<close> and
  \<open>pkg/demux/metrics.go\<close>. The values the collectors hold are part of the state of the components;
  here is what they are called. The registry belongs to a library; the model is the list of
  collectors handed to its \<open>MustRegister\<close>, which panics, before \<open>main\<close> is entered, on names or labels
  the library rejects and on a name that is registered already.
\<close>

datatype collector = Counter | Gauge | Histogram

record opts_vec =
  ov_kind :: collector
  ov_Namespace :: string
  ov_Name :: string
  ov_Help :: string
  ov_labels :: "string list"

definition metric_vec :: "collector \<Rightarrow> string \<Rightarrow> string \<Rightarrow> string list \<Rightarrow> opts_vec" where
  "metric_vec kind name help labels =
     \<lparr>ov_kind = kind, ov_Namespace = ''ai_epp'', ov_Name = name, ov_Help = help, ov_labels = labels\<rparr>"

section \<open>The collectors\<close>

definition engineReloads_vec :: opts_vec where
  "engineReloads_vec = metric_vec Counter ''engine_reloads_total''
     ''Engine compile/swap attempts by cluster and result.'' [''cluster'', ''result'']"

definition engineCurrentVersion_vec :: opts_vec where
  "engineCurrentVersion_vec = metric_vec Gauge ''engine_current_version''
     ''Content hash of the currently active engine config, as a labeled gauge value of 1.'' [''cluster'', ''version'']"

definition cellStateGauge_vec :: opts_vec where
  "cellStateGauge_vec = metric_vec Gauge ''cell_state''
     ''Cell state by cluster, role and state; 1 for the current combination.'' [''cluster'', ''role'', ''state'']"

definition drainDuration_vec :: opts_vec where
  "drainDuration_vec = metric_vec Histogram ''drain_duration_seconds''
     ''Time to drain a replaced engine by cluster.'' [''cluster'']"

definition lastSyncTimestamp_vec :: opts_vec where
  "lastSyncTimestamp_vec = metric_vec Gauge ''poller_last_sync_timestamp''
     ''Unix timestamp of the last successful sync by poller.'' [''poller'']"

definition failuresTotal_vec :: opts_vec where
  "failuresTotal_vec = metric_vec Counter ''poller_failures_total''
     ''Failed fetch/handle rounds by poller.'' [''poller'']"

definition backoffState_vec :: opts_vec where
  "backoffState_vec = metric_vec Gauge ''poller_backoff_state''
     ''1 while the poller is in exponential backoff.'' [''poller'']"

definition assignmentNoMatch_vec :: opts_vec where
  "assignmentNoMatch_vec = metric_vec Gauge ''assignment_no_match''
     ''1 while the last applied epp_data snapshot assigns no cluster role to this instance.'' []"

definition demuxErrors_vec :: opts_vec where
  "demuxErrors_vec = metric_vec Counter ''demux_errors_total''
     ''Request-path routing errors by reason.'' [''reason'']"

text \<open>The bucket limits of the drain histogram, \<open>ExponentialBuckets(0.1, 2, 12)\<close>, in tenths of a second.\<close>

definition drain_buckets :: "nat list" where
  "drain_buckets = map (\<lambda>i. 2 ^ i) [0..<12]"

text \<open>The \<open>init\<close> functions: each registers the collectors of its file.\<close>

definition cell_init :: "opts_vec list" where
  "cell_init = [engineReloads_vec, engineCurrentVersion_vec, cellStateGauge_vec, drainDuration_vec]"

definition poller_init :: "opts_vec list" where
  "poller_init = [lastSyncTimestamp_vec, failuresTotal_vec, backoffState_vec]"

definition epp_data_init :: "opts_vec list" where
  "epp_data_init = [assignmentNoMatch_vec]"

definition demux_init :: "opts_vec list" where
  "demux_init = [demuxErrors_vec]"

section \<open>Registration succeeds\<close>

text \<open>Names and labels made of lower-case letters and underscores are valid in the exposition format.\<close>

definition plain_name :: "string \<Rightarrow> bool" where
  "plain_name s \<longleftrightarrow> s \<noteq> [] \<and> list_all (\<lambda>c. c \<in> set ''abcdefghijklmnopqrstuvwxyz_'') s"

definition vec_ok :: "opts_vec \<Rightarrow> bool" where
  "vec_ok v \<longleftrightarrow> plain_name (ov_Name v) \<and> list_all plain_name (ov_labels v) \<and> distinct (ov_labels v) \<and> ov_Help v \<noteq> [] \<and>
     (ov_kind v = Counter \<longleftrightarrow> drop (length (ov_Name v) - 6) (ov_Name v) = ''_total'')"

lemmas init_defs = cell_init_def poller_init_def epp_data_init_def demux_init_def

lemmas vec_defs = engineReloads_vec_def engineCurrentVersion_vec_def cellStateGauge_vec_def drainDuration_vec_def
  lastSyncTimestamp_vec_def failuresTotal_vec_def backoffState_vec_def assignmentNoMatch_vec_def demuxErrors_vec_def
  metric_vec_def

lemma collectors_ok:
  "list_all vec_ok (cell_init @ poller_init @ epp_data_init @ demux_init)"
  "distinct (map ov_Name (cell_init @ poller_init @ epp_data_init @ demux_init))"
  by code_simp+

lemma collectors_namespace:
  "v \<in> set (cell_init @ poller_init @ epp_data_init @ demux_init) \<Longrightarrow> ov_Namespace v = ''ai_epp''"
  by (auto simp: init_defs vec_defs)

text \<open>In whatever order the \<open>init\<close> functions run, no collector's name is registered twice, every name
  and label is valid, and exactly the counters follow the naming rule for counters.\<close>

lemma registration_any_order:
  assumes "mset inits = {#cell_init, poller_init, epp_data_init, demux_init#}"
  shows "distinct (map (\<lambda>v. (ov_Namespace v, ov_Name v)) (concat inits))" and "list_all vec_ok (concat inits)"
proof -
  have "mset (concat inits) = sum_list (map mset inits)" by (induction inits) auto
  also have "\<dots> = \<Sum>\<^sub># (image_mset mset (mset inits))" by (metis mset_map sum_mset_sum_list)
  also have "\<dots> = mset (cell_init @ poller_init @ epp_data_init @ demux_init)" by (simp add: assms)
  finally have perm: "mset (concat inits) = mset (cell_init @ poller_init @ epp_data_init @ demux_init)" .
  have "distinct (map ov_Name (concat inits))"
    using collectors_ok(2) perm by (metis mset_eq_imp_distinct_iff mset_map)
  then show "distinct (map (\<lambda>v. (ov_Namespace v, ov_Name v)) (concat inits))"
    by (auto simp: distinct_map inj_on_def)
  show "list_all vec_ok (concat inits)"
    using collectors_ok(1) mset_eq_setD [OF perm] unfolding list_all_iff by simp
qed

end
