(* ===== verification/Spec2Isabelle.thy ===== *)
theory Spec2Isabelle
  imports Plugin_Loop Drain_Liveness Ready_Liveness Watcher_Concurrent Metric_Registry
begin

text \<open>
  \<^bold>\<open>Verification of ai-gateway-epp.\<close>

  The program is the endpoint picker of an AI gateway. It polls a control plane for two versioned
  documents: the cluster table (the backends of every cluster) and the merged \<open>epp_data\<close> snapshot
  (one scheduling configuration per cluster, and the assignment of clusters to instances). From
  them it keeps a registry of cells, one per cluster this instance holds, each with its own data
  plane and its current engine, a compiled generation of the configuration. A gRPC server routes
  each request stream by the pool in its metadata to a primary cell's current engine.

  \<^bold>\<open>Theories and what they model.\<close>

  \<^item> \<open>EPP_Prelude\<close>: collections of facts, Go errors with \<open>errors.Is\<close>, Go maps as association lists,
    \<open>sync.Map\<close> and buffered channels with their contracts as locales (\<open>sync_map\<close>, \<open>bounded_fifo\<close>).
  \<^item> \<open>Go_Std\<close>: the standard library functions the code calls: durations (64-bit words),
    \<open>strconv.Itoa\<close>, \<open>net.JoinHostPort\<close>, \<open>strings.TrimRight\<close>, \<open>filepath.Join\<close>, \<open>url.QueryEscape\<close>, hexadecimal
    and SHA-256.
  \<^item> \<open>Go_Json\<close>, \<open>Json_Decode\<close>: \<open>encoding/json\<close> as the code uses it: a parser of JSON texts that keeps the raw
    bytes of every value, strings with escapes and UTF-8, \<open>json.Unmarshal\<close> into strings, integers, pointers,
    raw messages, slices, maps and structs, and a writer for the same types with the round trips.
  \<^item> \<open>Metric_Registry\<close>: the metric collectors of all packages and their registration.
  \<^item> \<open>Cluster_Hub\<close> (\<open>pkg/eppplugin/clustertable/hub.go\<close>): the hub of desired endpoints; \<open>WaitChange\<close> is a
    step relation; locale \<open>desired_hub\<close>.
  \<^item> \<open>Cluster_Plugin\<close> (\<open>discovery.go\<close> there): the discovery plugin, its diff and its loop; a datastore
    is what replaying its notifications gives.
  \<^item> \<open>Plugin_Loop\<close> (\<open>discovery.go\<close> there): the same loop call by call, with table replacements and other
    generations of the cell in between.
  \<^item> \<open>Cell_Core\<close> (\<open>pkg/cell/role.go\<close>, \<open>cell.go\<close>, \<open>engine.go\<close>, \<open>metrics.go\<close>): cells and engines in a store,
    every operation on them, and the metrics they write.
  \<^item> \<open>Cell_Compile\<close> (\<open>compile.go\<close>): the compilation of a configuration; the stages of the engine library
    (\<open>llm-d\<close>) are the record \<open>llmd\<close>, an argument.
  \<^item> \<open>Cell_Manager\<close> (\<open>manager.go\<close>): the registry, role transitions, hot swap, drain queue and workers,
    and the invariant \<open>mgr_inv\<close>; locale \<open>manager_env\<close> states what the manager needs of the compile and
    new-cell functions, and is interpreted on the production ones.
  \<^item> \<open>Manager_Contracts\<close>: what each operation of the manager promises.
  \<^item> \<open>Engine_Lifecycle\<close>: manager operations, drain workers, engine goroutines and requests interleaved
    as one step relation, with the invariant of its reachable states.
  \<^item> \<open>Poller_Loop\<close> (\<open>pkg/poller/helpers.go\<close>, \<open>poller.go\<close>): backoff, polling loop, abstract specification;
    locales \<open>poll_consumer\<close> and \<open>total_consumer\<close> for what is polled.
  \<^item> \<open>Inner_API\<close> (\<open>pkg/innerapi/client.go\<close>): the control-plane client, from the bytes of an answer to its result.
  \<^item> \<open>Cluster_Table\<close> (\<open>pkg/poller/discovery.go\<close>): the cluster table, its decoding, conversion and
    handler, interpreted as a \<open>total_consumer\<close>.
  \<^item> \<open>Local_Source\<close> (\<open>pkg/poller/local_source.go\<close>): the sources that read local files.
  \<^item> \<open>Epp_Data\<close> (\<open>epp_data.go\<close>): role resolution and the snapshot handler, interpreted as a \<open>poll_consumer\<close>.
  \<^item> \<open>Demux\<close> (\<open>pkg/demux\<close>): routing, admission (also with other goroutines between its reads) and the request stream;
    locale \<open>pool_router\<close>.
  \<^item> \<open>Epp_Main\<close> (\<open>cmd/epp\<close>): configuration, TLS options, health, metrics routes, wiring.
  \<^item> \<open>Epp_Plugins\<close> (\<open>cmd/epp/plugins.go\<close>): the registrations made at start-up.
  \<^item> \<open>Epp_Run\<close> (\<open>cmd/epp/main.go\<close>): the running process: its goroutines, the servers and the goroutines that stop
    them, the readiness gate, signals, errors and shutdown as a step relation over the states of all components.
  \<^item> \<open>Fair_Progress\<close>: infinite runs of a step relation and weak fairness; locale \<open>fair_progress\<close>: a goroutine
    that can always come nearer to its goal reaches it. Interpreted on the plugin and on the gate.
  \<^item> \<open>Worker_Pool\<close>: fair scheduling of the workers of a queue; locale \<open>worker_pool\<close>: every task is taken and
    finished.
  \<^item> \<open>Drain_Liveness\<close>: the drain queue inside the running process interpreted as a \<open>worker_pool\<close>.
  \<^item> \<open>Ready_Liveness\<close>: the readiness gate of the running process opens.
  \<^item> \<open>Interleaving\<close>: a sequence of operations with steps of others between them; locale \<open>interference\<close> for
    what survives them.
  \<^item> \<open>Watcher_Concurrent\<close> (\<open>epp_data.go\<close>): the snapshot handler cut into its calls of the manager, with the
    rest of the process running between any two of them, interpreted as an \<open>interference\<close>.

  \<^bold>\<open>How state and effects are modelled.\<close> Structs are records, enums datatypes, pointers numbers into a
  store, a context or a closed channel a flag, \<open>sync.WaitGroup\<close> its counter, \<open>uint64\<close> and
  \<open>time.Duration\<close> 64-bit words, errors values. An operation is a function from the state to its Go
  result and the new state. A loop that runs until its context ends (the poller, the plugin) is a
  function over the list of what it meets, one element per round: the theorems
  hold for every such list, so there is no fuel. The readiness gate is part of the step relation of the process: each of
  its reads of the registry and each look at a cell is a step of its own. Concurrency is modelled in \<open>Cluster_Hub\<close>,
  \<open>Engine_Lifecycle\<close>, \<open>Epp_Run\<close> and \<open>Watcher_Concurrent\<close>; liveness is stated of infinite runs, which may
  repeat a state, under weak fairness to the goroutine concerned. \<open>markReady\<close> loads the state of the cell and
  then stores it; run by the goroutine that waits for the plugins it is three steps, with the watcher's operations
  between them. A server of the process listens, accepts and is stopped by a goroutine that waits for the end of the
  group's context; that it may fail is a step relation of its own (\<open>fault_step\<close>), so that what the program does by
  itself is told apart. \<open>run\<close> ends with \<open>GracefulStop\<close>, which waits for the request streams that have not ended. The signal context is the parent of the cells' contexts; after a signal
  the goroutines of cells and engines may stop at any point, which the step relations allow by not
  taking a step. The recursion of the JSON parser is bounded by the length of its input, and nesting
  deeper than 10000 is rejected as in the library. Metrics are modelled, log lines are not.

  \<^bold>\<open>What is shown.\<close> Endpoints: from a table response to the datastore of a cell, nothing is lost,
  nothing stays behind, and updates are minimal (\<open>Cluster_Plugin\<close>, \<open>Cluster_Table\<close>, and below); a
  generation alone on its datastore converges to a table that stays, whatever happened before.
  Configuration: a failed compile changes nothing, a swap is complete and isolated, re-applying is
  a no-op, one cluster's configuration never affects another's. Life cycle: no engine, cell, drain
  or request leaks, in every interleaving; a replaced engine gets no new request; under fair
  scheduling every teardown completes. Roles: the registry follows the assignment, also when drains,
  engines and requests run between the operations of the handler; two instances that have handled
  one snapshot never hold a cluster in the same role; only primaries serve.
  The wire: tables and snapshots survive encoding and decoding, configurations byte for byte, an
  answer that was cut off is rejected, and an answer of the control plane determines the engine
  that serves the next request. The process: it is the concurrent system under its pollers, ends
  only by a signal or a failing server, and then within a bounded number of steps of its goroutines, request streams
  that do not end apart; it reports ready only after a pass of the gate in which every listed cell was ready, and does so when
  the assignments are synced and the cells stay ready.
  Polling: the loop refines its specification, keeps the last good state, backs off as documented
  and never spins. Some theorems state behaviour that differs from the comments or the evident
  intent: a fresh engine generation does not remove endpoints an earlier one had added, an older
  generation that runs beside a newer one can make the datastore lose an endpoint, the state
  gauge keeps old combinations, a rejected configuration can stay in the data plane, a cell that
  returns to primary can serve a cancelled engine, a cluster assigned back during its teardown is
  lost, a late \<open>markReady\<close> takes a dropped cell out of the draining state with its teardown still ahead, a
  draining primary still admits requests, the gate can open on a cell it has not looked at, a poll timeout that is not positive never syncs,
  the profiling route redirects to itself.

  \<^bold>\<open>What is not modelled.\<close> The engine library (scheduling, flow control, the ext-proc stream handler), its
  datastore, runtime and plugin registry (only the calls made on them), HTTP and gRPC transport and
  the file system (arguments: what a request or a file name gives), the texts of JSON errors (only that decoding
  fails, and whether the text or a type was at fault), JSON into types the program does not use, the
  decoder of plugin parameters the library passes to the factory (its result is an argument),
  logging and the test helpers.

  In \<open>Epp_Run\<close> a round of a plugin and a round of the snapshot handler are single steps, and a request
  is a sequence of steps; \<open>Plugin_Loop\<close> and \<open>Watcher_Concurrent\<close> cut the two rounds up. Each operation of the
  manager is one step: only the watcher's goroutine calls them, and the end of a drain or the store of a
  \<open>markReady\<close> between two reads of one operation is not represented. When a request stream ends is up to the
  engine library: a drain may end while requests run, as it does in the code after its timeout. Time is not part of
  the state: the timeout of a drain may have run out at any moment, and that a drain which has begun does end is part of the
  fairness assumed in \<open>Drain_Liveness\<close>.
\<close>

section \<open>From the control plane to the datastore\<close>

text \<open>
  C12. Endpoints end to end. If the discovery poller has moved to a new version, there is a table
  response with that version, and every fresh discovery plugin whose last round saw the hub after
  it has made its cell's datastore hold exactly the live backends that table gives its cluster.
\<close>

theorem table_reaches_datastore:
  assumes "hub_inv (cd_hub d)"
    and "snd (Poller_Start (ClusterDiscovery_Handle assigned)
           (map (\<lambda>(net, now). (ClusterDiscovery_Fetch net client, now)) nets) (p, d)) = (p', d')"
    and "p_version p' \<noteq> p_version p"
    and "\<And>a b. Equal a b \<Longrightarrow> a = b"
    and "NewFactory (Some (Inr cluster)) = Inr g" and "hs \<noteq> []" and "last hs = cd_hub d'"
  shows "\<exists>net now w table. (net, now) \<in> set nets \<and>
    Client_Get net dec_ClusterTableConfig [] client ClusterTablePath w = Inr (True, p_version p', table) \<and>
    replay (fst (discovery_Start Equal hs g)) Map.empty =
       desired_map (case map_of table cluster of
         None \<Rightarrow> [] | Some subs \<Rightarrow> map (endpoint_of cluster) (live_backends subs))"
proof -
  obtain net now w table where t: "(net, now) \<in> set nets"
    "Client_Get net dec_ClusterTableConfig [] client ClusterTablePath w = Inr (True, p_version p', table)"
    "fst (Hub_Snapshot cluster (cd_hub d')) = (case map_of table cluster of
       None \<Rightarrow> [] | Some subs \<Rightarrow> map (endpoint_of cluster) (live_backends subs))"
    using run_holds_last_table [OF assms(1,2)] assms(3) by blast
  have "replay (fst (discovery_Start Equal hs g)) Map.empty = desired_map (fst (Hub_Snapshot cluster (cd_hub d')))"
    using Start_tracks_hub [OF assms(4-6)] assms(7) by simp
  with t show ?thesis by metis
qed

theorem table_reaches_datastore_witness:
  "\<exists>d' :: ClusterDiscovery. replay (fst (discovery_Start (=) [cd_hub d'] gen_c1)) Map.empty (NamespacedName ''c1'' ''a'') \<noteq> None"
proof -
  let ?d = "NewClusterDiscovery NewHub None" and ?p = "Poller_New ''cluster_table'' \<lparr>po_Interval = 0, po_Timeout = 0\<rparr>"
  let ?fetch = "\<lambda>net. ClusterDiscovery_Fetch net (NewClient [] [] 0)"
  obtain p' d' where run: "snd (Poller_Start (ClusterDiscovery_Handle None)
      (map (\<lambda>(net, now). (?fetch net, now)) [(demo_net, 5)]) (?p, ?d)) = (p', d')" by fastforce
  have v: "p_version p' = ''v1''"
    using run by (auto simp: Poller_Start_def Poller_round_def ClusterDiscovery_Fetch_def demo_get
        ClusterDiscovery_Handle_def Let_def split: prod.splits)
  have inv: "hub_inv (cd_hub ?d)" by (simp add: NewClusterDiscovery_def NewHub_inv)
  have new: "p_version p' \<noteq> p_version ?p" by (simp add: v Poller_New_def)
  obtain net now w table where "(net, now) \<in> set [(demo_net, 5)]"
    "Client_Get net dec_ClusterTableConfig [] (NewClient [] [] 0) ClusterTablePath w = Inr (True, p_version p', table)"
    "replay (fst (discovery_Start (=) [cd_hub d'] gen_c1)) Map.empty =
       desired_map (case map_of table ''c1'' of
         None \<Rightarrow> [] | Some subs \<Rightarrow> map (endpoint_of ''c1'') (live_backends subs))"
    using table_reaches_datastore [OF inv run new, of "(=)" "''c1''" gen_c1 "[cd_hub d']"] gen_c1_made by auto
  then have "replay (fst (discovery_Start (=) [cd_hub d'] gen_c1)) Map.empty =
      desired_map (case map_of demo_table ''c1'' of
         None \<Rightarrow> [] | Some subs \<Rightarrow> map (endpoint_of ''c1'') (live_backends subs))"
    by (simp add: demo_get)
  then show ?thesis
    by (intro exI [of _ d']) (simp add: demo_table_def live_backends_def desired_map_def endpoint_of_def backendID_def)
qed

section \<open>From a snapshot to a request\<close>

lemma truncate_eqD:
  fixes d :: DemuxState and m :: EppDataWatcher
  assumes "Manager.truncate d = Manager.truncate m"
  shows "m_cells d = m_cells m" "st_cells d = st_cells m" "st_engines d = st_engines m"
  using assms by (simp_all add: Manager.truncate_def)

text \<open>The current engine of a primary cell admits the streams of its cluster.\<close>

lemma primary_admits:
  fixes m :: EppDataWatcher and d :: DemuxState
  assumes "Manager_Get k m = Some c" and "c_role (st_cells m c) = RolePrimary" and "c_engine (st_cells m c) = Some e"
    and "k \<noteq> []" and "\<And>hh'. extractPool lib (first\<lparr>pr_RequestHeaders := hh'\<rparr>) = k"
    and "pr_RequestHeaders first = Some (Some hh)" and "Manager.truncate d = Manager.truncate m"
  shows "\<exists>b. Process_admit lib s newid (Inr first # rest) d = (Inr (c, e, b), wg_Add e d)"
proof -
  note eq = truncate_eqD [OF assms(7)]
  have "Manager_Get k d = Some c" "Cell_Engine c d = Some e" "Cell_Role c d = RolePrimary"
    using assms(1-3) by (simp_all add: Manager_Get_def Cell_Engine_def Cell_Role_def eq)
  moreover have "Cell_Track c e d = (True, wg_Add e d)"
    using assms(3) by (simp add: Cell_Track_def Track_check_def Cell_Engine_def eq)
  ultimately show ?thesis
    using assms(4-6) by (simp add: admit_defs Let_def case_prod_unfold ManagerRouter_Route_def)
qed

text \<open>A cell that runs a configuration as primary admits the streams of its cluster to an engine of it.\<close>

lemma running_admits:
  fixes m :: EppDataWatcher
  assumes "mgr_inv infl m" and "Manager_Get k m = Some c" and "c_role (st_cells m c) = RolePrimary"
    and "c_currentHash (st_cells m c) = Some (HashConfig raw)"
    and "k \<noteq> []" and "\<And>hh'. extractPool lib (first\<lparr>pr_RequestHeaders := hh'\<rparr>) = k"
    and "pr_RequestHeaders first = Some (Some hh)"
  obtains e where "c_engine (st_cells m c) = Some e" "eng_Version (st_engines m e) = HashConfig raw"
    "\<forall>d :: DemuxState. Manager.truncate d = Manager.truncate m \<longrightarrow>
       (\<exists>b. Process_admit lib s newid (Inr first # rest) d = (Inr (c, e, b), wg_Add e d))"
proof -
  have c: "c < m_nextCell m" by (rule Get_bound [OF assms(1,2)])
  then obtain e where e: "c_engine (st_cells m c) = Some e"
    using assms(1,4) by (cases "c_engine (st_cells m c)") (auto simp: mgr_inv_def engines_wf_def)
  have ver: "eng_Version (st_engines m e) = HashConfig raw"
    using assms(1,4) c e by (auto simp: mgr_inv_def engines_wf_def)
  show thesis using primary_admits [OF assms(2,3) e assms(5-7)] by (intro that [OF e ver]) blast
qed

text \<open>
  A cell that is being torn down still admits requests. \<open>Drop\<close> makes the cell draining but leaves its role and its
  engine, and so does the drain; the demux checks only those. As long as the cell is in the registry, that is until the
  drain has finished, its teardown is ahead and a stream for the dropped cluster is admitted to the engine that is
  being drained, whatever the rest of the process does.
\<close>

lemma other_engine:
  assumes "other_step L cfg p q"
  shows "c_engine (st_cells (mgr q) c) = c_engine (st_cells (mgr p) c)"
proof (cases "data_step L cfg p q")
  case True
  then show ?thesis
  proof cases
    case (discover Equal e i)
    then show ?thesis
      using cell_viewD [OF discovery_round_views(1)] by simp
  next
    case (request i pc m)
    then show ?thesis using req_step_facts(2) [OF request(3)] by simp
  qed (auto simp: Engine_await_ready_def)
next
  case False
  then show ?thesis using assms by (simp add: other_step_def)
qed

lemma Drop_keeps:
  "c_role (st_cells (Manager_Drop k m) d) = c_role (st_cells m d)" "c_engine (st_cells (Manager_Drop k m) d) = c_engine (st_cells m d)"
proof -
  have "c_role (st_cells (scheduleDrain c e td m') d) = c_role (st_cells m' d) \<and>
      c_engine (st_cells (scheduleDrain c e td m') d) = c_engine (st_cells m' d)" for c e td and m' :: "'a Manager_scheme"
    by (cases rule: scheduleDrain_cases [of m' c e td]) (simp_all add: Manager_drain_def)
  then show "c_role (st_cells (Manager_Drop k m) d) = c_role (st_cells m d)" "c_engine (st_cells (Manager_Drop k m) d) = c_engine (st_cells m d)"
    by (auto simp: Manager_Drop_def Let_def split: option.split)
qed

lemma draining_primary_admits:
  assumes "(proc_step L cfg)\<^sup>*\<^sup>* (new_process L cfg) p" and "Manager_Get k (mgr p) = Some c"
    and "c_role (st_cells (mgr p) c) = RolePrimary" and "c_engine (st_cells (mgr p) c) = Some e"
    and "(other_step L cfg)\<^sup>*\<^sup>* (on_mgr (Manager_Drop k) p) q" and "Manager_Get k (mgr q) = Some c"
    and "k \<noteq> []" and "\<And>hh'. extractPool lib (first\<lparr>pr_RequestHeaders := hh'\<rparr>) = k"
    and "pr_RequestHeaders first = Some (Some hh)" and "Manager.truncate (d :: DemuxState) = Manager.truncate (mgr q)"
  shows "tearing_in q c \<and> (\<exists>b. Process_admit lib s newid (Inr first # rest) d = (Inr (c, e, b), wg_Add e d))"
proof -
  let ?p = "on_mgr (Manager_Drop k) p"
  note inv = reachable_manager [OF assms(1)]
  have dropped: "sys_inv L (manager_options cfg) (ps_sys ?p)"
    using sys_inv_step [OF sys_step.dropped inv(2)] by (simp add: on_mgr_def)
  have torn: "tearing_in ?p c" if "Manager_Get k (mgr ?p) = Some c"
    using draining_torn [OF dropped, of k] Drop_step(2) [OF inv(3), of k c] that by (auto simp: draining_def torn_def)
  from assms(5) have "sys_inv L (manager_options cfg) (ps_sys q) \<and> c_role (st_cells (mgr q) c) = RolePrimary \<and>
      c_engine (st_cells (mgr q) c) = Some e \<and> (Manager_Get k (mgr q) = Some c \<longrightarrow> tearing_in q c)"
  proof (induction rule: rtranclp_induct)
    case base
    with dropped torn assms(3,4) show ?case by (simp add: Drop_keeps)
  next
    case (step q r)
    then have q: "sys_inv L (manager_options cfg) (ps_sys q)" by blast
    note P = planeD [OF other_plane [OF q step(2)]]
    have "sys_inv L (manager_options cfg) (ps_sys r)"
      using step(2) q data_step_sys(1) sys_inv_step unfolding other_step_def by metis
    with step P other_engine [OF step(2)] show ?case by metis
  qed
  with primary_admits [OF assms(6) _ _ assms(7-10)] assms(6) show ?thesis by blast
qed

lemma snapshot_served:
  assumes "mgr_inv infl m" and "roles_agree m" and "gomap_wf (ed_Assignment conf)" and "gomap_wf (ed_EppConfig conf)"
    and "\<not> draining k m" and "my_role self (ed_Assignment conf) k = Some RolePrimary" and "map_of (ed_EppConfig conf) k = Some raw"
    and "\<And>c x. \<exists>eng. fst (Compile L \<lparr>dep_AllowExperimentalPlugins = opt_AllowExperimentalPlugins opts\<rparr> c k raw x) = Inr eng"
    and "k \<noteq> []" and "\<And>hh'. extractPool lib (first\<lparr>pr_RequestHeaders := hh'\<rparr>) = k"
    and "pr_RequestHeaders first = Some (Some hh)"
  shows "\<exists>m' c e. EppDataWatcher_Handle (production_cfg L opts) self now conf m = (Inr (), m') \<and>
    eng_Version (st_engines m' e) = HashConfig raw \<and>
    (\<forall>d :: DemuxState. Manager.truncate d = Manager.truncate m' \<longrightarrow>
       (\<exists>b. Process_admit lib s newid (Inr first # rest) d = (Inr (c, e, b), wg_Add e d)))"
proof -
  obtain m' c where h: "EppDataWatcher_Handle (production_cfg L opts) self now conf m = (Inr (), m')"
    "mgr_inv infl m'" "Manager_Get k m' = Some c" "c_role (st_cells m' c) = RolePrimary"
    "c_currentHash (st_cells m' c) = Some (HashConfig raw)"
    using Handle_good_config [OF assms(1-8)] by blast
  show ?thesis by (rule running_admits [OF h(2-5) assms(9-11), of s newid rest]) (use h(1) in blast)
qed

text \<open>
  C8. An assigned cluster is served, in every interleaving. From any state the process can reach, let
  the handler go through a snapshot that makes this instance primary for a cluster and carries a
  configuration that compiles, while everything else in the process runs between its operations.
  When it is done, a stream for that cluster is admitted to the current engine of the cluster's
  cell, and the version of that engine is the hash of exactly that configuration, whatever else the
  snapshot contains. No teardown of the cluster's cell must have been queued or under way when the handler began.
\<close>

theorem assigned_cluster_is_served:
  assumes "(proc_step L cfg)\<^sup>*\<^sup>* (new_process L cfg) p" and "handling L cfg now conf p q"
    and "gomap_wf (ed_Assignment conf)" and "gomap_wf (ed_EppConfig conf)" and "\<not> torn k p"
    and "my_role (InstanceID cfg) (ed_Assignment conf) k = Some RolePrimary" and "map_of (ed_EppConfig conf) k = Some raw"
    and "\<And>c x. \<exists>eng. fst (Compile L \<lparr>dep_AllowExperimentalPlugins = AllowExperimentalPlugins cfg\<rparr> c k raw x) = Inr eng"
    and "k \<noteq> []" and "\<And>hh'. extractPool lib (first\<lparr>pr_RequestHeaders := hh'\<rparr>) = k"
    and "pr_RequestHeaders first = Some (Some hh)"
  shows "\<exists>c e. Manager_Get k (mgr q) = Some c \<and> c_engine (st_cells (mgr q) c) = Some e \<and>
    eng_Version (st_engines (mgr q) e) = HashConfig raw \<and>
    (\<forall>d :: DemuxState. Manager.truncate d = Manager.truncate (mgr q) \<longrightarrow>
       (\<exists>b. Process_admit lib s newid (Inr first # rest) d = (Inr (c, e, b), wg_Add e d)))"
proof -
  have "sys_inv L (manager_options cfg) (ps_sys q) \<and> runs_config k RolePrimary raw q"
    by (rule handled_config [OF reachable_manager(2) [OF assms(1)] assms(3,4,2,5,6,7,8)])
  then obtain c where c: "mgr_inv (sy_infl (ps_sys q)) (mgr q)" "Manager_Get k (mgr q) = Some c"
    "c_role (st_cells (mgr q) c) = RolePrimary" "c_currentHash (st_cells (mgr q) c) = Some (HashConfig raw)"
    by (auto simp: runs_config_def settled_def holds_role_def sys_inv_def)
  show ?thesis by (rule running_admits [OF c assms(9-11), of s newid rest]) (use c(2) in blast)
qed

theorem assigned_cluster_is_served_witness:
  "\<exists>q c e. handling demo_llmd demo_cfg 5 demo_conf (new_process demo_llmd demo_cfg) q \<and>
     Manager_Get ''c2'' (mgr q) = Some c \<and> c_engine (st_cells (mgr q) c) = Some e \<and>
     eng_Version (st_engines (mgr q) e) = HashConfig ''v2''"
proof -
  let ?first = "demo_first\<lparr>pr_Metadata := [(''llm-d.ai'', AnyMap [(''inference-pool'', AnyString ''c2'')])]\<rparr>"
  let ?p = "new_process demo_llmd demo_cfg"
  have start: "(proc_step demo_llmd demo_cfg)\<^sup>*\<^sup>* ?p ?p" by simp
  obtain q where q: "handling demo_llmd demo_cfg 5 demo_conf ?p q"
    using handling_alone [OF reachable_manager(2) [OF start] demo_conf_wf(1)] by blast
  have "\<exists>c e. Manager_Get ''c2'' (mgr q) = Some c \<and> c_engine (st_cells (mgr q) c) = Some e \<and>
    eng_Version (st_engines (mgr q) e) = HashConfig ''v2'' \<and>
    (\<forall>d :: DemuxState. Manager.truncate d = Manager.truncate (mgr q) \<longrightarrow>
       (\<exists>b. Process_admit demo_lib \<lparr>sv_defaultPool = []\<rparr> ''id'' [Inr ?first] d = (Inr (c, e, b), wg_Add e d)))"
    by (rule assigned_cluster_is_served [OF start q demo_conf_wf demo_new_process(1), where hh = "\<lparr>hh_Headers = None\<rparr>"])
      (simp_all add: demo_new_process demo_conf_def my_role_def resolveRole_def demo_first_def demo_lib_def extractPool_def
        MetadataNamespace_def PoolMetadataKey_def)
  with q show ?thesis by blast
qed

text \<open>
  C13. From the control plane's answer to a request, in the running process. Whatever the process has
  done before, as long as it has not been stopped: when the control plane answers the next poll with
  a snapshot that makes this instance primary for a cluster and carries a configuration that
  compiles, the round is a step of the process that ends with the version of the answer and the
  first sync signalled, and a stream for the cluster is admitted to an engine whose version is the
  hash of exactly the bytes of the configuration in the answer. The one condition on the past is
  that the cluster's own cell is not in the draining state.
\<close>

theorem answer_is_served:
  assumes "(proc_step L cfg)\<^sup>*\<^sup>* (new_process L cfg) p" and "\<not> ps_cancelled p"
    and "LocalConfigDir cfg = []" and "0 < sint (PollTimeout cfg)" and "snapshot_ok conf" and "utf8_valid ver"
    and "answers net (NewClient (APIAddr cfg) (APIToken cfg) (PollTimeout cfg)) EppDataConfigPath
      (Poller_Version (ps_eppDataLoop p)) (jraw (answer_tree ver (enc_EppDataConfig conf)))"
    and "length (jraw (answer_tree ver (enc_EppDataConfig conf))) \<le> body_limit"
    and "\<not> draining k (sy_m (ps_sys p))"
    and "my_role (InstanceID cfg) (ed_Assignment conf) k = Some RolePrimary" and "map_of (ed_EppConfig conf) k = Some raw"
    and "\<And>c x. \<exists>eng. fst (Compile L \<lparr>dep_AllowExperimentalPlugins = AllowExperimentalPlugins cfg\<rparr> c k raw x) = Inr eng"
    and "k \<noteq> []" and "\<And>hh'. extractPool lib (first\<lparr>pr_RequestHeaders := hh'\<rparr>) = k"
    and "pr_RequestHeaders first = Some (Some hh)"
  shows "\<exists>delay loop m' c e.
    Poller_round (EppDataWatcher_Handle (production_cfg L (manager_options cfg)) (InstanceID cfg) now)
      (eppDataSrc cfg ReadFile (with_deadline (PollTimeout cfg) False net)) now
      (ps_eppDataLoop p, sy_m (ps_sys p)) = (delay, loop, m') \<and>
    run_step L cfg p (set_pc EppDataTask (InSelect True)
      (p\<lparr>ps_eppDataLoop := loop, ps_sys := (ps_sys p)\<lparr>sy_m := m'\<rparr>\<rparr>)) \<and>
    Poller_Version loop = ver \<and> Poller_FirstSync loop \<and> eng_Version (st_engines m' e) = HashConfig raw \<and>
    (\<forall>d :: DemuxState. Manager.truncate d = Manager.truncate m' \<longrightarrow>
       (\<exists>b. Process_admit lib s newid (Inr first # rest) d = (Inr (c, e, b), wg_Add e d)))"
proof -
  let ?p = "ps_eppDataLoop p" and ?handle = "EppDataWatcher_Handle (production_cfg L (manager_options cfg)) (InstanceID cfg) now"
  let ?src = "eppDataSrc cfg ReadFile (with_deadline (PollTimeout cfg) False net)"
  have inv: "process_inv p" by (rule reachable_process_inv [OF assms(1)])
  have fetch: "?src (p_version ?p) = Inr (True, ver, conf)"
    using fetched_snapshot [OF assms(5,6) assms(7) [unfolded Poller_Version_def] assms(8)] assms(3,4)
    by (simp add: eppDataSrc_def with_deadline_def)
  have wf: "gomap_wf (ed_Assignment conf)" "gomap_wf (ed_EppConfig conf)" using assms(5) by (simp_all add: snapshot_ok_def)
  have comp: "\<exists>eng. fst (Compile L \<lparr>dep_AllowExperimentalPlugins =
      opt_AllowExperimentalPlugins (manager_options cfg)\<rparr> c k raw x) = Inr eng" for c x
    using assms(12) by (simp add: manager_options_def)
  obtain m' c e where h: "?handle conf (sy_m (ps_sys p)) = (Inr (), m')"
    "eng_Version (st_engines m' e) = HashConfig raw"
    "\<forall>d :: DemuxState. Manager.truncate d = Manager.truncate m' \<longrightarrow>
       (\<exists>b. Process_admit lib s newid (Inr first # rest) d = (Inr (c, e, b), wg_Add e d))"
    using snapshot_served [OF reachable_manager(3,4) [OF assms(1)] wf assms(9-11) comp assms(13-15)] by metis
  let ?p' = "Poller_synced now (?p\<lparr>p_backoff := backoff_reset (p_backoff ?p), p_backoffState := 0, p_version := ver\<rparr>)"
  have round: "Poller_round ?handle ?src now (?p, sy_m (ps_sys p)) = (poll_interval ?p, ?p', m')"
    by (simp add: Poller_round_def fetch h(1))
  moreover have "ps_pc p EppDataTask = InSelect True" using inv assms(2) by (simp add: process_inv_def undisturbed_def)
  from run_step.eppData_round [OF this round [folded eq_False [THEN iffD2, OF assms(2)]]]
  have "run_step L cfg p (set_pc EppDataTask (InSelect True)
      (p\<lparr>ps_eppDataLoop := ?p', ps_sys := (ps_sys p)\<lparr>sy_m := m'\<rparr>\<rparr>))"
    using assms(2) by (simp add: timer_can_fire_def)
  moreover have "poller_wf ?p" using inv by (simp add: process_inv_def)
  then have "Poller_Version ?p' = ver" "Poller_FirstSync ?p'"
    by (auto simp: Poller_Version_def Poller_FirstSync_def Poller_synced_def syncOnce_do_def poller_wf_def Let_def)
  ultimately show ?thesis using h(2,3) by blast
qed

theorem answer_is_served_witness:
  "\<exists>delay loop m' e. Poller_round (EppDataWatcher_Handle (production_cfg demo_llmd (manager_options demo_cfg)) (InstanceID demo_cfg) 5)
     (eppDataSrc demo_cfg (\<lambda>_. Inr []) (with_deadline (PollTimeout demo_cfg) False wire_net)) 5
     (ps_eppDataLoop (new_process demo_llmd demo_cfg), sy_m (ps_sys (new_process demo_llmd demo_cfg))) = (delay, loop, m') \<and>
   Poller_Version loop = ''v7'' \<and> eng_Version (st_engines m' e) = HashConfig ''[1, 2]''"
proof -
  let ?first = "demo_first\<lparr>pr_Metadata := [(''llm-d.ai'', AnyMap [(''inference-pool'', AnyString ''c2'')])]\<rparr>"
  have comp: "\<exists>eng. fst (Compile demo_llmd deps c key ''[1, 2]'' x) = Inr eng" for deps c key x
    by (simp add: Compile_def demo_llmd_def configure_runtime_def select_discovery_def)
  note cfg = demo_new_process(3,4,5) and fresh = demo_new_process(6,2)
  note served = answer_is_served [OF rtranclp.rtrancl_refl fresh(2) cfg(1,2) wire_conf_ok _ wire_answers wire_size fresh(1),
      where k = "''c2''" and hh = "\<lparr>hh_Headers = None\<rparr>" and first = ?first and lib = demo_lib and raw = "''[1, 2]''"
        and ReadFile = "\<lambda>_. Inr []" and now = 5 and s = "\<lparr>sv_defaultPool = []\<rparr>" and newid = "''id''" and rest = "[]"]
  show ?thesis
    using served by (simp add: comp cfg(3) wire_conf_def my_role_def resolveRole_def demo_first_def demo_lib_def
        extractPool_def MetadataNamespace_def PoolMetadataKey_def) blast
qed

end
